(* ===== verification/C_Prelude.thy ===== *)
theory C_Prelude
  imports Main "HOL-Library.Word" "HOL-Library.Monad_Syntax"
begin

text \<open>
  The prelude of the development: the types that the two programs share (bytes, C integers,
  \<^verbatim>\<open>errno\<close>), C buffers as byte lists, and the small calculus in which the
  correctness of effectful functions is stated.

  An effectful C function is a function on the \<^emph>\<open>trace\<close> of the process: the list of everything
  the process has done so far (system calls with their results, log lines). The kernel and the
  other processes are a parameter: a record of functions that give the result of the next system
  call from the trace so far, so that every possible behaviour of the environment, delivery of
  signals included, is one value of the parameter. A function whose loops may run for ever (a
  system call that is interrupted again and again) has an option as its result, and
  \<open>None\<close> says that it never returns. \<open>holds\<close> is partial correctness of such a result,
  \<open>returns\<close> total correctness.
\<close>

named_theorems wp \<open>rules that push holds and returns through a program\<close>
named_theorems mem \<open>facts on C buffers\<close>

type_synonym u32 = "32 word"
type_synonym u64 = "64 word"
type_synonym buffer = "char list"

abbreviation NUL :: char where
  "NUL \<equiv> CHR 0x00"

abbreviation LF :: char where
  "LF \<equiv> CHR 0x0A"

abbreviation CR :: char where
  "CR \<equiv> CHR 0x0D"

text \<open>The values of \<^verbatim>\<open>errno\<close> that the code distinguishes; all others are \<open>EOther\<close>.\<close>

datatype errno =
    EPERM | ENOENT | ESRCH | EINTR | EIO | ECHILD | EACCES | EINVAL | ENAMETOOLONG
  | ENOSYS | EOVERFLOW | ENOTSUP | ECANCELED | EOther nat

text \<open>The signals that the code names, and the two exit codes.\<close>

datatype signal = SIGHUP | SIGINT | SIGTERM | SIGPIPE | SIGKILL

definition EXIT_SUCCESS :: int where
  "EXIT_SUCCESS = 0"

definition EXIT_FAILURE :: int where
  "EXIT_FAILURE = 1"

subsection \<open>Buffers\<close>

text \<open>
  \<open>store buf off src\<close> is \<^verbatim>\<open>memcpy(buf + off, src, n)\<close> with \<open>n = length src\<close>. A write
  outside of the buffer makes the list longer, so that \<open>length (store buf off src) = length buf\<close>
  is the statement that a copy stays in bounds.
\<close>

definition store :: "'a list \<Rightarrow> nat \<Rightarrow> 'a list \<Rightarrow> 'a list" where
  "store buf off src = take off buf @ src @ drop (off + length src) buf"

definition zeros :: "nat \<Rightarrow> buffer" where
  "zeros n = replicate n NUL"

lemma length_store [simp, mem]:
  "off + length src \<le> length buf \<Longrightarrow> length (store buf off src) = length buf"
  by (simp add: store_def)

lemma store_0 [simp]: "store buf 0 src = src @ drop (length src) buf"
  by (simp add: store_def)

lemma store_Nil [simp]: "store buf off [] = buf"
  by (simp add: store_def)

lemma take_store [mem]:
  "off + length src \<le> length buf \<Longrightarrow> take (off + length src) (store buf off src) = take off buf @ src"
  by (simp add: store_def)

lemma drop_store [mem]:
  "off \<le> length buf \<Longrightarrow> drop (off + length src) (store buf off src) = drop (off + length src) buf"
  by (simp add: store_def)

lemma store_store [mem]:
  "c \<le> length buf \<Longrightarrow> store (store buf c a) (c + length a) b = store buf c (a @ b)"
  by (simp add: store_def add.assoc add.commute add.left_commute)

lemma length_zeros [simp, mem]: "length (zeros n) = n"
  by (simp add: zeros_def)

lemma zeros_0 [simp]: "zeros 0 = []"
  by (simp add: zeros_def)

lemma set_zeros [simp]: "set (zeros n) \<subseteq> {NUL}"
  by (auto simp: zeros_def)

lemma drop_zeros [simp]: "drop m (zeros n) = zeros (n - m)"
  by (simp add: zeros_def)

lemma zeros_eq_iff: "xs = zeros n \<longleftrightarrow> length xs = n \<and> set xs \<subseteq> {NUL}"
  unfolding zeros_def by (auto simp: replicate_eqI subset_iff)

subsection \<open>Partial and total correctness of programs that may not return\<close>

definition holds :: "'a option \<Rightarrow> ('a \<Rightarrow> bool) \<Rightarrow> bool" where
  "holds m Q \<longleftrightarrow> (\<forall>x. m = Some x \<longrightarrow> Q x)"

definition returns :: "'a option \<Rightarrow> ('a \<Rightarrow> bool) \<Rightarrow> bool" where
  "returns m Q \<longleftrightarrow> (\<exists>x. m = Some x \<and> Q x)"

lemma holds_None [simp, wp]: "holds None Q"
  and holds_Some [simp, wp]: "holds (Some x) Q = Q x"
  and holds_bind [wp]: "holds (Option.bind m f) Q = holds m (\<lambda>x. holds (f x) Q)"
  by (auto simp: holds_def Option.bind_eq_Some_conv)

lemma returns_None [simp, wp]: "\<not> returns None Q"
  and returns_Some [simp, wp]: "returns (Some x) Q = Q x"
  and returns_bind [wp]: "returns (Option.bind m f) Q = returns m (\<lambda>x. returns (f x) Q)"
  by (auto simp: returns_def Option.bind_eq_Some_conv)

lemma holdsI: "(\<And>x. m = Some x \<Longrightarrow> Q x) \<Longrightarrow> holds m Q"
  by (simp add: holds_def)

lemma holdsD: "holds m Q \<Longrightarrow> m = Some x \<Longrightarrow> Q x"
  by (simp add: holds_def)

lemma holds_mono: "holds m P \<Longrightarrow> (\<And>x. P x \<Longrightarrow> Q x) \<Longrightarrow> holds m Q"
  by (simp add: holds_def)

lemma holds_conj: "holds m P \<Longrightarrow> holds m Q \<Longrightarrow> holds m (\<lambda>x. P x \<and> Q x)"
  by (simp add: holds_def)

lemma returns_mono: "returns m P \<Longrightarrow> (\<And>x. P x \<Longrightarrow> Q x) \<Longrightarrow> returns m Q"
  by (auto simp: returns_def)

lemma returns_holds: "returns m P \<Longrightarrow> holds m Q \<Longrightarrow> returns m (\<lambda>x. P x \<and> Q x)"
  by (auto simp: returns_def holds_def)

text \<open>\<open>total m\<close>: the program returns, with one rule per construct.\<close>

definition total :: "'a option \<Rightarrow> bool" where
  "total m \<longleftrightarrow> m \<noteq> None"

lemma total_Some [simp, intro]: "total (Some x)"
  by (simp add: total_def)

lemma totalI: "m \<noteq> None \<Longrightarrow> total m"
  by (simp add: total_def)

lemma totalE:
  assumes "total m"
  obtains x where "m = Some x"
  using assms by (auto simp: total_def)

lemma total_bind: "total m \<Longrightarrow> (\<And>x. m = Some x \<Longrightarrow> total (f x)) \<Longrightarrow> total (m \<bind> f)"
  by (cases m) (simp_all add: total_def)

lemma total_if: "(b \<Longrightarrow> total m) \<Longrightarrow> (\<not> b \<Longrightarrow> total n) \<Longrightarrow> total (if b then m else n)"
  by simp

lemma total_prod: "(\<And>a b. x = (a, b) \<Longrightarrow> total (f a b)) \<Longrightarrow> total (case x of (a, b) \<Rightarrow> f a b)"
  by (cases x) simp

lemma total_option:
  "(x = None \<Longrightarrow> total m) \<Longrightarrow> (\<And>a. x = Some a \<Longrightarrow> total (f a)) \<Longrightarrow>
   total (case x of None \<Rightarrow> m | Some a \<Rightarrow> f a)"
  by (cases x) simp_all

lemma total_sum:
  "(\<And>a. x = Inl a \<Longrightarrow> total (f a)) \<Longrightarrow> (\<And>b. x = Inr b \<Longrightarrow> total (g b)) \<Longrightarrow>
   total (case x of Inl a \<Rightarrow> f a | Inr b \<Rightarrow> g b)"
  by (cases x) simp_all

lemma total_Let: "total (f x) \<Longrightarrow> total (Let x f)"
  by simp

lemmas total_rules = total_Some total_bind total_if total_prod total_option total_sum total_Let

subsection \<open>Traces\<close>

text \<open>
  \<open>extends P tr tr'\<close>: the trace grew from \<open>tr\<close> to \<open>tr'\<close>, and every new event satisfies \<open>P\<close>.
\<close>

definition extends :: "('e \<Rightarrow> bool) \<Rightarrow> 'e list \<Rightarrow> 'e list \<Rightarrow> bool" where
  "extends P tr tr' \<longleftrightarrow> (\<exists>ev. tr' = tr @ ev \<and> list_all P ev)"

lemma extends_refl [simp]: "extends P tr tr"
  by (simp add: extends_def)

lemma extends_trans: "extends P t1 t2 \<Longrightarrow> extends P t2 t3 \<Longrightarrow> extends P t1 t3"
  by (fastforce simp: extends_def)

lemma extends_snoc: "extends P t1 t2 \<Longrightarrow> P e \<Longrightarrow> extends P t1 (t2 @ [e])"
  by (fastforce simp: extends_def)

lemma extends_append [simp]: "extends P tr (tr @ ev) \<longleftrightarrow> list_all P ev"
  by (simp add: extends_def)

lemma extends_step: "extends P (tr @ ev) tr' \<Longrightarrow> list_all P ev \<Longrightarrow> extends P tr tr'"
  by (auto simp: extends_def)

lemma extends_mono: "extends P tr tr' \<Longrightarrow> (\<And>e. P e \<Longrightarrow> Q e) \<Longrightarrow> extends Q tr tr'"
  unfolding extends_def by (metis list.pred_mono_strong)

lemma extendsE:
  assumes "extends P tr tr'"
  obtains ev where "tr' = tr @ ev" and "list_all P ev"
  using assms by (auto simp: extends_def)

end
