(* ===== verification/C_Strings.thy ===== *)
theory C_Strings
  imports C_Prelude
begin

text \<open>
  The functions of the C library on strings and numbers that the two programs call, on buffers as
  byte lists: \<^verbatim>\<open>strlen\<close>, \<^verbatim>\<open>strcspn\<close>, \<^verbatim>\<open>strchr\<close>,
  \<^verbatim>\<open>strrchr\<close>, \<^verbatim>\<open>memchr\<close>, \<^verbatim>\<open>snprintf\<close>, decimal output, and streams
  with \<^verbatim>\<open>fgets\<close> and \<^verbatim>\<open>fgetc\<close>.
\<close>

named_theorems cstring \<open>C strings in buffers\<close>

subsection \<open>Strings in buffers\<close>

text \<open>The C string that starts at the first byte of a buffer.\<close>

definition cstr :: "buffer \<Rightarrow> string" where
  "cstr buf = takeWhile (\<lambda>c. c \<noteq> NUL) buf"

definition strlen :: "buffer \<Rightarrow> nat" where
  "strlen buf = length (cstr buf)"

definition strcspn :: "buffer \<Rightarrow> string \<Rightarrow> nat" where
  "strcspn buf reject = length (takeWhile (\<lambda>c. c \<notin> set reject) (cstr buf))"

text \<open>The first index of a byte; \<open>None\<close> is the null pointer.\<close>

definition index_of :: "char \<Rightarrow> char list \<Rightarrow> nat option" where
  "index_of c s =
     (let i = length (takeWhile (\<lambda>d. d \<noteq> c) s) in if i < length s then Some i else None)"

definition strchr :: "buffer \<Rightarrow> char \<Rightarrow> nat option" where
  "strchr buf c = index_of c (cstr buf)"

definition strrchr :: "buffer \<Rightarrow> char \<Rightarrow> nat option" where
  "strrchr buf c = map_option (\<lambda>i. strlen buf - 1 - i) (index_of c (rev (cstr buf)))"

definition memchr :: "buffer \<Rightarrow> char \<Rightarrow> nat \<Rightarrow> nat option" where
  "memchr buf c n = index_of c (take n buf)"

text \<open>\<^verbatim>\<open>snprintf(buf, n, "%s", s)\<close>: at most \<open>n - 1\<close> bytes and the terminator.\<close>

definition snprintf :: "buffer \<Rightarrow> nat \<Rightarrow> string \<Rightarrow> buffer" where
  "snprintf buf n s = (if n = 0 then buf else store buf 0 (take (n - 1) s @ [NUL]))"

text \<open>The conversions \<^verbatim>\<open>%lu\<close>, \<^verbatim>\<open>%u\<close> and \<^verbatim>\<open>%ld\<close>.\<close>

fun show_nat :: "nat \<Rightarrow> string" where
  "show_nat n =
     (if n < 10 then [char_of (48 + n)] else show_nat (n div 10) @ [char_of (48 + n mod 10)])"

declare show_nat.simps [simp del]

definition show_int :: "int \<Rightarrow> string" where
  "show_int i = (if i < 0 then CHR ''-'' # show_nat (nat (- i)) else show_nat (nat i))"

subsection \<open>Streams\<close>

text \<open>
  A stream opened for reading: the bytes that it still delivers, whether a read has already met the
  end of the file, whether a read failed, and whether the error \<open>fail\<close> waits behind the last byte.
\<close>

record stream =
  rest :: "char list"
  fail :: "errno option"
  at_eof :: bool
  at_err :: bool

definition open_stream :: "char list \<Rightarrow> errno option \<Rightarrow> stream" where
  "open_stream content err = \<lparr>rest = content, fail = err, at_eof = False, at_err = False\<rparr>"

abbreviation feof :: "stream \<Rightarrow> bool" where
  "feof \<equiv> at_eof"

abbreviation ferror :: "stream \<Rightarrow> bool" where
  "ferror \<equiv> at_err"

definition stream_end :: "stream \<Rightarrow> stream" where
  "stream_end f =
     (case fail f of None \<Rightarrow> f\<lparr>rest := [], at_eof := True\<rparr>
      | Some _ \<Rightarrow> f\<lparr>rest := [], at_err := True\<rparr>)"

text \<open>One byte; \<open>None\<close> is \<^verbatim>\<open>EOF\<close>.\<close>

definition fgetc :: "stream \<Rightarrow> char option \<times> stream" where
  "fgetc f =
     (case rest f of c # cs \<Rightarrow> (Some c, f\<lparr>rest := cs\<rparr>) | [] \<Rightarrow> (None, stream_end f))"

text \<open>The bytes that \<^verbatim>\<open>fgets\<close> takes from the stream: up to a newline, at most \<open>n\<close>.\<close>

fun line_prefix :: "nat \<Rightarrow> char list \<Rightarrow> char list" where
  "line_prefix 0 cs = []"
| "line_prefix (Suc n) [] = []"
| "line_prefix (Suc n) (c # cs) = (if c = LF then [c] else c # line_prefix n cs)"

definition fgets :: "buffer \<Rightarrow> nat \<Rightarrow> stream \<Rightarrow> buffer option \<times> stream" where
  "fgets buf n f =
     (let s = line_prefix (n - 1) (rest f);
          f' = (if length s = n - 1 \<or> (s \<noteq> [] \<and> last s = LF)
                then f\<lparr>rest := drop (length s) (rest f)\<rparr> else stream_end f)
      in if at_err f' then (None, f') else if s = [] then (None, f')
         else (Some (store buf 0 (s @ [NUL])), f'))"

lemma line_prefix_length: "length (line_prefix n cs) \<le> n"
  by (induction n cs rule: line_prefix.induct) auto

lemma line_prefix_take: "line_prefix n cs = take (length (line_prefix n cs)) cs"
  by (induction n cs rule: line_prefix.induct) auto

lemma line_prefix_le: "length (line_prefix n cs) \<le> length cs"
  by (induction n cs rule: line_prefix.induct) auto

lemma fgets_rest_less:
  assumes "fgets buf n f = (Some buf', f')"
  shows "length (rest f') < length (rest f)"
proof -
  let ?s = "line_prefix (n - 1) (rest f)"
  have "?s \<noteq> []" and "rest f' = drop (length ?s) (rest f) \<or> rest f' = []"
    using assms
    by (auto simp: fgets_def stream_end_def Let_def split: if_splits option.splits)
  moreover have "rest f \<noteq> []"
    using \<open>?s \<noteq> []\<close> line_prefix_le [of "n - 1" "rest f"] by auto
  ultimately show ?thesis by auto
qed

subsection \<open>Facts\<close>

lemma cstr_terminated [simp, cstring]: "NUL \<notin> set s \<Longrightarrow> cstr (s @ NUL # junk) = s"
  by (induction s) (auto simp: cstr_def)

lemma NUL_not_in_cstr [simp]: "NUL \<notin> set (cstr buf)"
  by (auto simp: cstr_def dest: set_takeWhileD)

lemma cstr_zeros [simp]: "cstr (zeros n) = []"
  by (cases n) (simp_all add: cstr_def zeros_def)

lemma strlen_le: "strlen buf \<le> length buf"
  by (simp add: strlen_def cstr_def length_takeWhile_le)

lemma strlen_less [cstring]: "NUL \<in> set buf \<Longrightarrow> strlen buf < length buf"
  unfolding strlen_def cstr_def
  by (metis (mono_tags, lifting) length_takeWhile_le linorder_le_less_linear nle_le set_takeWhileD takeWhile_eq_all_conv takeWhile_eq_take take_all_iff)

lemma nth_strlen [cstring]: "NUL \<in> set buf \<Longrightarrow> buf ! strlen buf = NUL"
  using strlen_less [of buf] nth_length_takeWhile [of "\<lambda>c. c \<noteq> NUL" buf]
  by (simp add: strlen_def cstr_def)

lemma cstr_eq_take: "cstr buf = take (strlen buf) buf"
  unfolding strlen_def cstr_def by (rule takeWhile_eq_take)

lemma buffer_split [cstring]:
  "NUL \<in> set buf \<Longrightarrow> buf = cstr buf @ NUL # drop (strlen buf + 1) buf"
  using id_take_nth_drop [of "strlen buf" buf] strlen_less [of buf] nth_strlen [of buf]
  by (simp add: cstr_eq_take)

lemma take_Suc_strlen [cstring]: "NUL \<in> set buf \<Longrightarrow> take (strlen buf + 1) buf = cstr buf @ [NUL]"
  using strlen_less [of buf] nth_strlen [of buf]
  by (simp add: take_Suc_conv_app_nth cstr_eq_take)

lemma cstr_update [cstring]:
  "n \<le> strlen buf \<Longrightarrow> n < length buf \<Longrightarrow> cstr (buf[n := NUL]) = take n (cstr buf)"
proof -
  assume n: "n \<le> strlen buf" "n < length buf"
  have "NUL \<notin> set (take n (cstr buf))"
    using set_take_subset NUL_not_in_cstr by fastforce
  moreover have "take n (cstr buf) = take n buf"
    using n by (simp add: cstr_eq_take min_def)
  moreover have "buf[n := NUL] = take n buf @ NUL # drop (Suc n) buf"
    using n by (simp add: upd_conv_take_nth_drop)
  ultimately show ?thesis by simp
qed

lemma cstr_drop [cstring]: "n \<le> strlen buf \<Longrightarrow> cstr (drop n buf) = drop n (cstr buf)"
proof (induction buf arbitrary: n)
  case Nil
  then show ?case by (simp add: cstr_def)
next
  case (Cons c buf)
  then show ?case by (cases n) (auto simp: cstr_def strlen_def split: if_splits)
qed

lemma index_of_eq:
  "index_of c s = (if c \<in> set s then Some (length (takeWhile (\<lambda>d. d \<noteq> c) s)) else None)"
proof (cases "c \<in> set s")
  case True
  then have "length (takeWhile (\<lambda>d. d \<noteq> c) s) < length s"
    by (metis (mono_tags, lifting) length_takeWhile_le nat_less_le set_takeWhileD takeWhile_eq_take take_all_iff order_refl)
  with True show ?thesis by (simp add: index_of_def Let_def)
next
  case False
  then have "takeWhile (\<lambda>d. d \<noteq> c) s = s" by (auto simp: takeWhile_eq_all_conv)
  with False show ?thesis by (simp only: index_of_def Let_def) simp
qed

lemma takeWhile_before: "c \<notin> set s \<Longrightarrow> takeWhile (\<lambda>d. d \<noteq> c) (s @ c # t) = s"
  by (induction s) auto

lemma index_of_less: "index_of c s = Some i \<Longrightarrow> i < length s"
  by (auto simp: index_of_def Let_def split: if_splits)

lemma index_of_nth: "index_of c s = Some i \<Longrightarrow> s ! i = c"
  using nth_length_takeWhile [of "\<lambda>d. d \<noteq> c" s]
  by (auto simp: index_of_def Let_def split: if_splits)

lemma strchr_less [cstring]: "strchr buf c = Some i \<Longrightarrow> i < strlen buf"
  by (simp add: strchr_def strlen_def index_of_less)

lemma strrchr_less [cstring]: "strrchr buf c = Some i \<Longrightarrow> i < strlen buf"
  using index_of_less [of c "rev (cstr buf)"] by (auto simp: strrchr_def strlen_def)

text \<open>\<open>strrchr\<close> finds the last occurrence.\<close>

lemma strrchr_last [cstring]:
  assumes "cstr buf = a @ c # b" and "c \<notin> set b"
  shows "strrchr buf c = Some (length a)"
proof -
  have "index_of c (rev (cstr buf)) = Some (length b)"
    using assms by (simp add: index_of_eq takeWhile_before)
  with assms show ?thesis by (simp add: strrchr_def strlen_def)
qed

lemma strcspn_le_strlen [cstring]: "strcspn buf reject \<le> strlen buf"
  by (simp add: strcspn_def strlen_def length_takeWhile_le)

lemma length_fgets [mem]:
  "fgets buf n f = (Some buf', f') \<Longrightarrow> n \<le> length buf \<Longrightarrow> 0 < n \<Longrightarrow> length buf' = length buf"
  using line_prefix_length [of "n - 1" "rest f"]
  by (auto simp: fgets_def Let_def split: if_splits)

lemma fgets_terminated [cstring]:
  "fgets buf n f = (Some buf', f') \<Longrightarrow> NUL \<in> set buf'"
  by (auto simp: fgets_def Let_def split: if_splits)

lemma line_prefix_complete:
  "LF \<notin> set l \<Longrightarrow> length l < n \<Longrightarrow> line_prefix n (l @ LF # rest_cs) = l @ [LF]"
  by (induction n "l @ LF # rest_cs" arbitrary: l rule: line_prefix.induct)
     (auto simp: Cons_eq_append_conv)

lemma fgets_line:
  assumes "rest f = l @ LF # rest_cs" and "LF \<notin> set l" and "length l + 2 \<le> n" and "\<not> ferror f"
  shows "fgets buf n f =
    (Some (l @ LF # NUL # drop (length l + 2) buf), f\<lparr>rest := rest_cs\<rparr>)"
  using assms line_prefix_complete [of l "n - 1" rest_cs]
  by (simp add: fgets_def)

lemma store_cstr [cstring]:
  assumes "NUL \<in> set src" and "strlen src < length dst"
  shows "length (store dst 0 (take (strlen src + 1) src)) = length dst"
    and "NUL \<in> set (store dst 0 (take (strlen src + 1) src))"
    and "cstr (store dst 0 (take (strlen src + 1) src)) = cstr src"
proof -
  have s: "take (strlen src + 1) src = cstr src @ [NUL]"
    using assms(1) by (rule take_Suc_strlen)
  show "length (store dst 0 (take (strlen src + 1) src)) = length dst"
    unfolding s using assms(2) by (simp add: strlen_def)
  show "NUL \<in> set (store dst 0 (take (strlen src + 1) src))"
    and "cstr (store dst 0 (take (strlen src + 1) src)) = cstr src"
    unfolding s by simp_all
qed

lemma NUL_in_update: "NUL \<in> set buf \<Longrightarrow> NUL \<in> set (buf[i := NUL])"
  by (cases "i < length buf") (simp_all add: set_update_memI list_update_beyond)

lemma NUL_in_drop: "NUL \<in> set buf \<Longrightarrow> n \<le> strlen buf \<Longrightarrow> NUL \<in> set (drop n buf)"
  by (subst buffer_split) (simp_all add: strlen_def)

lemma nth_0_cstr: "NUL \<in> set m \<Longrightarrow> m ! 0 = (case cstr m of [] \<Rightarrow> NUL | c # _ \<Rightarrow> c)"
  by (cases m) (auto simp: cstr_def)

lemma open_stream_simps [simp]:
  "rest (open_stream cs e) = cs" "fail (open_stream cs e) = e"
  "\<not> at_eof (open_stream cs e)" "\<not> at_err (open_stream cs e)"
  "open_stream cs e\<lparr>rest := cs'\<rparr> = open_stream cs' e"
  by (simp_all add: open_stream_def)

lemma fgets_empty:
  "2 \<le> n \<Longrightarrow> fgets buf n (open_stream [] None) = (None, open_stream [] None\<lparr>at_eof := True\<rparr>)"
  by (cases "n - 1") (simp_all add: fgets_def stream_end_def open_stream_def)

lemma snprintf_terminated [cstring]:
  assumes "0 < n" and "n \<le> length buf"
  shows "length (snprintf buf n s) = length buf" and "NUL \<in> set (snprintf buf n s)"
  using assms by (auto simp: snprintf_def)

lemma snprintf_fits [cstring]:
  "length s < n \<Longrightarrow> NUL \<notin> set s \<Longrightarrow> cstr (snprintf buf n s) = s"
  by (simp add: snprintf_def)

end
