(* ===== verification/Auth_OS.thy ===== *)
theory Auth_OS
  imports C_Strings
begin

text \<open>
  The interface of the two authentication programs to the operating system. A process is described
  by its trace (\<open>auth_event list\<close>, oldest event first). The kernel, the other process and the
  delivery of signals are the parameter \<open>auth_kernel\<close>: for each system call, its result as a
  function of the trace so far. The functions \<open>sys_...\<close> make one call and record it.
  Results that the C functions hand over as \<open>-1\<close> and \<^verbatim>\<open>errno\<close> are \<open>errno option\<close>
  (\<open>None\<close> for success) or a sum with the error on the left.
\<close>

type_synonym uid = u32
type_synonym gid = u32
type_synonym fd = int

record file_status =
  st_is_socket :: bool
  st_uid :: uid

record ucred =
  cr_pid :: int
  cr_uid :: uid
  cr_gid :: gid

text \<open>What a signal does: run the handler that sets the flag, or nothing.\<close>

datatype disposition = Set_Flag | Ignore

text \<open>Of the terminal attributes the code changes the local flags only.\<close>

record termios =
  c_lflag :: u32
  c_other :: nat

datatype auth_event =
    Out string
  | OutText string
  | ErrOut string
  | Setvbuf bool
  | ReadFlag bool
  | SigAction signal disposition "errno option"
  | GetUid uid
  | GetEuid uid
  | GetGid gid
  | Readlink string nat "errno + string"
  | Fopen string "errno option"
  | Fclose "errno option"
  | Setgroups "gid list" "errno option"
  | Setresgid gid gid gid "errno option"
  | Setresuid uid uid uid "errno option"
  | Getresuid "errno + uid \<times> uid \<times> uid"
  | Seteuid uid "errno option"
  | Socket "errno + fd"
  | Lstat string "errno + file_status"
  | Unlink string "errno option"
  | Bind fd string "errno option"
  | Chmod string nat "errno option"
  | Listen fd nat "errno option"
  | Accept fd "errno + fd"
  | Connect fd string "errno option"
  | PeerCred fd "errno + ucred \<times> nat"
  | Read fd nat "errno + char list"
  | Write fd "char list" "errno + nat"
  | Close fd "errno option"
  | Isatty bool
  | Tcgetattr "errno + termios"
  | Tcsetattr termios "errno option"
  | StdinFgets bool
  | StdinDiscard

type_synonym auth_trace = "auth_event list"

record auth_kernel =
  k_strerror :: "errno \<Rightarrow> string"
  k_setvbuf :: "auth_trace \<Rightarrow> bool"
  k_flag :: "auth_trace \<Rightarrow> bool"
  k_sigaction :: "auth_trace \<Rightarrow> signal \<Rightarrow> errno option"
  k_getuid :: "auth_trace \<Rightarrow> uid"
  k_geteuid :: "auth_trace \<Rightarrow> uid"
  k_getgid :: "auth_trace \<Rightarrow> gid"
  k_readlink :: "auth_trace \<Rightarrow> string \<Rightarrow> errno + string"
  k_fopen :: "auth_trace \<Rightarrow> string \<Rightarrow> errno + stream"
  k_fclose :: "auth_trace \<Rightarrow> errno option"
  k_setgroups :: "auth_trace \<Rightarrow> gid list \<Rightarrow> errno option"
  k_setresgid :: "auth_trace \<Rightarrow> gid \<Rightarrow> gid \<Rightarrow> gid \<Rightarrow> errno option"
  k_setresuid :: "auth_trace \<Rightarrow> uid \<Rightarrow> uid \<Rightarrow> uid \<Rightarrow> errno option"
  k_getresuid :: "auth_trace \<Rightarrow> errno + uid \<times> uid \<times> uid"
  k_seteuid :: "auth_trace \<Rightarrow> uid \<Rightarrow> errno option"
  k_socket :: "auth_trace \<Rightarrow> errno + nat"
  k_lstat :: "auth_trace \<Rightarrow> string \<Rightarrow> errno + file_status"
  k_unlink :: "auth_trace \<Rightarrow> string \<Rightarrow> errno option"
  k_bind :: "auth_trace \<Rightarrow> fd \<Rightarrow> string \<Rightarrow> errno option"
  k_chmod :: "auth_trace \<Rightarrow> string \<Rightarrow> nat \<Rightarrow> errno option"
  k_listen :: "auth_trace \<Rightarrow> fd \<Rightarrow> nat \<Rightarrow> errno option"
  k_accept :: "auth_trace \<Rightarrow> fd \<Rightarrow> errno + nat"
  k_connect :: "auth_trace \<Rightarrow> fd \<Rightarrow> string \<Rightarrow> errno option"
  k_peercred :: "auth_trace \<Rightarrow> fd \<Rightarrow> errno + ucred \<times> nat"
  k_read :: "auth_trace \<Rightarrow> fd \<Rightarrow> nat \<Rightarrow> errno + char list"
  k_write :: "auth_trace \<Rightarrow> fd \<Rightarrow> char list \<Rightarrow> errno + nat"
  k_close :: "auth_trace \<Rightarrow> fd \<Rightarrow> errno option"
  k_isatty :: "auth_trace \<Rightarrow> bool"
  k_tcgetattr :: "auth_trace \<Rightarrow> errno + termios"
  k_tcsetattr :: "auth_trace \<Rightarrow> termios \<Rightarrow> errno option"

definition sys_setvbuf :: "auth_kernel \<Rightarrow> auth_trace \<Rightarrow> bool \<times> auth_trace" where
  "sys_setvbuf k tr = (let r = k_setvbuf k tr in (r, tr @ [Setvbuf r]))"

text \<open>
  One read of the flag that the signal handlers set (\<^verbatim>\<open>stop_requested\<close> in the backend,
  \<^verbatim>\<open>frontend_interrupted\<close> in the frontend).
\<close>

definition sys_flag :: "auth_kernel \<Rightarrow> auth_trace \<Rightarrow> bool \<times> auth_trace" where
  "sys_flag k tr = (let r = k_flag k tr in (r, tr @ [ReadFlag r]))"

definition sys_sigaction ::
    "auth_kernel \<Rightarrow> signal \<Rightarrow> disposition \<Rightarrow> auth_trace \<Rightarrow> errno option \<times> auth_trace" where
  "sys_sigaction k s h tr = (let r = k_sigaction k tr s in (r, tr @ [SigAction s h r]))"

definition sys_getuid :: "auth_kernel \<Rightarrow> auth_trace \<Rightarrow> uid \<times> auth_trace" where
  "sys_getuid k tr = (let r = k_getuid k tr in (r, tr @ [GetUid r]))"

definition sys_geteuid :: "auth_kernel \<Rightarrow> auth_trace \<Rightarrow> uid \<times> auth_trace" where
  "sys_geteuid k tr = (let r = k_geteuid k tr in (r, tr @ [GetEuid r]))"

definition sys_getgid :: "auth_kernel \<Rightarrow> auth_trace \<Rightarrow> gid \<times> auth_trace" where
  "sys_getgid k tr = (let r = k_getgid k tr in (r, tr @ [GetGid r]))"

text \<open>\<^verbatim>\<open>readlink\<close> stores at most \<open>n\<close> bytes.\<close>

definition sys_readlink ::
    "auth_kernel \<Rightarrow> string \<Rightarrow> nat \<Rightarrow> auth_trace \<Rightarrow> (errno + string) \<times> auth_trace" where
  "sys_readlink k p n tr =
     (let r = map_sum id (take n) (k_readlink k tr p) in (r, tr @ [Readlink p n r]))"

definition sys_fopen :: "auth_kernel \<Rightarrow> string \<Rightarrow> auth_trace \<Rightarrow> (errno + stream) \<times> auth_trace" where
  "sys_fopen k p tr =
     (let r = k_fopen k tr p
      in (r, tr @ [Fopen p (case r of Inl e \<Rightarrow> Some e | Inr _ \<Rightarrow> None)]))"

definition sys_fclose :: "auth_kernel \<Rightarrow> auth_trace \<Rightarrow> errno option \<times> auth_trace" where
  "sys_fclose k tr = (let r = k_fclose k tr in (r, tr @ [Fclose r]))"

definition sys_setgroups ::
    "auth_kernel \<Rightarrow> gid list \<Rightarrow> auth_trace \<Rightarrow> errno option \<times> auth_trace" where
  "sys_setgroups k gs tr = (let r = k_setgroups k tr gs in (r, tr @ [Setgroups gs r]))"

definition sys_setresgid ::
    "auth_kernel \<Rightarrow> gid \<Rightarrow> gid \<Rightarrow> gid \<Rightarrow> auth_trace \<Rightarrow> errno option \<times> auth_trace" where
  "sys_setresgid k a b c tr = (let r = k_setresgid k tr a b c in (r, tr @ [Setresgid a b c r]))"

definition sys_setresuid ::
    "auth_kernel \<Rightarrow> uid \<Rightarrow> uid \<Rightarrow> uid \<Rightarrow> auth_trace \<Rightarrow> errno option \<times> auth_trace" where
  "sys_setresuid k a b c tr = (let r = k_setresuid k tr a b c in (r, tr @ [Setresuid a b c r]))"

definition sys_getresuid ::
    "auth_kernel \<Rightarrow> auth_trace \<Rightarrow> (errno + uid \<times> uid \<times> uid) \<times> auth_trace" where
  "sys_getresuid k tr = (let r = k_getresuid k tr in (r, tr @ [Getresuid r]))"

definition sys_seteuid :: "auth_kernel \<Rightarrow> uid \<Rightarrow> auth_trace \<Rightarrow> errno option \<times> auth_trace" where
  "sys_seteuid k u tr = (let r = k_seteuid k tr u in (r, tr @ [Seteuid u r]))"

text \<open>A descriptor that a call hands out is not negative.\<close>

definition sys_socket :: "auth_kernel \<Rightarrow> auth_trace \<Rightarrow> (errno + fd) \<times> auth_trace" where
  "sys_socket k tr = (let r = map_sum id int (k_socket k tr) in (r, tr @ [Socket r]))"

definition sys_lstat ::
    "auth_kernel \<Rightarrow> string \<Rightarrow> auth_trace \<Rightarrow> (errno + file_status) \<times> auth_trace" where
  "sys_lstat k p tr = (let r = k_lstat k tr p in (r, tr @ [Lstat p r]))"

definition sys_unlink :: "auth_kernel \<Rightarrow> string \<Rightarrow> auth_trace \<Rightarrow> errno option \<times> auth_trace" where
  "sys_unlink k p tr = (let r = k_unlink k tr p in (r, tr @ [Unlink p r]))"

definition sys_bind ::
    "auth_kernel \<Rightarrow> fd \<Rightarrow> string \<Rightarrow> auth_trace \<Rightarrow> errno option \<times> auth_trace" where
  "sys_bind k d p tr = (let r = k_bind k tr d p in (r, tr @ [Bind d p r]))"

definition sys_chmod ::
    "auth_kernel \<Rightarrow> string \<Rightarrow> nat \<Rightarrow> auth_trace \<Rightarrow> errno option \<times> auth_trace" where
  "sys_chmod k p m tr = (let r = k_chmod k tr p m in (r, tr @ [Chmod p m r]))"

definition sys_listen ::
    "auth_kernel \<Rightarrow> fd \<Rightarrow> nat \<Rightarrow> auth_trace \<Rightarrow> errno option \<times> auth_trace" where
  "sys_listen k d n tr = (let r = k_listen k tr d n in (r, tr @ [Listen d n r]))"

definition sys_accept :: "auth_kernel \<Rightarrow> fd \<Rightarrow> auth_trace \<Rightarrow> (errno + fd) \<times> auth_trace" where
  "sys_accept k d tr = (let r = map_sum id int (k_accept k tr d) in (r, tr @ [Accept d r]))"

definition sys_connect ::
    "auth_kernel \<Rightarrow> fd \<Rightarrow> string \<Rightarrow> auth_trace \<Rightarrow> errno option \<times> auth_trace" where
  "sys_connect k d p tr = (let r = k_connect k tr d p in (r, tr @ [Connect d p r]))"

definition sys_peercred ::
    "auth_kernel \<Rightarrow> fd \<Rightarrow> auth_trace \<Rightarrow> (errno + ucred \<times> nat) \<times> auth_trace" where
  "sys_peercred k d tr = (let r = k_peercred k tr d in (r, tr @ [PeerCred d r]))"

text \<open>\<^verbatim>\<open>read\<close> stores at most \<open>n\<close> bytes, \<^verbatim>\<open>write\<close> reports at most what it was given.\<close>

definition sys_read ::
    "auth_kernel \<Rightarrow> fd \<Rightarrow> nat \<Rightarrow> auth_trace \<Rightarrow> (errno + char list) \<times> auth_trace" where
  "sys_read k d n tr =
     (let r = map_sum id (take n) (k_read k tr d n) in (r, tr @ [Read d n r]))"

definition sys_write ::
    "auth_kernel \<Rightarrow> fd \<Rightarrow> char list \<Rightarrow> auth_trace \<Rightarrow> (errno + nat) \<times> auth_trace" where
  "sys_write k d bs tr =
     (let r = map_sum id (min (length bs)) (k_write k tr d bs) in (r, tr @ [Write d bs r]))"

definition sys_close :: "auth_kernel \<Rightarrow> fd \<Rightarrow> auth_trace \<Rightarrow> errno option \<times> auth_trace" where
  "sys_close k d tr = (let r = k_close k tr d in (r, tr @ [Close d r]))"

definition sys_isatty :: "auth_kernel \<Rightarrow> auth_trace \<Rightarrow> bool \<times> auth_trace" where
  "sys_isatty k tr = (let r = k_isatty k tr in (r, tr @ [Isatty r]))"

definition sys_tcgetattr :: "auth_kernel \<Rightarrow> auth_trace \<Rightarrow> (errno + termios) \<times> auth_trace" where
  "sys_tcgetattr k tr = (let r = k_tcgetattr k tr in (r, tr @ [Tcgetattr r]))"

definition sys_tcsetattr ::
    "auth_kernel \<Rightarrow> termios \<Rightarrow> auth_trace \<Rightarrow> errno option \<times> auth_trace" where
  "sys_tcsetattr k t tr = (let r = k_tcsetattr k tr t in (r, tr @ [Tcsetattr t r]))"

text \<open>A line on the log or on the standard output, and one on the standard error.\<close>

definition out :: "string \<Rightarrow> auth_trace \<Rightarrow> auth_trace" where
  "out msg tr = tr @ [Out msg]"

definition err_out :: "string \<Rightarrow> auth_trace \<Rightarrow> auth_trace" where
  "err_out msg tr = tr @ [ErrOut msg]"

text \<open>Text on the log as it is, without a newline of its own.\<close>

definition out_text :: "string \<Rightarrow> auth_trace \<Rightarrow> auth_trace" where
  "out_text msg tr = tr @ [OutText msg]"

definition show_uid :: "u32 \<Rightarrow> string" where
  "show_uid u = show_nat (unat u)"

lemmas sys_defs =
  sys_setvbuf_def sys_flag_def sys_sigaction_def sys_getuid_def sys_geteuid_def sys_getgid_def
  sys_readlink_def sys_fopen_def sys_fclose_def sys_setgroups_def sys_setresgid_def
  sys_setresuid_def sys_getresuid_def sys_seteuid_def sys_socket_def sys_lstat_def sys_unlink_def
  sys_bind_def sys_chmod_def sys_listen_def sys_accept_def sys_connect_def sys_peercred_def
  sys_read_def sys_write_def sys_close_def sys_isatty_def sys_tcgetattr_def sys_tcsetattr_def
  out_def err_out_def out_text_def Let_def

subsection \<open>Interruptions\<close>

text \<open>The calls on the socket that a signal interrupted.\<close>

definition interrupts :: "auth_trace \<Rightarrow> nat" where
  "interrupts tr =
     length (filter (\<lambda>e. case e of Read _ _ r \<Rightarrow> r = Inl EINTR | Write _ _ r \<Rightarrow> r = Inl EINTR
                       | Accept _ r \<Rightarrow> r = Inl EINTR | _ \<Rightarrow> False) tr)"

text \<open>At most \<open>b\<close> calls on the socket are interrupted.\<close>

definition finite_interrupts :: "nat \<Rightarrow> auth_kernel \<Rightarrow> bool" where
  "finite_interrupts b k \<longleftrightarrow>
     (\<forall>tr d n. k_read k tr d n = Inl EINTR \<longrightarrow> interrupts tr < b) \<and>
     (\<forall>tr d bs. k_write k tr d bs = Inl EINTR \<longrightarrow> interrupts tr < b) \<and>
     (\<forall>tr d. k_accept k tr d = Inl EINTR \<longrightarrow> interrupts tr < b)"

lemma interrupts_simps [simp]:
  "interrupts [] = 0"
  "interrupts (tr @ ev) = interrupts tr + interrupts ev"
  "interrupts (ReadFlag b # tr) = interrupts tr"
  "interrupts (Out m # tr) = interrupts tr"
  "interrupts (ErrOut m # tr) = interrupts tr"
  "interrupts (Read d n r # tr) = (if r = Inl EINTR then Suc (interrupts tr) else interrupts tr)"
  "interrupts (Write d bs r' # tr) = (if r' = Inl EINTR then Suc (interrupts tr) else interrupts tr)"
  "interrupts (Accept d r'' # tr) = (if r'' = Inl EINTR then Suc (interrupts tr) else interrupts tr)"
  by (simp_all add: interrupts_def)

subsection \<open>A concrete kernel\<close>

text \<open>
  A kernel in which every call succeeds at once, for user and group 1000 and an empty file system;
  the concrete instances of the theorems change some of its answers.
\<close>

definition demo_kernel :: auth_kernel where
  "demo_kernel =
     \<lparr>k_strerror = (\<lambda>_. ''error''), k_setvbuf = (\<lambda>_. True), k_flag = (\<lambda>_. False),
      k_sigaction = (\<lambda>_ _. None), k_getuid = (\<lambda>_. 1000), k_geteuid = (\<lambda>_. 1000),
      k_getgid = (\<lambda>_. 1000), k_readlink = (\<lambda>_ _. Inr ''/a/build/Backend''),
      k_fopen = (\<lambda>_ _. Inl ENOENT), k_fclose = (\<lambda>_. None), k_setgroups = (\<lambda>_ _. None),
      k_setresgid = (\<lambda>_ _ _ _. None), k_setresuid = (\<lambda>_ _ _ _. None),
      k_getresuid = (\<lambda>_. Inr (1000, 1000, 1000)), k_seteuid = (\<lambda>_ _. Some EPERM),
      k_socket = (\<lambda>_. Inr 3), k_lstat = (\<lambda>_ _. Inl ENOENT), k_unlink = (\<lambda>_ _. None),
      k_bind = (\<lambda>_ _ _. None), k_chmod = (\<lambda>_ _ _. None), k_listen = (\<lambda>_ _ _. None),
      k_accept = (\<lambda>_ _. Inr 4), k_connect = (\<lambda>_ _ _. None),
      k_peercred = (\<lambda>_ _. Inr (\<lparr>cr_pid = 77, cr_uid = 1000, cr_gid = 1000\<rparr>, 12)),
      k_read = (\<lambda>_ _ _. Inr []), k_write = (\<lambda>_ _ bs. Inr (length bs)), k_close = (\<lambda>_ _. None),
      k_isatty = (\<lambda>_. False), k_tcgetattr = (\<lambda>_. Inl EINVAL), k_tcsetattr = (\<lambda>_ _. None)\<rparr>"

end
