(* ===== verification/Auth_Transfer.thy ===== *)
theory Auth_Transfer
  imports Auth_OS
begin

text \<open>
  The four loops that move whole messages over the socket: \<^verbatim>\<open>read_all\<close> and
  \<^verbatim>\<open>write_all\<close> of \<^verbatim>\<open>Backend.c\<close> and of \<^verbatim>\<open>Frontend.c\<close>. The backend looks at its
  stop flag before every call, the frontend only after an interrupted one. The contracts that the
  two programs rely on are the locales \<open>full_read\<close> and \<open>full_write\<close>, each with two
  interpretations; \<open>read_all\<close> returns as soon as signals stop interrupting it.
\<close>

subsection \<open>The loops\<close>

partial_function (option) backend_write_all ::
    "auth_kernel \<Rightarrow> fd \<Rightarrow> buffer \<Rightarrow> auth_trace \<Rightarrow> (int \<times> auth_trace) option" where
  "backend_write_all k d bs tr =
     (if bs = [] then Some (0, tr)
      else
        let (stop, tr) = sys_flag k tr in
        if stop then Some (-1, out ''[backend] shutdown requested before write completed'' tr)
        else
          let (r, tr) = sys_write k d bs tr in
          case r of
            Inl e \<Rightarrow>
              if e = EINTR
              then
                let (stop, tr) = sys_flag k tr in
                if stop then Some (-1, out ''[backend] write interrupted by shutdown request'' tr)
                else backend_write_all k d bs tr
              else Some (-1, out (''[backend] write() failed: '' @ k_strerror k e) tr)
          | Inr written \<Rightarrow>
              if written = 0 then Some (-1, out ''[backend] write() returned zero bytes'' tr)
              else backend_write_all k d (drop written bs) tr)"

partial_function (option) backend_read_all ::
    "auth_kernel \<Rightarrow> fd \<Rightarrow> buffer \<Rightarrow> nat \<Rightarrow> nat \<Rightarrow> auth_trace \<Rightarrow> (int \<times> buffer \<times> auth_trace) option"
    where
  "backend_read_all k d buf cursor n tr =
     (if n = 0 then Some (0, buf, tr)
      else
        let (stop, tr) = sys_flag k tr in
        if stop
        then Some (-1, buf, out ''[backend] shutdown requested before request completed'' tr)
        else
          let (r, tr) = sys_read k d n tr in
          case r of
            Inl e \<Rightarrow>
              if e = EINTR
              then
                let (stop, tr) = sys_flag k tr in
                if stop
                then Some (-1, buf, out ''[backend] read interrupted by shutdown request'' tr)
                else backend_read_all k d buf cursor n tr
              else Some (-1, buf, out (''[backend] read() failed: '' @ k_strerror k e) tr)
          | Inr received \<Rightarrow>
              if received = []
              then Some (-1, buf,
                     out ''[backend] client closed before sending a complete request'' tr)
              else backend_read_all k d (store buf cursor received) (cursor + length received)
                     (n - length received) tr)"

partial_function (option) frontend_write_all ::
    "auth_kernel \<Rightarrow> fd \<Rightarrow> buffer \<Rightarrow> auth_trace \<Rightarrow> (int \<times> auth_trace) option" where
  "frontend_write_all k d bs tr =
     (if bs = [] then Some (0, tr)
      else
        let (r, tr) = sys_write k d bs tr in
        case r of
          Inl e \<Rightarrow>
            if e = EINTR
            then
              let (interrupted, tr) = sys_flag k tr in
              if interrupted then Some (-1, err_out ''Authentication request interrupted.'' tr)
              else frontend_write_all k d bs tr
            else Some (-1, err_out (''write: '' @ k_strerror k e) tr)
        | Inr written \<Rightarrow>
            if written = 0
            then Some (-1, err_out
                   ''Unable to send authentication request: write returned zero bytes.'' tr)
            else frontend_write_all k d (drop written bs) tr)"

partial_function (option) frontend_read_all ::
    "auth_kernel \<Rightarrow> fd \<Rightarrow> buffer \<Rightarrow> nat \<Rightarrow> nat \<Rightarrow> auth_trace \<Rightarrow> (int \<times> buffer \<times> auth_trace) option"
    where
  "frontend_read_all k d buf cursor n tr =
     (if n = 0 then Some (0, buf, tr)
      else
        let (r, tr) = sys_read k d n tr in
        case r of
          Inl e \<Rightarrow>
            if e = EINTR
            then
              let (interrupted, tr) = sys_flag k tr in
              if interrupted
              then Some (-1, buf, err_out ''Authentication response interrupted.'' tr)
              else frontend_read_all k d buf cursor n tr
            else Some (-1, buf, err_out (''read: '' @ k_strerror k e) tr)
        | Inr received \<Rightarrow>
            if received = []
            then Some (-1, buf, err_out
                   ''Backend closed the connection before sending a complete response.'' tr)
            else frontend_read_all k d (store buf cursor received) (cursor + length received)
                   (n - length received) tr)"

declare backend_write_all.simps [code] backend_read_all.simps [code]
  frontend_write_all.simps [code] frontend_read_all.simps [code]

subsection \<open>What was transferred\<close>

definition bytes_read :: "fd \<Rightarrow> auth_trace \<Rightarrow> buffer" where
  "bytes_read d tr =
     concat (map (\<lambda>e. case e of Read d' _ (Inr bs) \<Rightarrow> if d' = d then bs else [] | _ \<Rightarrow> []) tr)"

definition bytes_written :: "fd \<Rightarrow> auth_trace \<Rightarrow> buffer" where
  "bytes_written d tr =
     concat (map (\<lambda>e. case e of Write d' bs (Inr n) \<Rightarrow> if d' = d then take n bs else [] | _ \<Rightarrow> []) tr)"

text \<open>Events of a read loop and of a write loop.\<close>

fun read_event :: "fd \<Rightarrow> auth_event \<Rightarrow> bool" where
  "read_event d (Read d' _ _) = (d' = d)"
| "read_event d (ReadFlag _) = True"
| "read_event d (Out _) = True"
| "read_event d (ErrOut _) = True"
| "read_event d _ = False"

fun write_event :: "fd \<Rightarrow> auth_event \<Rightarrow> bool" where
  "write_event d (Write d' _ _) = (d' = d)"
| "write_event d (ReadFlag _) = True"
| "write_event d (Out _) = True"
| "write_event d (ErrOut _) = True"
| "write_event d _ = False"

lemma bytes_read_simps [simp]:
  "bytes_read d [] = []"
  "bytes_read d (tr @ ev) = bytes_read d tr @ bytes_read d ev"
  "bytes_read d (ReadFlag b # tr) = bytes_read d tr"
  "bytes_read d (Out m # tr) = bytes_read d tr"
  "bytes_read d (ErrOut m # tr) = bytes_read d tr"
  "bytes_read d (Read d' n (Inl e) # tr) = bytes_read d tr"
  "bytes_read d (Read d' n (Inr bs) # tr) = (if d' = d then bs else []) @ bytes_read d tr"
  by (simp_all add: bytes_read_def)

lemma bytes_written_simps [simp]:
  "bytes_written d [] = []"
  "bytes_written d (tr @ ev) = bytes_written d tr @ bytes_written d ev"
  "bytes_written d (ReadFlag b # tr) = bytes_written d tr"
  "bytes_written d (Out m # tr) = bytes_written d tr"
  "bytes_written d (ErrOut m # tr) = bytes_written d tr"
  "bytes_written d (Write d' bs (Inl e) # tr) = bytes_written d tr"
  "bytes_written d (Write d' bs (Inr n) # tr) = (if d' = d then take n bs else []) @ bytes_written d tr"
  by (simp_all add: bytes_written_def)

text \<open>What a run of a read loop has done when it returns.\<close>

definition read_result ::
    "fd \<Rightarrow> buffer \<Rightarrow> nat \<Rightarrow> nat \<Rightarrow> auth_trace \<Rightarrow> int \<times> buffer \<times> auth_trace \<Rightarrow> bool" where
  "read_result d buf cursor n tr res \<longleftrightarrow> cursor + n \<le> length buf \<longrightarrow>
     (case res of (rc, buf', tr') \<Rightarrow>
       \<exists>data. buf' = store buf cursor data \<and> length data \<le> n \<and>
         bytes_read d tr' = bytes_read d tr @ data \<and>
         rc = (if length data = n then 0 else -1) \<and> extends (read_event d) tr tr')"

lemma read_result_done [intro]: "read_result d buf cursor 0 tr (0, buf, tr)"
  by (simp add: read_result_def)

lemma read_result_stop:
  "0 < n \<Longrightarrow> bytes_read d (tr @ ev) = bytes_read d tr \<Longrightarrow> list_all (read_event d) ev \<Longrightarrow>
   read_result d buf cursor n tr (-1, buf, tr @ ev)"
  by (auto simp: read_result_def)

lemma read_result_step:
  assumes "read_result d (store buf cursor bs) (cursor + length bs) (n - length bs) (tr @ ev) res"
    and "length bs \<le> n" and "bytes_read d (tr @ ev) = bytes_read d tr @ bs"
    and "list_all (read_event d) ev"
  shows "read_result d buf cursor n tr res"
proof -
  obtain rc buf' tr' where res: "res = (rc, buf', tr')" by (cases res)
  show ?thesis
    unfolding read_result_def res prod.case
  proof
    assume len: "cursor + n \<le> length buf"
    then obtain data where d: "buf' = store (store buf cursor bs) (cursor + length bs) data"
        "length data \<le> n - length bs" "bytes_read d tr' = bytes_read d (tr @ ev) @ data"
        "rc = (if length data = n - length bs then 0 else -1)" "extends (read_event d) (tr @ ev) tr'"
      using assms(1,2) unfolding read_result_def res by auto
    have "buf' = store buf cursor (bs @ data)"
      using d(1) len assms(2) by (simp add: store_store)
    moreover have "bytes_read d tr' = bytes_read d tr @ (bs @ data)"
      using d(3) assms(3) by simp
    moreover have "rc = (if length (bs @ data) = n then 0 else -1)" "length (bs @ data) \<le> n"
      using d(2,4) assms(2) by auto
    moreover have "extends (read_event d) tr tr'"
      using d(5) assms(4) by (rule extends_step)
    ultimately show "\<exists>data. buf' = store buf cursor data \<and> length data \<le> n \<and>
         bytes_read d tr' = bytes_read d tr @ data \<and>
         rc = (if length data = n then 0 else -1) \<and> extends (read_event d) tr tr'"
      by blast
  qed
qed

lemma read_result_again:
  "read_result d buf cursor n (tr @ ev) res \<Longrightarrow> bytes_read d ev = [] \<Longrightarrow>
   list_all (read_event d) ev \<Longrightarrow> read_result d buf cursor n tr res"
  using read_result_step [of d buf cursor "[]" n tr ev res] by simp

lemmas read_result_intros = read_result_stop read_result_again read_result_step

lemma backend_read_all_result:
  assumes "backend_read_all k d buf cursor n tr = Some res"
  shows "read_result d buf cursor n tr res"
proof (rule backend_read_all.raw_induct [where P = "\<lambda>k d buf cursor n tr. read_result d buf cursor n tr",
      OF _ assms], goal_cases)
  case (1 f k d buf cursor n tr res)
  note IH = 1(1) and eq = 1(2)
  show ?case
  proof (cases "n = 0")
    case True
    with eq show ?thesis by auto
  next
    case n: False
    show ?thesis
    proof (cases "k_read k (tr @ [ReadFlag False]) d n")
      case (Inl e)
      then show ?thesis
        using eq n
        by (auto simp: sys_defs Let_def intro: read_result_stop read_result_again
            dest!: IH split: if_splits)
    next
      case (Inr bs)
      then show ?thesis
        using eq n
        by (auto simp: sys_defs Let_def intro: read_result_stop read_result_step [where bs = "take n bs"]
            dest!: IH split: if_splits)
    qed
  qed
qed


lemma frontend_read_all_result:
  assumes "frontend_read_all k d buf cursor n tr = Some res"
  shows "read_result d buf cursor n tr res"
proof (rule frontend_read_all.raw_induct [where P = "\<lambda>k d buf cursor n tr. read_result d buf cursor n tr",
      OF _ assms], goal_cases)
  case (1 f k d buf cursor n tr res)
  note IH = 1(1) and eq = 1(2)
  show ?case
  proof (cases "n = 0")
    case True
    with eq show ?thesis by auto
  next
    case n: False
    show ?thesis
    proof (cases "k_read k tr d n")
      case (Inl e)
      then show ?thesis
        using eq n
        by (auto simp: sys_defs Let_def intro: read_result_stop read_result_again
            dest!: IH split: if_splits)
    next
      case (Inr bs)
      then show ?thesis
        using eq n
        by (auto simp: sys_defs Let_def intro: read_result_stop read_result_step [where bs = "take n bs"]
            dest!: IH split: if_splits)
    qed
  qed
qed

lemma backend_read_all_returns:
  assumes "finite_interrupts b k"
  shows "backend_read_all k d buf cursor n tr \<noteq> None"
proof (induction "n + (b - interrupts tr)" arbitrary: buf cursor n tr rule: less_induct)
  case less
  have lt: "k_read k tr d n = Inl EINTR \<Longrightarrow> interrupts tr < b" for tr d n
    using assms unfolding finite_interrupts_def by blast
  show ?case
  proof (cases "k_read k (tr @ [ReadFlag False]) d n")
    case (Inl e)
    then show ?thesis
      using lt [of "tr @ [ReadFlag False]" d n]
        less [of n "tr @ [ReadFlag False, Read d n (Inl EINTR), ReadFlag False]" buf cursor]
      by (subst backend_read_all.simps) (auto simp: sys_defs Let_def)
  next
    case (Inr bs)
    then show ?thesis
      using less [of "n - length (take n bs)" "tr @ [ReadFlag False, Read d n (Inr (take n bs))]"]
      by (subst backend_read_all.simps) (auto simp: sys_defs Let_def)
  qed
qed

lemma frontend_read_all_returns:
  assumes "finite_interrupts b k"
  shows "frontend_read_all k d buf cursor n tr \<noteq> None"
proof (induction "n + (b - interrupts tr)" arbitrary: buf cursor n tr rule: less_induct)
  case less
  have lt: "k_read k tr d n = Inl EINTR \<Longrightarrow> interrupts tr < b" for tr d n
    using assms unfolding finite_interrupts_def by blast
  show ?case
  proof (cases "k_read k tr d n")
    case (Inl e)
    then show ?thesis
      using lt [of tr d n]
        less [of n "tr @ [Read d n (Inl EINTR), ReadFlag False]" buf cursor]
      by (subst frontend_read_all.simps) (auto simp: sys_defs Let_def)
  next
    case (Inr bs)
    then show ?thesis
      using less [of "n - length (take n bs)" "tr @ [Read d n (Inr (take n bs))]"]
      by (subst frontend_read_all.simps) (auto simp: sys_defs Let_def)
  qed
qed


text \<open>The same for a write loop.\<close>

definition write_result :: "fd \<Rightarrow> buffer \<Rightarrow> auth_trace \<Rightarrow> int \<times> auth_trace \<Rightarrow> bool" where
  "write_result d bs tr res \<longleftrightarrow>
     (case res of (rc, tr') \<Rightarrow>
       \<exists>n \<le> length bs. bytes_written d tr' = bytes_written d tr @ take n bs \<and>
         rc = (if n = length bs then 0 else -1) \<and> extends (write_event d) tr tr')"

lemma write_result_done [intro]: "write_result d [] tr (0, tr)"
  by (simp add: write_result_def)

lemma write_result_stop:
  "bs \<noteq> [] \<Longrightarrow> bytes_written d ev = [] \<Longrightarrow> list_all (write_event d) ev \<Longrightarrow>
   write_result d bs tr (-1, tr @ ev)"
  by (auto simp: write_result_def)

lemma write_result_step:
  assumes "write_result d (drop m bs) (tr @ ev) res"
    and "m \<le> length bs" and "bytes_written d ev = take m bs" and "list_all (write_event d) ev"
  shows "write_result d bs tr res"
proof -
  obtain rc tr' where res: "res = (rc, tr')" by (cases res)
  from assms(1) obtain n where n: "n \<le> length bs - m"
      "bytes_written d tr' = bytes_written d (tr @ ev) @ take n (drop m bs)"
      "rc = (if n = length bs - m then 0 else -1)" "extends (write_event d) (tr @ ev) tr'"
    by (auto simp: write_result_def res)
  have "bytes_written d tr' = bytes_written d tr @ take (m + n) bs"
    using n(2) assms(2,3) by (simp add: take_add)
  moreover have "rc = (if m + n = length bs then 0 else -1)" "m + n \<le> length bs"
    using n(1,3) assms(2) by auto
  moreover have "extends (write_event d) tr tr'"
    using n(4) assms(4) by (rule extends_step)
  ultimately show ?thesis
    unfolding write_result_def res by auto
qed

lemma write_result_again:
  "write_result d bs (tr @ ev) res \<Longrightarrow> bytes_written d ev = [] \<Longrightarrow>
   list_all (write_event d) ev \<Longrightarrow> write_result d bs tr res"
  using write_result_step [of d 0 bs tr ev res] by simp


lemma backend_write_all_result:
  assumes "backend_write_all k d bs tr = Some res"
  shows "write_result d bs tr res"
proof (rule backend_write_all.raw_induct [where P = "\<lambda>k d bs tr. write_result d bs tr",
      OF _ assms], goal_cases)
  case (1 f k d bs tr res)
  note IH = 1(1) and eq = 1(2)
  show ?case
  proof (cases "bs = []")
    case True
    with eq show ?thesis by auto
  next
    case bs: False
    show ?thesis
    proof (cases "k_write k (tr @ [ReadFlag False]) d bs")
      case (Inl e)
      then show ?thesis
        using eq bs
        by (auto simp: sys_defs Let_def intro: write_result_stop write_result_again
            dest!: IH split: if_splits)
    next
      case (Inr m)
      then show ?thesis
        using eq bs
        by (auto simp: sys_defs Let_def intro: write_result_stop
              write_result_step [where m = "min (length bs) m"]
            dest!: IH split: if_splits)
    qed
  qed
qed

lemma backend_write_all_returns:
  assumes "finite_interrupts b k"
  shows "backend_write_all k d bs tr \<noteq> None"
proof (induction "length bs + (b - interrupts tr)" arbitrary: bs tr rule: less_induct)
  case less
  have lt: "k_write k tr d bs = Inl EINTR \<Longrightarrow> interrupts tr < b" for tr d bs
    using assms unfolding finite_interrupts_def by blast
  show ?case
  proof (cases "k_write k (tr @ [ReadFlag False]) d bs")
    case (Inl e)
    then show ?thesis
      using lt [of "tr @ [ReadFlag False]" d bs]
        less [of bs "tr @ [ReadFlag False, Write d bs (Inl EINTR), ReadFlag False]"]
      by (subst backend_write_all.simps) (auto simp: sys_defs Let_def)
  next
    case (Inr m)
    then show ?thesis
      using less [of "drop (min (length bs) m) bs" "tr @ [ReadFlag False, Write d bs (Inr (min (length bs) m))]"]
      by (subst backend_write_all.simps) (auto simp: sys_defs Let_def)
  qed
qed

lemma frontend_write_all_result:
  assumes "frontend_write_all k d bs tr = Some res"
  shows "write_result d bs tr res"
proof (rule frontend_write_all.raw_induct [where P = "\<lambda>k d bs tr. write_result d bs tr",
      OF _ assms], goal_cases)
  case (1 f k d bs tr res)
  note IH = 1(1) and eq = 1(2)
  show ?case
  proof (cases "bs = []")
    case True
    with eq show ?thesis by auto
  next
    case bs: False
    show ?thesis
    proof (cases "k_write k (tr) d bs")
      case (Inl e)
      then show ?thesis
        using eq bs
        by (auto simp: sys_defs Let_def intro: write_result_stop write_result_again
            dest!: IH split: if_splits)
    next
      case (Inr m)
      then show ?thesis
        using eq bs
        by (auto simp: sys_defs Let_def intro: write_result_stop
              write_result_step [where m = "min (length bs) m"]
            dest!: IH split: if_splits)
    qed
  qed
qed

lemma frontend_write_all_returns:
  assumes "finite_interrupts b k"
  shows "frontend_write_all k d bs tr \<noteq> None"
proof (induction "length bs + (b - interrupts tr)" arbitrary: bs tr rule: less_induct)
  case less
  have lt: "k_write k tr d bs = Inl EINTR \<Longrightarrow> interrupts tr < b" for tr d bs
    using assms unfolding finite_interrupts_def by blast
  show ?case
  proof (cases "k_write k (tr) d bs")
    case (Inl e)
    then show ?thesis
      using lt [of "tr" d bs]
        less [of bs "tr @ [Write d bs (Inl EINTR), ReadFlag False]"]
      by (subst frontend_write_all.simps) (auto simp: sys_defs Let_def)
  next
    case (Inr m)
    then show ?thesis
      using less [of "drop (min (length bs) m) bs" "tr @ [Write d bs (Inr (min (length bs) m))]"]
      by (subst frontend_write_all.simps) (auto simp: sys_defs Let_def)
  qed
qed

subsection \<open>The contracts\<close>

locale full_read =
  fixes read_all :: "auth_kernel \<Rightarrow> fd \<Rightarrow> buffer \<Rightarrow> nat \<Rightarrow> nat \<Rightarrow> auth_trace \<Rightarrow>
    (int \<times> buffer \<times> auth_trace) option"
  assumes read_all_data:
      "read_all k d buf cursor n tr = Some (rc, buf', tr') \<Longrightarrow> cursor + n \<le> length buf \<Longrightarrow>
       \<exists>data. buf' = store buf cursor data \<and> length data \<le> n \<and>
         bytes_read d tr' = bytes_read d tr @ data \<and>
         rc = (if length data = n then 0 else -1) \<and> extends (read_event d) tr tr'"
    and read_all_returns:
      "finite_interrupts b k \<Longrightarrow> read_all k d buf cursor n tr \<noteq> None"

begin

lemma read_whole_buffer:
  assumes "read_all k d buf 0 (length buf) tr = Some (rc, buf', tr')"
  shows "length buf' = length buf \<and>
    (rc = 0 \<longrightarrow> bytes_read d tr' = bytes_read d tr @ buf') \<and>
    (rc \<noteq> 0 \<longrightarrow> rc = -1 \<and>
       (\<exists>data. length data < length buf \<and> bytes_read d tr' = bytes_read d tr @ data)) \<and>
    extends (read_event d) tr tr'"
  using read_all_data [OF assms] by (fastforce split: if_splits)

lemma read_all_total:
  assumes "finite_interrupts b k"
  obtains rc buf' tr' where "read_all k d buf cursor n tr = Some (rc, buf', tr')"
  using read_all_returns [OF assms] by (metis not_None_eq prod_cases3)

end

locale full_write =
  fixes write_all :: "auth_kernel \<Rightarrow> fd \<Rightarrow> buffer \<Rightarrow> auth_trace \<Rightarrow> (int \<times> auth_trace) option"
  assumes write_all_data:
      "write_all k d bs tr = Some (rc, tr') \<Longrightarrow>
       \<exists>n \<le> length bs. bytes_written d tr' = bytes_written d tr @ take n bs \<and>
         rc = (if n = length bs then 0 else -1) \<and> extends (write_event d) tr tr'"
    and write_all_returns:
      "finite_interrupts b k \<Longrightarrow> write_all k d bs tr \<noteq> None"
begin

lemma write_whole:
  assumes "write_all k d bs tr = Some (rc, tr')"
  shows "(rc = 0 \<longrightarrow> bytes_written d tr' = bytes_written d tr @ bs) \<and> (rc = 0 \<or> rc = -1) \<and>
    extends (write_event d) tr tr'"
  using write_all_data [OF assms] by (fastforce split: if_splits)

lemma write_all_total:
  assumes "finite_interrupts b k"
  obtains rc tr' where "write_all k d bs tr = Some (rc, tr')"
  using write_all_returns [OF assms] by (metis not_None_eq surj_pair)

end

interpretation breader: full_read backend_read_all
  using backend_read_all_result backend_read_all_returns
  by unfold_locales (fastforce simp: read_result_def)+

interpretation freader: full_read frontend_read_all
  using frontend_read_all_result frontend_read_all_returns
  by unfold_locales (fastforce simp: read_result_def)+

interpretation bwriter: full_write backend_write_all
  using backend_write_all_result backend_write_all_returns
  by unfold_locales (fastforce simp: write_result_def)+

interpretation fwriter: full_write frontend_write_all
  using frontend_write_all_result frontend_write_all_returns
  by unfold_locales (fastforce simp: write_result_def)+

subsection \<open>Parts of a trace that transfer nothing\<close>

definition transfer_event :: "auth_event \<Rightarrow> bool" where
  "transfer_event e = (case e of Read _ _ _ \<Rightarrow> True | Write _ _ _ \<Rightarrow> True | _ \<Rightarrow> False)"

lemma no_transfer_bytes:
  assumes "extends (\<lambda>e. \<not> transfer_event e) tr tr'"
  shows "bytes_read d tr' = bytes_read d tr" and "bytes_written d tr' = bytes_written d tr"
proof -
  obtain ev where ev: "tr' = tr @ ev" "list_all (\<lambda>e. \<not> transfer_event e) ev"
    using assms by (rule extendsE)
  from ev(2) have "bytes_read d ev = [] \<and> bytes_written d ev = []"
    by (induction ev)
       (auto simp: bytes_read_def bytes_written_def transfer_event_def split: auth_event.splits)
  with ev(1) show "bytes_read d tr' = bytes_read d tr" "bytes_written d tr' = bytes_written d tr"
    by simp_all
qed

lemma read_loop_writes_nothing:
  assumes "extends (read_event d') tr tr'"
  shows "bytes_written d tr' = bytes_written d tr"
proof -
  have "bytes_written d ev = []" if "list_all (read_event d') ev" for ev
    using that by (induction ev) (auto simp: bytes_written_def elim: read_event.elims)
  with assms show ?thesis
    by (auto elim!: extendsE)
qed

lemma write_loop_reads_nothing:
  assumes "extends (write_event d') tr tr'"
  shows "bytes_read d tr' = bytes_read d tr"
proof -
  have "bytes_read d ev = []" if "list_all (write_event d') ev" for ev
    using that by (induction ev) (auto simp: bytes_read_def elim: write_event.elims)
  with assms show ?thesis
    by (auto elim!: extendsE)
qed

subsection \<open>Transfers that take one call\<close>

lemma backend_write_whole:
  assumes "\<not> k_flag k tr" and "bs \<noteq> []" and "k_write k (tr @ [ReadFlag False]) d bs = Inr (length bs)"
  shows "backend_write_all k d bs tr = Some (0, tr @ [ReadFlag False, Write d bs (Inr (length bs))])"
proof -
  have "backend_write_all k d [] t = Some (0, t)" for t
    by (subst backend_write_all.simps) simp
  with assms show ?thesis
    by (subst backend_write_all.simps) (simp add: sys_defs Let_def)
qed

lemma backend_read_whole:
  assumes "\<not> k_flag k tr" and "bs \<noteq> []" and "k_read k (tr @ [ReadFlag False]) d (length bs) = Inr bs"
    and "length buf = length bs"
  shows "backend_read_all k d buf 0 (length bs) tr =
    Some (0, bs, tr @ [ReadFlag False, Read d (length bs) (Inr bs)])"
proof -
  have "backend_read_all k d b n 0 t = Some (0, b, t)" for b n t
    by (subst backend_read_all.simps) simp
  with assms show ?thesis
    by (subst backend_read_all.simps) (simp add: sys_defs Let_def)
qed

lemma frontend_write_whole:
  assumes "bs \<noteq> []" and "k_write k tr d bs = Inr (length bs)"
  shows "frontend_write_all k d bs tr = Some (0, tr @ [Write d bs (Inr (length bs))])"
proof -
  have "frontend_write_all k d [] t = Some (0, t)" for t
    by (subst frontend_write_all.simps) simp
  with assms show ?thesis
    by (subst frontend_write_all.simps) (simp add: sys_defs Let_def)
qed

lemma frontend_read_whole:
  assumes "bs \<noteq> []" and "k_read k tr d (length bs) = Inr bs" and "length buf = length bs"
  shows "frontend_read_all k d buf 0 (length bs) tr = Some (0, bs, tr @ [Read d (length bs) (Inr bs)])"
proof -
  have "frontend_read_all k d b n 0 t = Some (0, b, t)" for b n t
    by (subst frontend_read_all.simps) simp
  with assms show ?thesis
    by (subst frontend_read_all.simps) (simp add: sys_defs Let_def)
qed

text \<open>All bytes that a run moves go over one descriptor.\<close>

definition talks_on :: "fd \<Rightarrow> auth_trace \<Rightarrow> bool" where
  "talks_on d tr \<longleftrightarrow> (\<forall>d'. d' \<noteq> d \<longrightarrow> bytes_read d' tr = [] \<and> bytes_written d' tr = [])"

end
