(* ===== verification/Auth_Protocol.thy ===== *)
theory Auth_Protocol
  imports C_Strings
begin

text \<open>
  \<^verbatim>\<open>Authentication/auth_protocol.h\<close>: the messages between frontend and backend. Both programs
  write and read the structs as they lie in memory; the layout below is that of the ABI of the
  target (little endian, four-byte alignment): 204 bytes for a request, 144 for a response, with
  the padding at the end.
\<close>

definition AUTH_SOCKET_PATH :: string where
  "AUTH_SOCKET_PATH = ''/tmp/st5039cmd_auth.sock''"

definition AUTH_PROTOCOL_VERSION :: u32 where
  [simp]: "AUTH_PROTOCOL_VERSION = 1"

definition AUTH_USERNAME_MAX :: nat where
  [simp]: "AUTH_USERNAME_MAX = 64"

definition AUTH_PASSWORD_MAX :: nat where
  [simp]: "AUTH_PASSWORD_MAX = 128"

definition AUTH_RESPONSE_MESSAGE_MAX :: nat where
  [simp]: "AUTH_RESPONSE_MESSAGE_MAX = 128"

definition AUTH_REQUEST_VALIDATE :: u32 where
  [simp]: "AUTH_REQUEST_VALIDATE = 1"

datatype AuthResult =
    AUTH_RESULT_SUCCESS | AUTH_RESULT_INVALID_CREDENTIALS | AUTH_RESULT_REJECTED | AUTH_RESULT_ERROR

datatype AuthErrorCode =
    AUTH_ERROR_NONE | AUTH_ERROR_BAD_REQUEST | AUTH_ERROR_UNSUPPORTED_VERSION
  | AUTH_ERROR_USERNAME_REQUIRED | AUTH_ERROR_USERNAME_TOO_LONG
  | AUTH_ERROR_PASSWORD_REQUIRED | AUTH_ERROR_PASSWORD_TOO_LONG
  | AUTH_ERROR_IPC_FAILURE | AUTH_ERROR_PRIVILEGE_DROP_FAILED | AUTH_ERROR_INTERNAL

fun result_code :: "AuthResult \<Rightarrow> u32" where
  "result_code AUTH_RESULT_SUCCESS = 0"
| "result_code AUTH_RESULT_INVALID_CREDENTIALS = 1"
| "result_code AUTH_RESULT_REJECTED = 2"
| "result_code AUTH_RESULT_ERROR = 3"

fun error_code :: "AuthErrorCode \<Rightarrow> u32" where
  "error_code AUTH_ERROR_NONE = 0"
| "error_code AUTH_ERROR_BAD_REQUEST = 1"
| "error_code AUTH_ERROR_UNSUPPORTED_VERSION = 2"
| "error_code AUTH_ERROR_USERNAME_REQUIRED = 3"
| "error_code AUTH_ERROR_USERNAME_TOO_LONG = 4"
| "error_code AUTH_ERROR_PASSWORD_REQUIRED = 5"
| "error_code AUTH_ERROR_PASSWORD_TOO_LONG = 6"
| "error_code AUTH_ERROR_IPC_FAILURE = 7"
| "error_code AUTH_ERROR_PRIVILEGE_DROP_FAILED = 8"
| "error_code AUTH_ERROR_INTERNAL = 9"

record AuthRequest =
  rq_version :: u32
  rq_type :: u32
  rq_username :: buffer
  rq_password :: buffer

record AuthResponse =
  rs_version :: u32
  rs_result :: u32
  rs_error_code :: u32
  rs_message :: buffer

text \<open>Struct values whose arrays have their declared sizes.\<close>

definition wf_request :: "AuthRequest \<Rightarrow> bool" where
  "wf_request r \<longleftrightarrow>
     length (rq_username r) = AUTH_USERNAME_MAX + 1 \<and> length (rq_password r) = AUTH_PASSWORD_MAX + 1"

definition wf_response :: "AuthResponse \<Rightarrow> bool" where
  "wf_response r \<longleftrightarrow> length (rs_message r) = AUTH_RESPONSE_MESSAGE_MAX + 1"

definition zero_request :: AuthRequest where
  "zero_request = \<lparr>rq_version = 0, rq_type = 0, rq_username = zeros (AUTH_USERNAME_MAX + 1),
     rq_password = zeros (AUTH_PASSWORD_MAX + 1)\<rparr>"

definition zero_response :: AuthResponse where
  "zero_response = \<lparr>rs_version = 0, rs_result = 0, rs_error_code = 0,
     rs_message = zeros (AUTH_RESPONSE_MESSAGE_MAX + 1)\<rparr>"

subsection \<open>The structs in memory\<close>

definition le32 :: "u32 \<Rightarrow> buffer" where
  "le32 w = [char_of (unat w), char_of (unat w div 256), char_of (unat w div 65536),
             char_of (unat w div 16777216)]"

fun of_le32 :: "buffer \<Rightarrow> u32" where
  "of_le32 (a # b # c # d # _) =
     of_nat (of_char a + 256 * (of_char b + 256 * (of_char c + 256 * of_char d)))"
| "of_le32 _ = 0"

definition sizeof_request :: nat where
  "sizeof_request = 204"

definition sizeof_response :: nat where
  "sizeof_response = 144"

definition request_bytes :: "AuthRequest \<Rightarrow> buffer" where
  "request_bytes r =
     le32 (rq_version r) @ le32 (rq_type r) @ rq_username r @ rq_password r @ zeros 2"

definition request_of_bytes :: "buffer \<Rightarrow> AuthRequest" where
  "request_of_bytes bs =
     \<lparr>rq_version = of_le32 (take 4 bs), rq_type = of_le32 (take 4 (drop 4 bs)),
      rq_username = take (AUTH_USERNAME_MAX + 1) (drop 8 bs),
      rq_password = take (AUTH_PASSWORD_MAX + 1) (drop (8 + AUTH_USERNAME_MAX + 1) bs)\<rparr>"

definition response_bytes :: "AuthResponse \<Rightarrow> buffer" where
  "response_bytes r =
     le32 (rs_version r) @ le32 (rs_result r) @ le32 (rs_error_code r) @ rs_message r @ zeros 3"

definition response_of_bytes :: "buffer \<Rightarrow> AuthResponse" where
  "response_of_bytes bs =
     \<lparr>rs_version = of_le32 (take 4 bs), rs_result = of_le32 (take 4 (drop 4 bs)),
      rs_error_code = of_le32 (take 4 (drop 8 bs)),
      rs_message = take (AUTH_RESPONSE_MESSAGE_MAX + 1) (drop 12 bs)\<rparr>"

lemma length_le32 [simp]: "length (le32 w) = 4"
  by (simp add: le32_def)

lemma of_le32_le32 [simp]: "of_le32 (le32 w) = w"
proof -
  define n where "n = unat w"
  have "n < 4294967296"
    using unsigned_less [of w] by (simp add: n_def)
  then have top: "n div 16777216 mod 256 = n div 16777216"
    by simp
  have split: "n div 65536 = n div 256 div 256" "n div 16777216 = n div 256 div 256 div 256"
    by (simp_all add: div_mult2_eq [symmetric])
  have "n mod 256 + 256 * (n div 256 mod 256 + 256 * (n div 65536 mod 256
      + 256 * (n div 16777216 mod 256))) = n"
    unfolding top unfolding split by (simp only: mod_mult_div_eq)
  moreover have "of_nat n = w"
    by (simp add: n_def)
  ultimately have "(of_nat (n mod 256 + 256 * (n div 256 mod 256 + 256 * (n div 65536 mod 256
      + 256 * (n div 16777216 mod 256)))) :: u32) = w"
    by (simp only:)
  then show ?thesis
    by (simp add: le32_def n_def)
qed

lemma length_request_bytes [simp]: "wf_request r \<Longrightarrow> length (request_bytes r) = sizeof_request"
  by (simp add: request_bytes_def wf_request_def sizeof_request_def)

lemma length_response_bytes [simp]:
  "wf_response r \<Longrightarrow> length (response_bytes r) = sizeof_response"
  by (simp add: response_bytes_def wf_response_def sizeof_response_def)

lemma request_of_request_bytes [simp]:
  "wf_request r \<Longrightarrow> request_of_bytes (request_bytes r) = r"
  by (simp add: request_bytes_def request_of_bytes_def wf_request_def)

lemma response_of_response_bytes [simp]:
  "wf_response r \<Longrightarrow> response_of_bytes (response_bytes r) = r"
  by (simp add: response_bytes_def response_of_bytes_def wf_response_def)

lemma wf_request_of_bytes [simp]:
  "length bs = sizeof_request \<Longrightarrow> wf_request (request_of_bytes bs)"
  by (simp add: request_of_bytes_def wf_request_def sizeof_request_def)

lemma wf_response_of_bytes [simp]:
  "length bs = sizeof_response \<Longrightarrow> wf_response (response_of_bytes bs)"
  by (simp add: response_of_bytes_def wf_response_def sizeof_response_def)

lemma wf_zero_request [simp]: "wf_request zero_request"
  by (simp add: wf_request_def zero_request_def)

lemma request_of_zeros: "request_of_bytes (zeros sizeof_request) = zero_request"
  by code_simp

text \<open>A request for given strings, as the frontend builds it.\<close>

definition request_for :: "string \<Rightarrow> string \<Rightarrow> AuthRequest" where
  "request_for u p = zero_request
     \<lparr>rq_version := AUTH_PROTOCOL_VERSION, rq_type := AUTH_REQUEST_VALIDATE,
      rq_username := store (rq_username zero_request) 0 (u @ [NUL]),
      rq_password := store (rq_password zero_request) 0 (p @ [NUL])\<rparr>"

lemma request_for_simps [simp]:
  "rq_version (request_for u p) = 1" "rq_type (request_for u p) = 1"
  "NUL \<notin> set u \<Longrightarrow> cstr (rq_username (request_for u p)) = u"
  "NUL \<notin> set p \<Longrightarrow> cstr (rq_password (request_for u p)) = p"
  "NUL \<in> set (rq_username (request_for u p))" "NUL \<in> set (rq_password (request_for u p))"
  by (simp_all add: request_for_def)

lemma wf_request_for [simp]:
  "length u \<le> AUTH_USERNAME_MAX \<Longrightarrow> length p \<le> AUTH_PASSWORD_MAX \<Longrightarrow> wf_request (request_for u p)"
  by (simp add: request_for_def wf_request_def zero_request_def)

lemma request_bytes_not_Nil: "wf_request r \<Longrightarrow> request_bytes r \<noteq> []"
  by (simp add: request_bytes_def le32_def)

abbreviation demo_request :: AuthRequest where
  "demo_request \<equiv> request_for ''demo_user'' ''demo_password''"

lemma wf_demo_request: "wf_request demo_request"
  by simp

subsection \<open>Properties\<close>

text \<open>
  The messages survive the wire: a request and a response whose arrays have their declared sizes
  are written as 204 and 144 bytes, and reading these bytes back gives the same structs.
\<close>

lemma messages_roundtrip:
  assumes "wf_request rq" and "wf_response rs"
  shows "length (request_bytes rq) = 204 \<and> request_of_bytes (request_bytes rq) = rq \<and>
    length (response_bytes rs) = 144 \<and> response_of_bytes (response_bytes rs) = rs"
  using assms length_request_bytes [of rq] length_response_bytes [of rs]
  by (simp add: sizeof_request_def sizeof_response_def)

theorem messages_roundtrip_witness:
  "request_of_bytes (request_bytes (request_for ''demo_user'' ''demo_password'')) =
     request_for ''demo_user'' ''demo_password'' \<and>
   response_of_bytes (response_bytes zero_response) = zero_response"
proof -
  have "wf_request (request_for ''demo_user'' ''demo_password'')" "wf_response zero_response"
    by (simp, simp add: wf_response_def zero_response_def)
  from messages_roundtrip [OF this] show ?thesis
    by simp
qed

end
