(* ===== verification/Secure_Memory.thy ===== *)
theory Secure_Memory
  imports C_Prelude
begin

text \<open>
  \<^verbatim>\<open>Authentication/secure_memory.c\<close>: clearing of buffers that held secrets. The two builds of
  the function (\<^verbatim>\<open>explicit_bzero\<close> and the byte loop) satisfy one contract, the locale
  \<open>zeroing\<close>, and agree with each other.
\<close>

text \<open>The C library's \<^verbatim>\<open>explicit_bzero\<close>.\<close>

definition explicit_bzero :: "buffer \<Rightarrow> nat \<Rightarrow> buffer" where
  "explicit_bzero buf n = store buf 0 (zeros n)"

text \<open>The loop of the build without \<^verbatim>\<open>explicit_bzero\<close>: the cursor and the length left.\<close>

fun clear_bytes :: "buffer \<Rightarrow> nat \<Rightarrow> nat \<Rightarrow> buffer" where
  "clear_bytes buf cursor 0 = buf"
| "clear_bytes buf cursor (Suc n) = clear_bytes (buf[cursor := NUL]) (Suc cursor) n"

text \<open>
  The whole function, on a pointer that may be null (\<open>None\<close>), with the build's way of clearing as
  its first argument.
\<close>

definition secure_clear_ptr ::
    "(buffer \<Rightarrow> nat \<Rightarrow> buffer) \<Rightarrow> buffer option \<Rightarrow> nat \<Rightarrow> buffer option" where
  "secure_clear_ptr clear p n =
     (case p of None \<Rightarrow> None | Some buf \<Rightarrow> if n = 0 then Some buf else Some (clear buf n))"

text \<open>The call on an array, in the build for glibc; no caller passes a null pointer.\<close>

definition secure_clear :: "buffer \<Rightarrow> nat \<Rightarrow> buffer" where
  "secure_clear buf n = (if n = 0 then buf else explicit_bzero buf n)"

text \<open>What the callers rely on.\<close>

locale zeroing =
  fixes clear :: "buffer \<Rightarrow> nat \<Rightarrow> buffer"
  assumes clear_prefix: "n \<le> length buf \<Longrightarrow> clear buf n = zeros n @ drop n buf"
begin

lemma clear_whole: "length buf = n \<Longrightarrow> clear buf n = zeros n"
  using clear_prefix [of n buf] by simp

lemma clear_length: "n \<le> length buf \<Longrightarrow> length (clear buf n) = length buf"
  by (simp add: clear_prefix)

lemma clear_twice: "n \<le> length buf \<Longrightarrow> clear (clear buf n) n = clear buf n"
  by (simp add: clear_prefix)

lemma clear_forgets:
  "length a = n \<Longrightarrow> length b = n \<Longrightarrow> clear a n = clear b n"
  by (simp add: clear_whole)

end

lemma clear_bytes_eq:
  "cursor + n \<le> length buf \<Longrightarrow>
   clear_bytes buf cursor n = take cursor buf @ zeros n @ drop (cursor + n) buf"
proof (induction n arbitrary: buf cursor)
  case 0
  then show ?case by (simp add: zeros_def)
next
  case (Suc n)
  have "take (Suc cursor) (buf[cursor := NUL]) = take cursor buf @ [NUL]"
    using Suc.prems by (simp add: take_Suc_conv_app_nth)
  with Suc show ?case by (simp add: zeros_def)
qed

interpretation bzero: zeroing secure_clear
  by unfold_locales (auto simp: secure_clear_def explicit_bzero_def zeros_def)

interpretation loop: zeroing "\<lambda>buf n. clear_bytes buf 0 n"
  by unfold_locales (simp add: clear_bytes_eq)

lemmas secure_clear_simps [simp] =
  bzero.clear_whole bzero.clear_length

lemma secure_clear_builds_agree_lemma:
  assumes "\<And>buf. p = Some buf \<Longrightarrow> n \<le> length buf"
  shows "secure_clear_ptr (\<lambda>buf n. clear_bytes buf 0 n) p n = secure_clear_ptr explicit_bzero p n"
  using assms by (auto simp: secure_clear_ptr_def explicit_bzero_def loop.clear_prefix split: option.splits)

subsection \<open>Properties\<close>

text \<open>
  The two builds of \<^verbatim>\<open>secure_clear\<close> agree: with \<^verbatim>\<open>explicit_bzero\<close> or with the
  byte loop, on a null pointer, with length 0 and on every buffer that is at least as long as the
  length given.
\<close>

lemma secure_clear_builds_agree:
  assumes "\<And>buf. p = Some buf \<Longrightarrow> n \<le> length buf"
  shows "secure_clear_ptr (\<lambda>buf n. clear_bytes buf 0 n) p n = secure_clear_ptr explicit_bzero p n"
  by (rule secure_clear_builds_agree_lemma [OF assms])

theorem secure_clear_builds_agree_witness:
  "secure_clear_ptr (\<lambda>buf n. clear_bytes buf 0 n) (Some ''secret'') 4 =
   secure_clear_ptr explicit_bzero (Some ''secret'') 4"
  by (rule secure_clear_builds_agree) simp

end
