(* ===== verification/Backend_Socket.thy ===== *)
theory Backend_Socket
  imports Auth_OS Auth_Protocol
begin

text \<open>
  The sockets of \<^verbatim>\<open>Backend.c\<close>: signal handlers, the listening socket and its path, the one
  accepted client and the check of its kernel-supplied credentials.
\<close>

definition BACKEND_LISTEN_BACKLOG :: nat where
  "BACKEND_LISTEN_BACKLOG = 4"

text \<open>The size of \<^verbatim>\<open>sun_path\<close>, and of \<^verbatim>\<open>struct ucred\<close>.\<close>

definition sizeof_sun_path :: nat where
  "sizeof_sun_path = 108"

definition sizeof_ucred :: nat where
  "sizeof_ucred = 12"

subsection \<open>Signals\<close>

text \<open>\<^verbatim>\<open>request_stop\<close>, the handler: the new value of \<^verbatim>\<open>stop_requested\<close>.\<close>

definition request_stop :: "bool \<Rightarrow> bool" where
  "request_stop stop_requested = True"

definition install_signal_handlers :: "auth_kernel \<Rightarrow> auth_trace \<Rightarrow> int \<times> auth_trace" where
  "install_signal_handlers k tr =
     (let (r, tr) = sys_sigaction k SIGINT Set_Flag tr;
          (r, tr) = (if r \<noteq> None then (r, tr) else sys_sigaction k SIGTERM Set_Flag tr)
      in case r of
        Some e \<Rightarrow>
          (-1, out (''[backend] unable to install termination handlers: '' @ k_strerror k e) tr)
      | None \<Rightarrow>
          case sys_sigaction k SIGPIPE Ignore tr of
            (Some e, tr) \<Rightarrow> (-1, out (''[backend] unable to ignore SIGPIPE: '' @ k_strerror k e) tr)
          | (None, tr) \<Rightarrow> (0, tr))"

subsection \<open>The socket path\<close>

definition close_logged :: "auth_kernel \<Rightarrow> fd \<Rightarrow> string \<Rightarrow> auth_trace \<Rightarrow> auth_trace" where
  "close_logged k fd label tr =
     (if fd < 0 then tr
      else case sys_close k fd tr of
        (None, tr) \<Rightarrow> tr
      | (Some e, tr) \<Rightarrow>
          out (''[backend] error closing '' @ label @ '': '' @ k_strerror k e) tr)"

definition unlink_socket_path :: "auth_kernel \<Rightarrow> auth_trace \<Rightarrow> auth_trace" where
  "unlink_socket_path k tr =
     (case sys_unlink k AUTH_SOCKET_PATH tr of
        (None, tr) \<Rightarrow> tr
      | (Some e, tr) \<Rightarrow>
          if e \<noteq> ENOENT
          then out (''[backend] unable to remove '' @ AUTH_SOCKET_PATH @ '': '' @ k_strerror k e) tr
          else tr)"

definition remove_stale_socket_path :: "auth_kernel \<Rightarrow> auth_trace \<Rightarrow> int \<times> auth_trace" where
  "remove_stale_socket_path k tr =
     (case sys_lstat k AUTH_SOCKET_PATH tr of
        (Inl e, tr) \<Rightarrow>
          if e = ENOENT then (0, tr)
          else (-1, out (''[backend] unable to inspect '' @ AUTH_SOCKET_PATH @ '': '' @
                         k_strerror k e) tr)
      | (Inr socket_status, tr) \<Rightarrow>
          if \<not> st_is_socket socket_status
          then (-1, out (''[backend] refusing to remove non-socket path '' @ AUTH_SOCKET_PATH) tr)
          else
            let (effective_uid, tr) = sys_geteuid k tr in
            if st_uid socket_status \<noteq> effective_uid
            then (-1, out (''[backend] refusing to remove socket owned by UID '' @
                           show_uid (st_uid socket_status)) tr)
            else case sys_unlink k AUTH_SOCKET_PATH tr of
              (Some e, tr) \<Rightarrow>
                (-1, out (''[backend] unable to remove stale socket '' @ AUTH_SOCKET_PATH @ '': '' @
                          k_strerror k e) tr)
            | (None, tr) \<Rightarrow> (0, out (''[backend] removed stale socket '' @ AUTH_SOCKET_PATH) tr))"

definition create_server_socket :: "auth_kernel \<Rightarrow> auth_trace \<Rightarrow> int \<times> auth_trace" where
  "create_server_socket k tr =
     (case sys_socket k tr of
        (Inl e, tr) \<Rightarrow> (-1, out (''[backend] socket() failed: '' @ k_strerror k e) tr)
      | (Inr server_fd, tr) \<Rightarrow>
          let sun_path = zeros sizeof_sun_path; path_length = length AUTH_SOCKET_PATH in
          if sizeof_sun_path \<le> path_length
          then (-1, close_logged k server_fd ''server socket''
                      (out (''[backend] socket path too long: '' @ AUTH_SOCKET_PATH) tr))
          else
            let sun_path = store sun_path 0 (AUTH_SOCKET_PATH @ [NUL]);
                (removed, tr) = remove_stale_socket_path k tr
            in
            if removed \<noteq> 0 then (-1, close_logged k server_fd ''server socket'' tr)
            else case sys_bind k server_fd (cstr sun_path) tr of
              (Some e, tr) \<Rightarrow>
                (-1, close_logged k server_fd ''server socket''
                       (out (''[backend] bind('' @ AUTH_SOCKET_PATH @ '') failed: '' @
                             k_strerror k e) tr))
            | (None, tr) \<Rightarrow>
            case sys_chmod k AUTH_SOCKET_PATH 384 tr of
              (Some e, tr) \<Rightarrow>
                let tr = out (''[backend] chmod('' @ AUTH_SOCKET_PATH @ '') failed: '' @
                              k_strerror k e) tr;
                    tr = close_logged k server_fd ''server socket'' tr
                in (-1, unlink_socket_path k tr)
            | (None, tr) \<Rightarrow>
            case sys_listen k server_fd BACKEND_LISTEN_BACKLOG tr of
              (Some e, tr) \<Rightarrow>
                let tr = out (''[backend] listen() failed: '' @ k_strerror k e) tr;
                    tr = close_logged k server_fd ''server socket'' tr
                in (-1, unlink_socket_path k tr)
            | (None, tr) \<Rightarrow> (server_fd, out (''[backend] listening on '' @ AUTH_SOCKET_PATH) tr))"

subsection \<open>The client\<close>

partial_function (option) accept_one_client ::
    "auth_kernel \<Rightarrow> fd \<Rightarrow> auth_trace \<Rightarrow> (int \<times> auth_trace) option" where
  "accept_one_client k server_fd tr =
     (let (stop, tr) = sys_flag k tr in
      if stop then Some (-1, out ''[backend] shutdown requested before accept'' tr)
      else
        let (client_fd, tr) = sys_accept k server_fd tr in
        case client_fd of
          Inr client_fd \<Rightarrow>
            Some (client_fd, out ''[backend] accepted one client connection'' tr)
        | Inl e \<Rightarrow>
            if e = EINTR
            then
              let (stop, tr) = sys_flag k tr in
              if stop then Some (-1, out ''[backend] accept interrupted by shutdown request'' tr)
              else accept_one_client k server_fd tr
            else Some (-1, out (''[backend] accept() failed: '' @ k_strerror k e) tr))"

declare accept_one_client.simps [code]

definition verify_peer_credentials ::
    "auth_kernel \<Rightarrow> fd \<Rightarrow> uid \<Rightarrow> gid \<Rightarrow> auth_trace \<Rightarrow> int \<times> auth_trace" where
  "verify_peer_credentials k client_fd expected_uid expected_gid tr =
     (case sys_peercred k client_fd tr of
        (Inl e, tr) \<Rightarrow>
          (-1, out (''[backend] getsockopt(SO_PEERCRED) failed: '' @ k_strerror k e) tr)
      | (Inr (peer, peer_length), tr) \<Rightarrow>
          let tr = out (''[backend] peer PID='' @ show_int (cr_pid peer) @ '' UID='' @
                        show_uid (cr_uid peer) @ '' GID='' @ show_uid (cr_gid peer)) tr
          in
          if peer_length \<noteq> sizeof_ucred \<or> cr_pid peer \<le> 0 \<or> cr_uid peer = -1 \<or> cr_gid peer = -1
          then (-1, out ''[backend] rejected invalid peer credentials'' tr)
          else if cr_uid peer \<noteq> expected_uid \<or> cr_gid peer \<noteq> expected_gid
          then (-1, out (''[backend] rejected unexpected peer; expected UID='' @
                         show_uid expected_uid @ '' GID='' @ show_uid expected_gid) tr)
          else (0, out ''[backend] peer credentials verified'' tr))"

subsection \<open>Descriptors and the path\<close>

text \<open>
  The descriptors that are open after a trace (\<^verbatim>\<open>close\<close> gives a descriptor up whatever it
  reports), and whether a path that the program bound was left without an attempt to remove it.
\<close>

fun fd_step :: "auth_event \<Rightarrow> fd list \<Rightarrow> fd list" where
  "fd_step (Socket (Inr d)) ds = d # ds"
| "fd_step (Accept _ (Inr d)) ds = d # ds"
| "fd_step (Close d _) ds = remove1 d ds"
| "fd_step _ ds = ds"

definition open_fds :: "auth_trace \<Rightarrow> fd list" where
  "open_fds tr = fold fd_step tr []"

fun path_step :: "auth_event \<Rightarrow> bool \<Rightarrow> bool" where
  "path_step (Bind _ p None) b = True"
| "path_step (Unlink p _) b = False"
| "path_step _ b = b"

definition path_left :: "auth_trace \<Rightarrow> bool" where
  "path_left tr = fold path_step tr False"

text \<open>Events that leave both as they are.\<close>

fun socket_neutral :: "auth_event \<Rightarrow> bool" where
  "socket_neutral (Socket (Inr _)) = False"
| "socket_neutral (Accept _ (Inr _)) = False"
| "socket_neutral (Close _ _) = False"
| "socket_neutral (Bind _ _ None) = False"
| "socket_neutral (Unlink _ _) = False"
| "socket_neutral _ = True"

lemma socket_neutral_steps:
  assumes "socket_neutral e"
  shows "fd_step e ds = ds" and "path_step e b = b"
  using assms by (cases e rule: socket_neutral.cases; simp)+

lemma open_fds_append: "open_fds (tr @ ev) = fold fd_step ev (open_fds tr)"
  by (simp add: open_fds_def)

lemma path_left_append: "path_left (tr @ ev) = fold path_step ev (path_left tr)"
  by (simp add: path_left_def)

lemma fold_neutral:
  assumes "list_all socket_neutral ev"
  shows "fold fd_step ev ds = ds" and "fold path_step ev b = b"
  using assms by (induction ev arbitrary: ds b) (simp_all add: socket_neutral_steps)

lemma extends_neutral:
  assumes "extends socket_neutral tr tr'"
  shows "open_fds tr' = open_fds tr" and "path_left tr' = path_left tr"
  using assms by (auto elim!: extendsE simp: open_fds_append path_left_append fold_neutral)

fun setup_call :: "auth_event \<Rightarrow> bool" where
  "setup_call (Socket _) = True"
| "setup_call (Lstat _ _) = True"
| "setup_call (Unlink _ _) = True"
| "setup_call (Bind _ _ _) = True"
| "setup_call (Chmod _ _ _) = True"
| "setup_call (Listen _ _ _) = True"
| "setup_call _ = False"

fun socket_event :: "auth_event \<Rightarrow> bool" where
  "socket_event (Out _) = True"
| "socket_event (GetEuid _) = True"
| "socket_event (Close _ _) = True"
| "socket_event e = setup_call e"

text \<open>A path that the program may remove before it binds: nothing there, or a socket of its own.\<close>

definition stale_path_cleared :: "auth_trace \<Rightarrow> auth_trace \<Rightarrow> bool" where
  "stale_path_cleared ev calls \<longleftrightarrow>
     calls = [Lstat AUTH_SOCKET_PATH (Inl ENOENT)] \<or>
     (\<exists>st. st_is_socket st \<and> GetEuid (st_uid st) \<in> set ev \<and>
        calls = [Lstat AUTH_SOCKET_PATH (Inr st), Unlink AUTH_SOCKET_PATH None])"

lemma AUTH_SOCKET_PATH_fits:
  "length AUTH_SOCKET_PATH < sizeof_sun_path"
  "cstr (store (zeros sizeof_sun_path) 0 (AUTH_SOCKET_PATH @ [NUL])) = AUTH_SOCKET_PATH"
  by code_simp+

lemma remove_stale_socket_path_shape:
  assumes "remove_stale_socket_path k tr = (rc, tr')"
  shows "rc = 0 \<or> rc = -1"
    and "\<exists>ev. tr' = tr @ ev \<and> list_all socket_event ev \<and>
      (rc = 0 \<longrightarrow> stale_path_cleared ev (filter setup_call ev)) \<and>
      (rc \<noteq> 0 \<longrightarrow> (\<forall>p r. Unlink p r \<in> set ev \<longrightarrow> r \<noteq> None)) \<and>
      (\<forall>ds b. fold fd_step ev ds = ds \<and> fold path_step ev False = False)"
  using assms
  by (auto simp: remove_stale_socket_path_def stale_path_cleared_def sys_defs Let_def
      split: sum.splits option.splits if_splits)

definition server_ready :: "fd \<Rightarrow> auth_trace \<Rightarrow> bool" where
  "server_ready fd ev \<longleftrightarrow>
     (\<exists>stale. stale_path_cleared ev stale \<and>
       filter setup_call ev = [Socket (Inr fd)] @ stale @
         [Bind fd AUTH_SOCKET_PATH None, Chmod AUTH_SOCKET_PATH 384 None,
          Listen fd BACKEND_LISTEN_BACKLOG None])"

lemma create_server_socket_shape:
  assumes "create_server_socket k tr = (fd, tr')" and "\<not> path_left tr"
  shows "\<exists>ev. tr' = tr @ ev \<and> list_all socket_event ev \<and>
      (if 0 \<le> fd then server_ready fd ev \<and> open_fds tr' = fd # open_fds tr
       else fd = -1 \<and> open_fds tr' = open_fds tr \<and> \<not> path_left tr')"
proof (cases "k_socket k tr")
  case (Inl e)
  with assms show ?thesis
    by (auto simp: create_server_socket_def sys_defs Let_def open_fds_append path_left_append)
next
  case (Inr d)
  obtain rc ev1 where r: "remove_stale_socket_path k (tr @ [Socket (Inr (int d))]) =
      (rc, tr @ Socket (Inr (int d)) # ev1)" "list_all socket_event ev1"
      "rc = 0 \<longrightarrow> stale_path_cleared ev1 (filter setup_call ev1)"
      "\<forall>ds b. fold fd_step ev1 ds = ds \<and> fold path_step ev1 False = False"
    using remove_stale_socket_path_shape(2) [of k "tr @ [Socket (Inr (int d))]"]
    by (cases "remove_stale_socket_path k (tr @ [Socket (Inr (int d))])") auto
  have st: "stale_path_cleared (Socket (Inr (int d)) # ev1 @ ev') st"
    if "stale_path_cleared ev1 st" for ev' st
    using that by (auto simp: stale_path_cleared_def)
  show ?thesis
    using assms Inr r AUTH_SOCKET_PATH_fits
    by (auto simp: create_server_socket_def sys_defs Let_def open_fds_append path_left_append
        close_logged_def unlink_socket_path_def server_ready_def
        split: option.splits if_splits intro!: st)
qed

subsection \<open>Accepting and checking the client\<close>

fun accept_event :: "fd \<Rightarrow> auth_event \<Rightarrow> bool" where
  "accept_event d (Accept d' _) = (d' = d)"
| "accept_event d (ReadFlag _) = True"
| "accept_event d (Out _) = True"
| "accept_event d _ = False"

definition accept_result :: "fd \<Rightarrow> auth_trace \<Rightarrow> int \<times> auth_trace \<Rightarrow> bool" where
  "accept_result server_fd tr res \<longleftrightarrow>
     (case res of (fd, tr') \<Rightarrow>
       extends (accept_event server_fd) tr tr' \<and> path_left tr' = path_left tr \<and>
       (if 0 \<le> fd then open_fds tr' = fd # open_fds tr else fd = -1 \<and> open_fds tr' = open_fds tr))"

lemma accept_result_now:
  "list_all (accept_event d) ev \<Longrightarrow> fold path_step ev (path_left tr) = path_left tr \<Longrightarrow>
   (if 0 \<le> fd then fold fd_step ev (open_fds tr) = fd # open_fds tr
    else fd = -1 \<and> fold fd_step ev (open_fds tr) = open_fds tr) \<Longrightarrow>
   accept_result d tr (fd, tr @ ev)"
  by (simp add: accept_result_def open_fds_append path_left_append)

lemma accept_result_again:
  assumes "accept_result d (tr @ ev) res" and "list_all (accept_event d) ev"
    and "list_all socket_neutral ev"
  shows "accept_result d tr res"
  using assms extends_step [of "accept_event d" tr ev]
  by (auto simp: accept_result_def open_fds_append path_left_append fold_neutral)

lemma accept_one_client_result:
  assumes "accept_one_client k d tr = Some res"
  shows "accept_result d tr res"
proof (rule accept_one_client.raw_induct [where P = "\<lambda>k d tr. accept_result d tr", OF _ assms],
    goal_cases)
  case (1 f k d tr res)
  note IH = 1(1) and eq = 1(2)
  show ?case
  proof (cases "k_accept k (tr @ [ReadFlag False]) d")
    case (Inl e)
    then show ?thesis
      using eq
      by (auto simp: sys_defs Let_def intro: accept_result_now accept_result_again dest!: IH
          split: if_splits)
  next
    case (Inr n)
    then show ?thesis
      using eq
      by (auto simp: sys_defs Let_def intro!: accept_result_now split: if_splits)
  qed
qed

lemma install_signal_handlers_neutral:
  assumes "install_signal_handlers k tr = (rc, tr')"
  shows "(rc = 0 \<or> rc = -1) \<and> extends socket_neutral tr tr' \<and>
    (rc = 0 \<longrightarrow> tr' = tr @ [SigAction SIGINT Set_Flag None, SigAction SIGTERM Set_Flag None,
       SigAction SIGPIPE Ignore None])"
  using assms
  by (auto simp: install_signal_handlers_def sys_defs Let_def split: option.splits if_splits)

text \<open>The peers that the backend serves.\<close>

definition trusted_peer :: "uid \<Rightarrow> gid \<Rightarrow> errno + ucred \<times> nat \<Rightarrow> bool" where
  "trusted_peer uid gid r \<longleftrightarrow>
     (\<exists>peer. r = Inr (peer, sizeof_ucred) \<and> 0 < cr_pid peer \<and> cr_uid peer = uid \<and>
       cr_gid peer = gid \<and> uid \<noteq> -1 \<and> gid \<noteq> -1)"

lemma verify_peer_credentials_iff:
  assumes "verify_peer_credentials k d uid gid tr = (rc, tr')"
  shows "rc = (if trusted_peer uid gid (k_peercred k tr d) then 0 else -1)"
    and "\<exists>ev. tr' = tr @ PeerCred d (k_peercred k tr d) # ev \<and> (\<forall>e\<in>set ev. \<exists>m. e = Out m)"
  using assms
  by (auto simp: verify_peer_credentials_def trusted_peer_def sys_defs Let_def
      split: sum.splits if_splits)

lemma close_logged_state:
  "open_fds (close_logged k d label tr) = (if d < 0 then open_fds tr else remove1 d (open_fds tr))"
  "path_left (close_logged k d label tr) = path_left tr"
  "extends socket_event tr (close_logged k d label tr)"
  by (simp_all add: close_logged_def sys_defs Let_def open_fds_append path_left_append
      split: option.splits)

lemma unlink_socket_path_state:
  "open_fds (unlink_socket_path k tr) = open_fds tr"
  "\<not> path_left (unlink_socket_path k tr)"
  "extends socket_event tr (unlink_socket_path k tr)"
  by (simp_all add: unlink_socket_path_def sys_defs Let_def open_fds_append path_left_append
      split: option.splits)

lemma accept_one_client_returns:
  assumes "finite_interrupts b k"
  shows "accept_one_client k d tr \<noteq> None"
proof (induction "b - interrupts tr" arbitrary: tr rule: less_induct)
  case less
  have lt: "k_accept k tr d = Inl EINTR \<Longrightarrow> interrupts tr < b" for tr d
    using assms unfolding finite_interrupts_def by blast
  show ?case
  proof (cases "k_accept k (tr @ [ReadFlag False]) d")
    case (Inl e)
    then show ?thesis
      using lt [of "tr @ [ReadFlag False]" d]
        less [of "tr @ [ReadFlag False, Accept d (Inl EINTR), ReadFlag False]"]
      by (subst accept_one_client.simps) (auto simp: sys_defs Let_def)
  next
    case (Inr n)
    then show ?thesis
      by (subst accept_one_client.simps) (simp add: sys_defs Let_def)
  qed
qed

subsection \<open>Properties\<close>

text \<open>
  C17: \<^verbatim>\<open>remove_stale_socket_path\<close> removes nothing but a socket of the process's own user at
  the socket path: its only call on the file system besides \<^verbatim>\<open>lstat\<close> is an
  \<^verbatim>\<open>unlink\<close> of that path, made after \<^verbatim>\<open>lstat\<close> reported a socket whose owner is
  the effective user. It returns 0 exactly when nothing was there or the removal succeeded.
\<close>

theorem remove_stale_socket_path_safe:
  assumes "remove_stale_socket_path k tr = (rc, tr')"
  shows "\<exists>ev. tr' = tr @ ev \<and>
    (filter setup_call ev = [Lstat AUTH_SOCKET_PATH (k_lstat k tr AUTH_SOCKET_PATH)] \<or>
     (\<exists>st r. k_lstat k tr AUTH_SOCKET_PATH = Inr st \<and> st_is_socket st \<and>
        GetEuid (st_uid st) \<in> set ev \<and>
        filter setup_call ev = [Lstat AUTH_SOCKET_PATH (Inr st), Unlink AUTH_SOCKET_PATH r])) \<and>
    rc = (if k_lstat k tr AUTH_SOCKET_PATH = Inl ENOENT \<or> Unlink AUTH_SOCKET_PATH None \<in> set ev
          then 0 else -1)"
  by (rule exI [of _ "drop (length tr) tr'"], insert assms)
     (auto simp: remove_stale_socket_path_def sys_defs Let_def
      split: sum.splits option.splits if_splits)

theorem remove_stale_socket_path_safe_witness:
  "\<exists>ev. snd (remove_stale_socket_path (demo_kernel\<lparr>k_lstat := \<lambda>_ _. Inr \<lparr>st_is_socket = True, st_uid = 0\<rparr>\<rparr>) []) = ev \<and>
     filter setup_call ev = [Lstat AUTH_SOCKET_PATH (Inr \<lparr>st_is_socket = True, st_uid = 0\<rparr>)]"
proof -
  let ?k = "demo_kernel\<lparr>k_lstat := \<lambda>_ _. Inr \<lparr>st_is_socket = True, st_uid = 0\<rparr>\<rparr>"
  have "GetEuid 0 \<notin> set (snd (remove_stale_socket_path ?k []))"
    by code_simp
  with remove_stale_socket_path_safe [OF prod.collapse [symmetric], of ?k "[]"] show ?thesis
    by (auto simp: demo_kernel_def)
qed



text \<open>
  C18: \<^verbatim>\<open>verify_peer_credentials\<close> accepts exactly the peers that the kernel reports, in a
  struct of the full size, with a positive process id and with the expected user and group, both
  of them valid; it makes one call and otherwise only logs.
\<close>

theorem verify_peer_credentials_exact:
  assumes "verify_peer_credentials k d uid gid tr = (rc, tr')"
  shows "rc = (if trusted_peer uid gid (k_peercred k tr d) then 0 else -1) \<and>
    (\<exists>ev. tr' = tr @ PeerCred d (k_peercred k tr d) # ev \<and> (\<forall>e\<in>set ev. \<exists>m. e = Out m))"
  using verify_peer_credentials_iff [OF assms] by blast

theorem verify_peer_credentials_exact_witness:
  "fst (verify_peer_credentials demo_kernel 4 1000 1001 []) = -1"
proof -
  have "\<not> trusted_peer 1000 1001 (k_peercred demo_kernel [] 4)"
    by (simp add: trusted_peer_def demo_kernel_def)
  with verify_peer_credentials_exact [OF prod.collapse [symmetric], of demo_kernel 4 1000 1001 "[]"]
  show ?thesis
    by simp
qed

end
