(* ===== verification/Frontend.thy ===== *)
theory Frontend
  imports Auth_Transfer Auth_Protocol Secure_Memory Backend_Socket
begin

text \<open>
  \<^verbatim>\<open>Authentication/Frontend.c\<close>, in the build for POSIX systems (terminals and UNIX sockets):
  signal handlers, the terminal's echo, the two prompts, the connection, the exchange of one request
  and one response, and \<^verbatim>\<open>main\<close>. The standard input is a stream that the functions pass on.
\<close>

definition USERNAME_INPUT_BUFFER_SIZE :: nat where
  "USERNAME_INPUT_BUFFER_SIZE = AUTH_USERNAME_MAX + 2"

definition PASSWORD_INPUT_BUFFER_SIZE :: nat where
  "PASSWORD_INPUT_BUFFER_SIZE = AUTH_PASSWORD_MAX + 2"

text \<open>The bit \<^verbatim>\<open>ECHO\<close> of the local flags.\<close>

definition ECHO :: u32 where
  "ECHO = 8"

text \<open>The original attributes are not initialised before \<^verbatim>\<open>tcgetattr\<close> has delivered them.\<close>

record TerminalEchoState =
  es_original :: "termios option"
  es_restore_required :: bool

definition perror :: "auth_kernel \<Rightarrow> string \<Rightarrow> errno \<Rightarrow> auth_trace \<Rightarrow> auth_trace" where
  "perror k s e tr = err_out (s @ '': '' @ k_strerror k e) tr"

subsection \<open>Signals\<close>

text \<open>\<^verbatim>\<open>handle_frontend_signal\<close>: the new value of \<^verbatim>\<open>frontend_interrupted\<close>.\<close>

definition handle_frontend_signal :: "bool \<Rightarrow> bool" where
  "handle_frontend_signal frontend_interrupted = True"

definition install_frontend_signal_handlers :: "auth_kernel \<Rightarrow> auth_trace \<Rightarrow> int \<times> auth_trace" where
  "install_frontend_signal_handlers k tr =
     (let (r, tr) = sys_sigaction k SIGINT Set_Flag tr;
          (r, tr) = (if r \<noteq> None then (r, tr) else sys_sigaction k SIGTERM Set_Flag tr)
      in case r of
        Some e \<Rightarrow> (-1, perror k ''sigaction'' e tr)
      | None \<Rightarrow>
          case sys_sigaction k SIGPIPE Ignore tr of
            (Some e, tr) \<Rightarrow> (-1, perror k ''sigaction'' e tr)
          | (None, tr) \<Rightarrow> (0, tr))"

subsection \<open>Standard input\<close>

function skip_input_line :: "stream \<Rightarrow> stream" where
  "skip_input_line f =
     (case fgetc f of
        (None, f) \<Rightarrow> f
      | (Some ch, f) \<Rightarrow> if ch \<noteq> LF then skip_input_line f else f)"
  by pat_completeness auto
termination
  by (relation "measure (\<lambda>f. length (rest f))") (auto simp: fgetc_def split: list.splits)

declare skip_input_line.simps [simp del]

definition discard_remaining_input_line :: "stream \<Rightarrow> auth_trace \<Rightarrow> stream \<times> auth_trace" where
  "discard_remaining_input_line f tr = (skip_input_line f, tr @ [StdinDiscard])"

text \<open>\<^verbatim>\<open>fgets\<close> on the standard input; the event says whether it delivered a line.\<close>

definition fgets_stdin ::
    "buffer \<Rightarrow> nat \<Rightarrow> stream \<Rightarrow> auth_trace \<Rightarrow> buffer option \<times> stream \<times> auth_trace" where
  "fgets_stdin buf n f tr =
     (let (r, f) = fgets buf n f in (r, f, tr @ [StdinFgets (r \<noteq> None)]))"

definition stream_errno :: "stream \<Rightarrow> errno" where
  "stream_errno f = (case fail f of Some e \<Rightarrow> e | None \<Rightarrow> EOther 0)"

subsection \<open>The terminal's echo\<close>

definition disable_terminal_echo :: "auth_kernel \<Rightarrow> auth_trace \<Rightarrow> int \<times> TerminalEchoState \<times> auth_trace"
    where
  "disable_terminal_echo k tr =
     (let state = \<lparr>es_original = None, es_restore_required = False\<rparr>;
          (tty, tr) = sys_isatty k tr
      in
      if \<not> tty then (0, state, tr)
      else case sys_tcgetattr k tr of
        (Inl e, tr) \<Rightarrow> (-1, state, perror k ''tcgetattr'' e tr)
      | (Inr original, tr) \<Rightarrow>
          let state = state\<lparr>es_original := Some original\<rparr>;
              hidden = original\<lparr>c_lflag := and (c_lflag original) (not ECHO)\<rparr>
          in case sys_tcsetattr k hidden tr of
            (Some e, tr) \<Rightarrow> (-1, state, perror k ''tcsetattr'' e tr)
          | (None, tr) \<Rightarrow> (0, state\<lparr>es_restore_required := True\<rparr>, tr))"

definition restore_terminal_echo :: "auth_kernel \<Rightarrow> TerminalEchoState \<Rightarrow> auth_trace \<Rightarrow> int \<times> auth_trace"
    where
  "restore_terminal_echo k state tr =
     (case (es_restore_required state, es_original state) of
        (True, Some original) \<Rightarrow>
          (case sys_tcsetattr k original tr of
             (Some e, tr) \<Rightarrow> (-1, perror k ''tcsetattr'' e tr)
           | (None, tr) \<Rightarrow> (0, tr))
      | _ \<Rightarrow> (0, tr))"

subsection \<open>The two prompts\<close>

text \<open>The results are the code, the destination, the rest of the input and the trace.\<close>

definition read_username ::
    "auth_kernel \<Rightarrow> buffer \<Rightarrow> nat \<Rightarrow> stream \<Rightarrow> auth_trace \<Rightarrow> int \<times> buffer \<times> stream \<times> auth_trace" where
  "read_username k username username_size f tr =
     (let (interrupted, tr) = sys_flag k tr in
      if interrupted then (-1, username, f, err_out ''Authentication input interrupted.'' tr)
      else
        let tr = out_text ''Username: '' tr;
            (line, f, tr) = fgets_stdin (zeros USERNAME_INPUT_BUFFER_SIZE) USERNAME_INPUT_BUFFER_SIZE f tr
        in case line of
          None \<Rightarrow>
            let (interrupted, tr) = sys_flag k tr in
            if interrupted then (-1, username, f, err_out ''Authentication input interrupted.'' tr)
            else if feof f then (-1, username, f, err_out ''No username provided.'' tr)
            else (-1, username, f, perror k ''fgets'' (stream_errno f) tr)
        | Some input \<Rightarrow>
            let newline_index = strcspn input [LF] in
            if input ! newline_index \<noteq> LF
            then
              let (f, tr) = discard_remaining_input_line f tr
              in (-1, username, f,
                  err_out (''Username is too long. Maximum length is '' @ show_nat AUTH_USERNAME_MAX @
                           '' characters.'') tr)
            else
              let input = input[newline_index := NUL]; input_length = strlen input in
              if input_length = 0
              then (-1, username, f, err_out ''Username must not be empty.'' tr)
              else if username_size \<le> input_length
              then (-1, username, f,
                    err_out (''Username is too long. Maximum length is '' @
                             show_nat AUTH_USERNAME_MAX @ '' characters.'') tr)
              else (0, store username 0 (take (input_length + 1) input), f, tr))"

text \<open>
  The call of \<^verbatim>\<open>fgets\<close> in \<^verbatim>\<open>read_password\<close> with the tests on its result: the flags
  \<^verbatim>\<open>read_failed\<close> and \<^verbatim>\<open>input_too_long\<close>, the buffer, the stream and the trace.
\<close>

definition take_password_line ::
    "buffer \<Rightarrow> stream \<Rightarrow> auth_trace \<Rightarrow> bool \<times> bool \<times> buffer \<times> stream \<times> auth_trace" where
  "take_password_line input f tr =
     (case fgets_stdin input PASSWORD_INPUT_BUFFER_SIZE f tr of
        (None, f, tr) \<Rightarrow> (True, False, input, f, tr)
      | (Some input, f, tr) \<Rightarrow>
          let newline_index = strcspn input [LF] in
          if input ! newline_index = LF
          then (False, False, input[newline_index := NUL], f, tr)
          else
            let (f, tr) = discard_remaining_input_line f tr
            in (False, True, input, f, tr))"

text \<open>
  The rest of \<^verbatim>\<open>read_password\<close>, after the prompt and the disabled echo; besides the above it
  delivers what the local buffer \<^verbatim>\<open>input\<close> holds at the return.
\<close>

definition read_hidden_line ::
    "auth_kernel \<Rightarrow> buffer \<Rightarrow> nat \<Rightarrow> buffer \<Rightarrow> TerminalEchoState \<Rightarrow> stream \<Rightarrow> auth_trace \<Rightarrow>
     int \<times> buffer \<times> buffer \<times> stream \<times> auth_trace" where
  "read_hidden_line k password password_size input echo_state f tr =
     (let cleared = (\<lambda>input. secure_clear input PASSWORD_INPUT_BUFFER_SIZE);
          (read_failed, input_too_long, input, f, tr) = take_password_line input f tr;
          (restored, tr) = restore_terminal_echo k echo_state tr
      in
      if restored \<noteq> 0 then (-1, password, cleared input, f, tr)
      else
        let tr = out_text [LF] tr;
            (interrupted, tr) = sys_flag k tr
        in
        if interrupted
        then (-1, password, cleared input, f, err_out ''Password input interrupted.'' tr)
        else if read_failed
        then (-1, password, cleared input, f,
              if feof f then err_out ''No password provided.'' tr
              else perror k ''fgets'' (stream_errno f) tr)
        else if input_too_long
        then (-1, password, cleared input, f,
              err_out (''Password is too long. Maximum length is '' @ show_nat AUTH_PASSWORD_MAX @
                       '' characters.'') tr)
        else
          let input_length = strlen input in
          if input_length = 0
          then (-1, password, cleared input, f, err_out ''Password must not be empty.'' tr)
          else if password_size \<le> input_length
          then (-1, password, cleared input, f,
                err_out (''Password is too long. Maximum length is '' @
                         show_nat AUTH_PASSWORD_MAX @ '' characters.'') tr)
          else (0, store password 0 (take (input_length + 1) input), cleared input, f, tr))"

definition read_password ::
    "auth_kernel \<Rightarrow> buffer \<Rightarrow> nat \<Rightarrow> stream \<Rightarrow> auth_trace \<Rightarrow>
     int \<times> buffer \<times> buffer \<times> stream \<times> auth_trace" where
  "read_password k password password_size f tr =
     (let input = zeros PASSWORD_INPUT_BUFFER_SIZE;
          (interrupted, tr) = sys_flag k tr
      in
      if interrupted then (-1, password, input, f, err_out ''Password input interrupted.'' tr)
      else
        let tr = out_text ''Password: '' tr;
            (disabled, echo_state, tr) = disable_terminal_echo k tr
        in
        if disabled \<noteq> 0
        then (-1, password, secure_clear input PASSWORD_INPUT_BUFFER_SIZE, f, tr)
        else
          let (interrupted, tr) = sys_flag k tr in
          if interrupted
          then
            let (_, tr) = restore_terminal_echo k echo_state tr
            in (-1, password, secure_clear input PASSWORD_INPUT_BUFFER_SIZE, f,
                err_out ''Password input interrupted.'' (out_text [LF] tr))
          else read_hidden_line k password password_size input echo_state f tr)"

subsection \<open>The exchange\<close>

definition connect_to_backend :: "auth_kernel \<Rightarrow> auth_trace \<Rightarrow> int \<times> auth_trace" where
  "connect_to_backend k tr =
     (case sys_socket k tr of
        (Inl e, tr) \<Rightarrow> (-1, perror k ''socket'' e tr)
      | (Inr socket_fd, tr) \<Rightarrow>
          let sun_path = zeros sizeof_sun_path; path_length = length AUTH_SOCKET_PATH in
          if sizeof_sun_path \<le> path_length
          then
            let tr = err_out (''Backend socket path is too long: '' @ AUTH_SOCKET_PATH) tr;
                (_, tr) = sys_close k socket_fd tr
            in (-1, tr)
          else
            let sun_path = store sun_path 0 (AUTH_SOCKET_PATH @ [NUL]) in
            case sys_connect k socket_fd (cstr sun_path) tr of
              (Some e, tr) \<Rightarrow>
                let tr = err_out (''Unable to connect to backend at '' @ AUTH_SOCKET_PATH @ '': '' @
                                  k_strerror k e) tr;
                    (_, tr) = sys_close k socket_fd tr
                in (-1, tr)
            | (None, tr) \<Rightarrow> (socket_fd, tr))"

text \<open>\<^verbatim>\<open>secure_clear(request, sizeof(*request))\<close>, on the struct.\<close>

definition clear_request :: "AuthRequest \<Rightarrow> AuthRequest" where
  "clear_request request = request_of_bytes (secure_clear (request_bytes request) sizeof_request)"

text \<open>The label \<^verbatim>\<open>cleanup\<close> of \<^verbatim>\<open>exchange_auth_request\<close>.\<close>

definition exchange_cleanup ::
    "auth_kernel \<Rightarrow> fd \<Rightarrow> int \<Rightarrow> AuthRequest \<Rightarrow> buffer \<Rightarrow> auth_trace \<Rightarrow>
     int \<times> AuthRequest \<times> buffer \<times> auth_trace" where
  "exchange_cleanup k socket_fd result request response tr =
     (let request = clear_request request in
      case sys_close k socket_fd tr of
        (Some e, tr) \<Rightarrow> (-1, request, response, perror k ''close'' e tr)
      | (None, tr) \<Rightarrow> (result, request, response, tr))"

definition exchange_auth_request ::
    "auth_kernel \<Rightarrow> AuthRequest \<Rightarrow> buffer \<Rightarrow> auth_trace \<Rightarrow>
     (int \<times> AuthRequest \<times> buffer \<times> auth_trace) option" where
  "exchange_auth_request k request response tr =
     (let (interrupted, tr) = sys_flag k tr in
      if interrupted
      then Some (-1, clear_request request, response,
             err_out ''Authentication request cancelled.'' tr)
      else
        let (socket_fd, tr) = connect_to_backend k tr in
        if socket_fd < 0 then Some (-1, clear_request request, response, tr)
        else do {
          (sent, tr) \<leftarrow> frontend_write_all k socket_fd (request_bytes request) tr;
          let request = clear_request request;
          if sent \<noteq> 0 then Some (exchange_cleanup k socket_fd (-1) request response tr)
          else do {
            (received, response, tr) \<leftarrow>
              frontend_read_all k socket_fd response 0 sizeof_response tr;
            Some (exchange_cleanup k socket_fd (if received \<noteq> 0 then -1 else 0) request response tr)
          }
        })"

text \<open>What \<^verbatim>\<open>main\<close> makes of a response: its exit code and the line that it prints.\<close>

definition report_response :: "buffer \<Rightarrow> auth_trace \<Rightarrow> int \<times> auth_trace" where
  "report_response bytes tr =
     (let response = response_of_bytes bytes;
          tail = cstr (rs_message response) @ '' (result='' @ show_uid (rs_result response) @
                 '', error='' @ show_uid (rs_error_code response) @ '')''
      in
      if memchr (rs_message response) NUL (AUTH_RESPONSE_MESSAGE_MAX + 1) = None
      then (1, err_out ''Backend returned a malformed response message.'' tr)
      else if rs_version response \<noteq> AUTH_PROTOCOL_VERSION
      then (1, err_out (''Unsupported backend protocol version: '' @ show_uid (rs_version response)) tr)
      else if rs_result response = result_code AUTH_RESULT_SUCCESS
      then (0, out (''Authentication succeeded: '' @ tail) tr)
      else (1, err_out (''Authentication failed: '' @ tail) tr))"

text \<open>The struct after its initialisation in \<^verbatim>\<open>main\<close>.\<close>

definition initial_request :: AuthRequest where
  "initial_request =
     zero_request\<lparr>rq_version := AUTH_PROTOCOL_VERSION, rq_type := AUTH_REQUEST_VALIDATE\<rparr>"

text \<open>
  From the signal handlers to the label \<^verbatim>\<open>cleanup\<close> of \<^verbatim>\<open>main\<close>: the exit code, the two
  structs and the trace.
\<close>

definition frontend_run ::
    "auth_kernel \<Rightarrow> stream \<Rightarrow> auth_trace \<Rightarrow> (int \<times> AuthRequest \<times> buffer \<times> auth_trace) option" where
  "frontend_run k f tr =
     (let request = initial_request; response = zeros sizeof_response;
          (installed, tr) = install_frontend_signal_handlers k tr
      in
      if installed \<noteq> 0 then Some (1, request, response, tr)
      else
        let (named, username, f, tr) =
              read_username k (rq_username request) (AUTH_USERNAME_MAX + 1) f tr;
            request = request\<lparr>rq_username := username\<rparr>
        in
        if named \<noteq> 0 then Some (1, request, response, tr)
        else
          let (given, password, _, f, tr) =
                read_password k (rq_password request) (AUTH_PASSWORD_MAX + 1) f tr;
              request = request\<lparr>rq_password := password\<rparr>
          in
          if given \<noteq> 0 then Some (1, request, response, tr)
          else do {
            (exchanged, request, response, tr) \<leftarrow> exchange_auth_request k request response tr;
            let (exit_code, tr) = (if exchanged = 0 then report_response response tr else (1, tr));
            Some (exit_code, request, response, tr)
          })"

definition frontend_main ::
    "auth_kernel \<Rightarrow> stream \<Rightarrow> auth_trace \<Rightarrow> (int \<times> AuthRequest \<times> buffer \<times> auth_trace) option" where
  "frontend_main k f tr =
     do {
       (exit_code, request, response, tr) \<leftarrow> frontend_run k f tr;
       Some (exit_code, clear_request request, secure_clear response sizeof_response, tr)
     }"

subsection \<open>What the prompts accept\<close>

text \<open>
  The specification: the next line of the input, if it is complete, not empty, at most \<open>m\<close> bytes
  long and free of null bytes.
\<close>

definition input_line :: "nat \<Rightarrow> stream \<Rightarrow> string option" where
  "input_line m f =
     (let l = takeWhile (\<lambda>c. c \<noteq> LF) (rest f) in
      if LF \<in> set (rest f) \<and> \<not> ferror f \<and> NUL \<notin> set l \<and> l \<noteq> [] \<and> length l \<le> m
      then Some l else None)"

lemma split_line: "LF \<in> set cs \<Longrightarrow> \<exists>later. cs = takeWhile (\<lambda>c. c \<noteq> LF) cs @ LF # later"
  by (metis in_set_conv_decomp_first takeWhile_before)

lemma input_line_SomeE:
  assumes "input_line m f = Some l"
  obtains later where "rest f = l @ LF # later" and "LF \<notin> set l" and "NUL \<notin> set l" and "l \<noteq> []"
    and "length l \<le> m" and "\<not> ferror f"
  using assms split_line [of "rest f"]
  by (auto simp: input_line_def Let_def dest: set_takeWhileD split: if_splits)

lemma input_lineI:
  "rest f = l @ LF # later \<Longrightarrow> LF \<notin> set l \<Longrightarrow> NUL \<notin> set l \<Longrightarrow> l \<noteq> [] \<Longrightarrow> length l \<le> m \<Longrightarrow>
   \<not> ferror f \<Longrightarrow> input_line m f = Some l"
  by (simp add: input_line_def takeWhile_before)

lemma input_line_fgets:
  assumes "input_line m f = Some l"
  shows "fgets buf (m + 2) f =
    (Some (l @ LF # NUL # drop (length l + 2) buf), f\<lparr>rest := drop (length l + 1) (rest f)\<rparr>)"
  using assms fgets_line [of f l] by (auto elim!: input_line_SomeE)

lemma strcspn_line: "LF \<notin> set l \<Longrightarrow> NUL \<notin> set l \<Longrightarrow> strcspn (l @ LF # NUL # junk) [LF] = length l"
  using cstr_terminated [of "l @ [LF]" junk] takeWhile_before [of LF l "[]"]
  by (simp add: strcspn_def)

lemma line_prefix_LF: "line_prefix n cs = a @ LF # b \<Longrightarrow> b = []"
proof (induction n cs arbitrary: a rule: line_prefix.induct)
  case (3 n c cs)
  then show ?case
    by (cases a) (auto split: if_splits)
qed simp_all

lemma cstr_append_NUL:
  "NUL \<notin> set s \<Longrightarrow> cstr (s @ junk) = s @ cstr junk"
  by (induction s) (auto simp: cstr_def)

text \<open>A line that passes the tests on the buffer is an accepted line.\<close>

lemma fgets_accepted:
  assumes fg: "fgets buf (m + 2) f = (Some input, f1)"
    and nl: "input ! strcspn input [LF] = LF"
    and ne: "strlen (input[strcspn input [LF] := NUL]) \<noteq> 0"
  shows "input_line m f = Some (cstr (input[strcspn input [LF] := NUL]))"
    and "f1 = f\<lparr>rest := drop (strlen (input[strcspn input [LF] := NUL]) + 1) (rest f)\<rparr>"
proof -
  let ?s = "line_prefix (Suc m) (rest f)" and ?i = "strcspn input [LF]"
  have input: "input = store buf 0 (?s @ [NUL])" and ok: "\<not> ferror f1" and s: "?s \<noteq> []"
    using fg by (auto simp: fgets_def Let_def split: if_splits)
  define l where "l = takeWhile (\<lambda>c. c \<notin> set [LF]) (cstr input)"
  have i: "?i = length l"
    by (simp add: strcspn_def l_def)
  have "?i \<le> strlen input"
    by (rule strcspn_le_strlen)
  have nul: "NUL \<in> set input"
    by (simp add: input)
  have "?i \<noteq> strlen input"
    using nl nth_strlen [OF nul] by auto
  with \<open>?i \<le> strlen input\<close> have lt: "?i < strlen input"
    by simp
  have NUL_s: "strlen input \<le> length ?s"
    unfolding strlen_def cstr_def input store_0 by (simp add: takeWhile_append length_takeWhile_le)
  have l_take: "l = take ?i (cstr input)"
    unfolding i l_def by (rule takeWhile_eq_take)
  then have l_take': "l = take ?i ?s"
    using lt NUL_s by (simp add: cstr_eq_take input)
  have "?s ! ?i = LF"
    using nl lt NUL_s by (simp add: input nth_append)
  then have "?s = l @ LF # drop (Suc ?i) ?s"
    using l_take' lt NUL_s by (metis id_take_nth_drop order_less_le_trans)
  with line_prefix_LF [of "Suc m" "rest f" l] have sl: "?s = l @ [LF]"
    by (metis append.right_neutral)
  obtain later where rest: "rest f = l @ LF # later"
    using line_prefix_take [of "Suc m" "rest f"] unfolding sl
    by (metis append.assoc append_Cons append_Nil append_take_drop_id)
  have no: "NUL \<notin> set l" "LF \<notin> set l"
    using NUL_not_in_cstr [of input] unfolding l_def by (auto dest: set_takeWhileD)
  have len: "length l \<le> m"
    using line_prefix_length [of "Suc m" "rest f"] unfolding sl by simp
  have upd: "input[?i := NUL] = l @ NUL # NUL # drop (length l + 2) buf"
    unfolding i by (simp add: input sl)
  then have cl: "cstr (input[?i := NUL]) = l" "strlen (input[?i := NUL]) = length l"
    using no(1) by (simp_all add: strlen_def)
  have f1: "f1 = f\<lparr>rest := drop (length ?s) (rest f)\<rparr>" "ferror f = ferror f1"
    using fg by (auto simp: fgets_def Let_def sl split: if_splits)
  show "input_line m f = Some (cstr (input[?i := NUL]))"
  proof (unfold cl, rule input_lineI [OF rest no(2,1) _ len])
    show "l \<noteq> []"
      using ne cl(2) by auto
    show "\<not> ferror f"
      using ok f1(2) by simp
  qed
  show "f1 = f\<lparr>rest := drop (strlen (input[?i := NUL]) + 1) (rest f)\<rparr>"
    using f1(1) by (simp add: cl sl)
qed

text \<open>Events of the two prompts.\<close>

definition prompt_event :: "auth_event \<Rightarrow> bool" where
  "prompt_event e =
     (case e of Out _ \<Rightarrow> True | OutText _ \<Rightarrow> True | ErrOut _ \<Rightarrow> True | ReadFlag _ \<Rightarrow> True
      | Isatty _ \<Rightarrow> True | Tcgetattr _ \<Rightarrow> True | Tcsetattr _ _ \<Rightarrow> True | StdinFgets _ \<Rightarrow> True
      | StdinDiscard \<Rightarrow> True | SigAction _ _ _ \<Rightarrow> True | _ \<Rightarrow> False)"

lemma USERNAME_buffer: "USERNAME_INPUT_BUFFER_SIZE = 64 + 2"
  by (simp add: USERNAME_INPUT_BUFFER_SIZE_def)

lemma PASSWORD_buffer: "PASSWORD_INPUT_BUFFER_SIZE = 128 + 2"
  by (simp add: PASSWORD_INPUT_BUFFER_SIZE_def)

text \<open>The line in the buffer after the newline was overwritten.\<close>

lemma accepted_buffer:
  assumes "NUL \<notin> set l" and "LF \<notin> set l"
  shows "(l @ LF # NUL # junk) ! strcspn (l @ LF # NUL # junk) [LF] = LF"
    and "(l @ LF # NUL # junk)[strcspn (l @ LF # NUL # junk) [LF] := NUL] = l @ NUL # NUL # junk"
    and "strlen (l @ NUL # NUL # junk) = length l"
    and "take (length l + 1) (l @ NUL # NUL # junk) = l @ [NUL]"
  using assms by (simp_all add: strcspn_line strlen_def)

lemma read_username_result:
  assumes "read_username k u (AUTH_USERNAME_MAX + 1) f tr = (rc, u', f', tr')"
  shows "case (if k_flag k tr then None else input_line AUTH_USERNAME_MAX f) of
      Some l \<Rightarrow> rc = 0 \<and> u' = store u 0 (l @ [NUL]) \<and>
        f' = f\<lparr>rest := drop (length l + 1) (rest f)\<rparr>
    | None \<Rightarrow> rc = -1 \<and> u' = u"
proof (cases "k_flag k tr")
  case True
  with assms show ?thesis
    by (simp add: read_username_def sys_defs Let_def)
next
  case False
  show ?thesis
  proof (cases "input_line AUTH_USERNAME_MAX f")
    case (Some l)
    then have l: "NUL \<notin> set l" "LF \<notin> set l" "l \<noteq> []" "length l \<le> 64"
      by (auto elim: input_line_SomeE)
    let ?junk = "drop (length l + 2) (zeros USERNAME_INPUT_BUFFER_SIZE)"
    have fg: "fgets (zeros USERNAME_INPUT_BUFFER_SIZE) USERNAME_INPUT_BUFFER_SIZE f =
        (Some (l @ LF # NUL # ?junk), f\<lparr>rest := drop (length l + 1) (rest f)\<rparr>)"
      using input_line_fgets [OF Some, of "zeros USERNAME_INPUT_BUFFER_SIZE"]
      by (simp add: USERNAME_buffer)
    show ?thesis
      using assms False Some l(3,4) accepted_buffer [OF l(1,2), of ?junk]
      by (simp add: read_username_def fgets_stdin_def fg sys_defs Let_def del: store_0)
  next
    case None
    obtain r f1 where fg: "fgets (zeros USERNAME_INPUT_BUFFER_SIZE) USERNAME_INPUT_BUFFER_SIZE f = (r, f1)"
      by fastforce
    show ?thesis
    proof (cases r)
      case None
      with assms False fg \<open>input_line AUTH_USERNAME_MAX f = None\<close> show ?thesis
        by (auto simp: read_username_def fgets_stdin_def sys_defs perror_def Let_def split: if_splits)
    next
      case (Some input)
      have "\<not> (input ! strcspn input [LF] = LF \<and> strlen (input[strcspn input [LF] := NUL]) \<noteq> 0)"
        using fgets_accepted(1) [of "zeros USERNAME_INPUT_BUFFER_SIZE" 64 f input f1] None fg Some
        by (auto simp: USERNAME_buffer)
      with assms False fg Some None show ?thesis
        by (auto simp: read_username_def fgets_stdin_def sys_defs discard_remaining_input_line_def Let_def
            split: if_splits)
    qed
  qed
qed

lemma read_username_events:
  assumes "read_username k u n f tr = (rc, u', f', tr')"
  shows "extends prompt_event tr tr'"
  using assms
  by (auto simp: read_username_def fgets_stdin_def discard_remaining_input_line_def sys_defs perror_def
      prompt_event_def Let_def split: if_splits option.splits prod.splits)

subsection \<open>The terminal while the password is typed\<close>

definition hidden_attributes :: "termios \<Rightarrow> termios" where
  "hidden_attributes t = t\<lparr>c_lflag := and (c_lflag t) (not ECHO)\<rparr>"

lemma hidden_attributes_no_echo: "and (c_lflag (hidden_attributes t)) ECHO = 0"
  by (simp add: hidden_attributes_def and.assoc)

fun echo_call :: "auth_event \<Rightarrow> bool" where
  "echo_call (Isatty _) = True"
| "echo_call (Tcgetattr _) = True"
| "echo_call (Tcsetattr _ _) = True"
| "echo_call (StdinFgets _) = True"
| "echo_call StdinDiscard = True"
| "echo_call _ = False"

definition input_calls :: "auth_trace \<Rightarrow> bool" where
  "input_calls c \<longleftrightarrow> c \<in> {[], [StdinFgets False], [StdinFgets True], [StdinFgets True, StdinDiscard]}"

text \<open>
  The possible calls of \<^verbatim>\<open>read_password\<close> on the terminal and the input: nothing is read from a
  terminal before its echo is off, and its original attributes are always put back.
\<close>

definition hidden_input :: "auth_trace \<Rightarrow> bool" where
  "hidden_input calls \<longleftrightarrow>
     calls = [] \<or>
     (\<exists>c. input_calls c \<and> calls = Isatty False # c) \<or>
     (\<exists>e. calls = [Isatty True, Tcgetattr (Inl e)]) \<or>
     (\<exists>t e. calls = [Isatty True, Tcgetattr (Inr t), Tcsetattr (hidden_attributes t) (Some e)]) \<or>
     (\<exists>t c r. input_calls c \<and>
        calls = [Isatty True, Tcgetattr (Inr t), Tcsetattr (hidden_attributes t) None] @ c @
                [Tcsetattr t r])"

text \<open>What \<^verbatim>\<open>disable_terminal_echo\<close> leaves for \<^verbatim>\<open>restore_terminal_echo\<close>.\<close>

lemma disable_terminal_echo_result:
  assumes "disable_terminal_echo k tr = (rc, st, tr')"
  obtains (off) "rc = 0" "\<not> es_restore_required st" "tr' = tr @ [Isatty False]"
  | (hidden) t where "rc = 0" "es_restore_required st" "es_original st = Some t"
      "tr' = tr @ [Isatty True, Tcgetattr (Inr t), Tcsetattr (hidden_attributes t) None]"
  | (failed) calls where "rc = -1" "\<not> es_restore_required st" "list_all prompt_event calls"
      "tr' = tr @ calls" "hidden_input (filter echo_call calls)"
proof (cases "k_isatty k tr")
  case True
  show thesis
  proof (cases "k_tcgetattr k (tr @ [Isatty True])")
    case (Inl e)
    with True assms show ?thesis
      by (intro failed [of "[Isatty True, Tcgetattr (Inl e), ErrOut (''tcgetattr: '' @ k_strerror k e)]"])
         (auto simp: disable_terminal_echo_def sys_defs perror_def Let_def prompt_event_def
           hidden_input_def)
  next
    case (Inr t)
    let ?set = "Tcsetattr (hidden_attributes t)"
    show ?thesis
    proof (cases "k_tcsetattr k (tr @ [Isatty True, Tcgetattr (Inr t)]) (hidden_attributes t)")
      case None
      with True Inr assms show ?thesis
        by (intro hidden [of t])
           (auto simp: disable_terminal_echo_def sys_defs Let_def hidden_attributes_def)
    next
      case (Some e)
      with True Inr assms show ?thesis
        by (intro failed [of "[Isatty True, Tcgetattr (Inr t), ?set (Some e),
              ErrOut (''tcsetattr: '' @ k_strerror k e)]"])
           (auto simp: disable_terminal_echo_def sys_defs perror_def Let_def prompt_event_def
             hidden_input_def hidden_attributes_def)
    qed
  qed
qed (use assms in \<open>auto simp: disable_terminal_echo_def sys_defs Let_def intro: off\<close>)

lemma restore_terminal_echo_result:
  assumes "restore_terminal_echo k st tr = (rc, tr')"
  shows "(\<not> es_restore_required st \<longrightarrow> rc = 0 \<and> tr' = tr) \<and>
    (es_restore_required st \<longrightarrow> es_original st = Some t \<longrightarrow>
       rc = (if k_tcsetattr k tr t = None then 0 else -1) \<and>
       (\<exists>ev. tr' = tr @ Tcsetattr t (k_tcsetattr k tr t) # ev \<and> filter echo_call ev = [] \<and>
          list_all prompt_event ev))"
  using assms
  by (auto simp: restore_terminal_echo_def sys_defs perror_def Let_def prompt_event_def
      split: option.splits bool.splits)

text \<open>The first part of \<^verbatim>\<open>read_hidden_line\<close>, up to the restored terminal.\<close>

lemma hidden_line_buffer:
  assumes "length input = PASSWORD_INPUT_BUFFER_SIZE"
    and "fgets input PASSWORD_INPUT_BUFFER_SIZE f = (r, f1)"
  shows "r = None \<Longrightarrow> input_line AUTH_PASSWORD_MAX f = None"
    and "r = Some b \<Longrightarrow> length b = PASSWORD_INPUT_BUFFER_SIZE"
    and "r = Some b \<Longrightarrow> b ! strcspn b [LF] \<noteq> LF \<Longrightarrow> input_line AUTH_PASSWORD_MAX f = None"
    and "r = Some b \<Longrightarrow> b ! strcspn b [LF] = LF \<Longrightarrow>
      case input_line AUTH_PASSWORD_MAX f of
        None \<Rightarrow> strlen (b[strcspn b [LF] := NUL]) = 0
      | Some l \<Rightarrow> strlen (b[strcspn b [LF] := NUL]) = length l \<and> l \<noteq> [] \<and> length l \<le> 128 \<and>
          take (length l + 1) (b[strcspn b [LF] := NUL]) = l @ [NUL]"
proof -
  have acc: "r = Some (l @ LF # NUL # drop (length l + 2) input)" "NUL \<notin> set l" "LF \<notin> set l"
    "l \<noteq> []" "length l \<le> 128"
    if "input_line AUTH_PASSWORD_MAX f = Some l" for l
    using assms(2) input_line_fgets [OF that, of input] that
    by (auto simp: PASSWORD_buffer elim: input_line_SomeE)
  show "r = None \<Longrightarrow> input_line AUTH_PASSWORD_MAX f = None"
    using acc(1) by (cases "input_line AUTH_PASSWORD_MAX f") auto
  show "r = Some b \<Longrightarrow> length b = PASSWORD_INPUT_BUFFER_SIZE"
    using assms length_fgets [of input PASSWORD_INPUT_BUFFER_SIZE f b f1]
    by (simp add: PASSWORD_buffer)
  show "r = Some b \<Longrightarrow> b ! strcspn b [LF] \<noteq> LF \<Longrightarrow> input_line AUTH_PASSWORD_MAX f = None"
    using acc accepted_buffer(1) by (cases "input_line AUTH_PASSWORD_MAX f") fastforce+
  assume b: "r = Some b" "b ! strcspn b [LF] = LF"
  show "case input_line AUTH_PASSWORD_MAX f of
        None \<Rightarrow> strlen (b[strcspn b [LF] := NUL]) = 0
      | Some l \<Rightarrow> strlen (b[strcspn b [LF] := NUL]) = length l \<and> l \<noteq> [] \<and> length l \<le> 128 \<and>
          take (length l + 1) (b[strcspn b [LF] := NUL]) = l @ [NUL]"
  proof (cases "input_line AUTH_PASSWORD_MAX f")
    case None
    with b fgets_accepted(1) [of input 128 f b f1] assms(2) show ?thesis
      by (auto simp: PASSWORD_buffer)
  next
    case (Some l)
    note A = acc [OF Some]
    show ?thesis
      unfolding Some using b(1) A accepted_buffer [OF A(2,3), of "drop (length l + 2) input"] by simp
  qed
qed

lemma take_password_line_result:
  assumes "length input = PASSWORD_INPUT_BUFFER_SIZE"
    and "take_password_line input f tr = (failed, long, b, f', tr')"
  shows "length b = PASSWORD_INPUT_BUFFER_SIZE"
    and "failed \<or> long \<Longrightarrow> input_line AUTH_PASSWORD_MAX f = None"
    and "\<not> failed \<Longrightarrow> \<not> long \<Longrightarrow>
      case input_line AUTH_PASSWORD_MAX f of
        None \<Rightarrow> strlen b = 0
      | Some l \<Rightarrow> strlen b = length l \<and> l \<noteq> [] \<and> length l \<le> 128 \<and> take (length l + 1) b = l @ [NUL]"
    and "\<exists>c. tr' = tr @ c \<and> input_calls c"
proof (atomize (full), goal_cases)
  case 1
  obtain r f1 where fg: "fgets input PASSWORD_INPUT_BUFFER_SIZE f = (r, f1)"
    by fastforce
  note H = hidden_line_buffer [OF assms(1) fg]
  show ?case
  proof (cases r)
    case None
    with assms H(1) fg show ?thesis
      by (auto simp: take_password_line_def fgets_stdin_def input_calls_def)
  next
    case (Some b1)
    show ?thesis
    proof (cases "b1 ! strcspn b1 [LF] = LF")
      case True
      with Some assms(2) fg have b: "b = b1[strcspn b1 [LF] := NUL]" "\<not> failed" "\<not> long"
          "tr' = tr @ [StdinFgets True]"
        by (auto simp: take_password_line_def fgets_stdin_def)
      from H(2) [OF Some] H(4) [OF Some True] b(2-4) show ?thesis
        unfolding b(1) by (simp add: input_calls_def)
    next
      case False
      with Some assms(2) fg have "b = b1" "long" "tr' = tr @ [StdinFgets True, StdinDiscard]"
        by (auto simp: take_password_line_def fgets_stdin_def discard_remaining_input_line_def)
      with H(2,3) [OF Some] False show ?thesis
        by (simp add: input_calls_def)
    qed
  qed
qed

lemma input_calls_events: "input_calls c \<Longrightarrow> list_all prompt_event c \<and> filter echo_call c = c"
  by (auto simp: input_calls_def prompt_event_def)

lemma read_hidden_line_result:
  assumes "length input = PASSWORD_INPUT_BUFFER_SIZE"
    and "read_hidden_line k p (AUTH_PASSWORD_MAX + 1) input st f tr = (rc, p', input', f', tr')"
  shows "input' = zeros PASSWORD_INPUT_BUFFER_SIZE"
    and "if rc = 0 then \<exists>l. input_line AUTH_PASSWORD_MAX f = Some l \<and> p' = store p 0 (l @ [NUL])
      else rc = -1 \<and> p' = p"
    and "input_line AUTH_PASSWORD_MAX f \<noteq> None \<Longrightarrow> \<forall>tr. \<not> k_flag k tr \<Longrightarrow>
      \<forall>tr t. k_tcsetattr k tr t = None \<Longrightarrow> rc = 0"
    and "es_restore_required st \<Longrightarrow> es_original st = Some t \<Longrightarrow>
      \<exists>ev c r. tr' = tr @ ev \<and> list_all prompt_event ev \<and> input_calls c \<and>
        filter echo_call ev = c @ [Tcsetattr t r]"
    and "\<not> es_restore_required st \<Longrightarrow>
      \<exists>ev. tr' = tr @ ev \<and> list_all prompt_event ev \<and> input_calls (filter echo_call ev)"
proof (atomize (full), goal_cases)
  case 1
  obtain failed long b f1 t1 where tl: "take_password_line input f tr = (failed, long, b, f1, t1)"
    using prod_cases5 by blast
  obtain rs t2 where rs: "restore_terminal_echo k st t1 = (rs, t2)"
    by fastforce
  note T = take_password_line_result [OF assms(1) tl]
  from T(4) obtain c where c: "t1 = tr @ c" "input_calls c"
    by blast
  note R = restore_terminal_echo_result [OF rs]
  have ev: "\<exists>ev. tr' = t2 @ ev \<and> list_all prompt_event ev \<and> filter echo_call ev = []"
    using assms(2) tl rs
    by (auto simp: read_hidden_line_def sys_defs perror_def Let_def prompt_event_def split: if_splits)
  have clear: "input' = zeros PASSWORD_INPUT_BUFFER_SIZE"
    using assms(2) tl rs T(1)
    by (auto simp: read_hidden_line_def sys_defs perror_def Let_def split: if_splits)
  have sound: "if rc = 0 then \<exists>l. input_line AUTH_PASSWORD_MAX f = Some l \<and> p' = store p 0 (l @ [NUL])
      else rc = -1 \<and> p' = p"
    using assms(2) tl rs T(3)
    by (cases "input_line AUTH_PASSWORD_MAX f")
       (auto simp: read_hidden_line_def sys_defs perror_def Let_def simp del: store_0 split: if_splits)
  have full: "rc = 0" if "input_line AUTH_PASSWORD_MAX f \<noteq> None" "\<forall>tr. \<not> k_flag k tr"
    "\<forall>tr t. k_tcsetattr k tr t = None"
  proof -
    have "rs = 0"
      using rs that(3) by (auto simp: restore_terminal_echo_def sys_defs split: bool.splits option.splits)
    with assms(2) tl rs T(2,3) that show ?thesis
      by (auto simp: read_hidden_line_def sys_defs Let_def split: if_splits)
  qed
  obtain ev0 where ev0: "tr' = t2 @ ev0" "list_all prompt_event ev0" "filter echo_call ev0 = []"
    using ev by blast
  note C = input_calls_events [OF c(2)]
  have on: "\<exists>ev c r. tr' = tr @ ev \<and> list_all prompt_event ev \<and> input_calls c \<and>
      filter echo_call ev = c @ [Tcsetattr t r]"
    if "es_restore_required st" "es_original st = Some t"
  proof -
    from R that obtain ev1 where "t2 = t1 @ Tcsetattr t (k_tcsetattr k t1 t) # ev1"
        "filter echo_call ev1 = []" "list_all prompt_event ev1"
      by blast
    with ev0 c C show ?thesis
      by (intro exI [of _ "c @ Tcsetattr t (k_tcsetattr k t1 t) # ev1 @ ev0"] exI [of _ c]
            exI [of _ "k_tcsetattr k t1 t"]) (simp add: prompt_event_def)
  qed
  have off: "\<exists>ev. tr' = tr @ ev \<and> list_all prompt_event ev \<and> input_calls (filter echo_call ev)"
    if "\<not> es_restore_required st"
    using R that ev0 c C by (intro exI [of _ "c @ ev0"]) simp
  show ?case
    by (intro conjI impI clear sound full on off)
qed

lemma hidden_input_simps:
  "hidden_input []"
  "input_calls c \<Longrightarrow> hidden_input (Isatty False # c)"
  "input_calls c \<Longrightarrow> hidden_input (Isatty True # Tcgetattr (Inr t) #
     Tcsetattr (hidden_attributes t) None # c @ [Tcsetattr t r])"
  by (auto simp: hidden_input_def)

lemma read_password_result:
  assumes "read_password k p (AUTH_PASSWORD_MAX + 1) f tr = (rc, p', input', f', tr')"
  shows "input' = zeros PASSWORD_INPUT_BUFFER_SIZE"
    and "if rc = 0 then \<exists>l. input_line AUTH_PASSWORD_MAX f = Some l \<and> p' = store p 0 (l @ [NUL])
      else rc = -1 \<and> p' = p"
    and "input_line AUTH_PASSWORD_MAX f \<noteq> None \<Longrightarrow> \<forall>tr. \<not> k_flag k tr \<Longrightarrow>
      \<forall>tr t. k_tcsetattr k tr t = None \<Longrightarrow> \<forall>tr. \<exists>t. k_tcgetattr k tr = Inr t \<Longrightarrow> rc = 0"
    and "\<exists>ev. tr' = tr @ ev \<and> list_all prompt_event ev \<and> hidden_input (filter echo_call ev)"
proof (atomize (full), goal_cases)
  case 1
  let ?z = "zeros PASSWORD_INPUT_BUFFER_SIZE"
  show ?case
  proof (cases "k_flag k tr")
    case True
    with assms show ?thesis
      by (auto simp: read_password_def sys_defs Let_def prompt_event_def hidden_input_simps)
  next
    case False
    let ?t1 = "tr @ [ReadFlag False, OutText ''Password: '']"
    obtain ds st t2 where ds: "disable_terminal_echo k ?t1 = (ds, st, t2)"
      using prod_cases3 by blast
    have calm: "ds = 0" if set: "\<forall>tr t. k_tcsetattr k tr t = None" and get: "\<forall>tr. \<exists>t. k_tcgetattr k tr = Inr t"
    proof -
      obtain t where "k_tcgetattr k (?t1 @ [Isatty True]) = Inr t"
        using get by blast
      with ds set show ?thesis
        by (auto simp: disable_terminal_echo_def sys_defs Let_def split: if_splits)
    qed
    define stop where "stop = k_flag k t2"
    obtain rs t3 where rs: "restore_terminal_echo k st (t2 @ [ReadFlag stop]) = (rs, t3)"
      by fastforce
    obtain rc1 p1 i1 f1 t4 where
      rh: "read_hidden_line k p (AUTH_PASSWORD_MAX + 1) ?z st f (t2 @ [ReadFlag stop]) =
        (rc1, p1, i1, f1, t4)"
      using prod_cases5 by blast
    note R = restore_terminal_echo_result [OF rs] and H = read_hidden_line_result [OF length_zeros rh]
    have result: "(rc, p', input', tr') =
      (if ds \<noteq> 0 then (-1, p, secure_clear ?z PASSWORD_INPUT_BUFFER_SIZE, t2)
       else if stop
       then (-1, p, secure_clear ?z PASSWORD_INPUT_BUFFER_SIZE,
             t3 @ [OutText [LF], ErrOut ''Password input interrupted.''])
       else (rc1, p1, i1, t4))"
      using assms False ds rs rh
      by (auto simp: read_password_def sys_defs Let_def stop_def split: if_splits)
    have tr': "tr' = (if ds \<noteq> 0 then t2 else if stop
        then t3 @ [OutText [LF], ErrOut ''Password input interrupted.''] else t4)"
      and rc: "ds = 0 \<Longrightarrow> \<not> stop \<Longrightarrow> rc = rc1 \<and> p' = p1 \<and> input' = i1"
      and rc': "ds \<noteq> 0 \<or> stop \<Longrightarrow> rc = -1 \<and> p' = p \<and> input' = ?z"
      using result by (simp_all split: if_splits)
    have clear: "input' = ?z"
      using rc rc' H(1) by blast
    have sound: "if rc = 0 then \<exists>l. input_line AUTH_PASSWORD_MAX f = Some l \<and> p' = store p 0 (l @ [NUL])
      else rc = -1 \<and> p' = p"
      using rc rc' H(2) by (cases "ds = 0 \<and> \<not> stop") auto
    have full: "rc = 0" if "input_line AUTH_PASSWORD_MAX f \<noteq> None" "\<forall>tr. \<not> k_flag k tr"
      "\<forall>tr t. k_tcsetattr k tr t = None" "\<forall>tr. \<exists>t. k_tcgetattr k tr = Inr t"
      using rc calm [OF that(3,4)] H(3) [OF that(1-3)] that(2) by (simp add: stop_def)
    have events: "\<exists>ev. tr' = tr @ ev \<and> list_all prompt_event ev \<and> hidden_input (filter echo_call ev)"
      using ds
    proof (cases rule: disable_terminal_echo_result)
      case off
      from H(5) [OF off(2)] obtain ev where "t4 = (t2 @ [ReadFlag stop]) @ ev" "list_all prompt_event ev"
          "input_calls (filter echo_call ev)"
        by blast
      with off tr' R show ?thesis
        by (cases stop) (auto simp: prompt_event_def hidden_input_simps input_calls_def)
    next
      case (hidden t)
      from H(4) [OF hidden(2,3)] obtain ev c r where t4: "t4 = (t2 @ [ReadFlag stop]) @ ev"
          "list_all prompt_event ev" "input_calls c" "filter echo_call ev = c @ [Tcsetattr t r]"
        by blast
      from R hidden(2,3) obtain ev' where t3: "t3 = (t2 @ [ReadFlag stop]) @
          Tcsetattr t (k_tcsetattr k (t2 @ [ReadFlag stop]) t) # ev'"
          "filter echo_call ev' = []" "list_all prompt_event ev'"
        by blast
      have none: "input_calls []"
        by (simp add: input_calls_def)
      show ?thesis
      proof (cases stop)
        case True
        with t3 hidden tr' hidden_input_simps(3) [OF none] show ?thesis
          by (auto simp: prompt_event_def)
      next
        case False
        with t4 hidden tr' show ?thesis
          by (auto simp: prompt_event_def intro: hidden_input_simps)
      qed
    next
      case (failed calls)
      then show ?thesis
        using tr' by (auto simp: prompt_event_def)
    qed
    show ?thesis
      by (intro conjI impI clear sound full events)
  qed
qed

subsection \<open>The exchange and the whole program\<close>

lemma prompt_event_quiet:
  "prompt_event e \<Longrightarrow> socket_neutral e" "prompt_event e \<Longrightarrow> \<not> transfer_event e"
  by (cases e; simp add: prompt_event_def transfer_event_def)+

lemma clear_request_zero: "wf_request r \<Longrightarrow> clear_request r = zero_request"
  by (simp add: clear_request_def request_of_zeros)

lemma connect_to_backend_result:
  assumes "connect_to_backend k tr = (fd, tr')"
  shows "open_fds tr' = (if 0 \<le> fd then fd # open_fds tr else open_fds tr)"
    and "extends (\<lambda>e. \<not> transfer_event e) tr tr'"
    and "0 \<le> fd \<Longrightarrow> Connect fd AUTH_SOCKET_PATH None \<in> set tr'"
  using assms AUTH_SOCKET_PATH_fits
  by (cases "k_socket k tr";
      auto simp: connect_to_backend_def sys_defs perror_def Let_def open_fds_append transfer_event_def
      split: option.splits if_splits)+

lemma loop_neutral:
  "extends (read_event d) tr tr' \<Longrightarrow> open_fds tr' = open_fds tr"
  "extends (write_event d) tr tr' \<Longrightarrow> open_fds tr' = open_fds tr"
proof -
  have "read_event d e \<Longrightarrow> socket_neutral e" "write_event d e \<Longrightarrow> socket_neutral e" for e
    by (cases e; simp)+
  then show "extends (read_event d) tr tr' \<Longrightarrow> open_fds tr' = open_fds tr"
    "extends (write_event d) tr tr' \<Longrightarrow> open_fds tr' = open_fds tr"
    by (blast intro: extends_neutral extends_mono)+
qed

lemma exchange_cleanup_result:
  assumes "exchange_cleanup k fd result request response tr = (rc, request', response', tr')"
    and "wf_request request"
  shows "request' = zero_request \<and> response' = response \<and> (rc = result \<or> rc = -1) \<and>
    open_fds tr' = remove1 fd (open_fds tr) \<and> extends (\<lambda>e. \<not> transfer_event e) tr tr'"
  using assms
  by (auto simp: exchange_cleanup_def sys_defs perror_def Let_def clear_request_zero open_fds_append
      transfer_event_def split: option.splits)

text \<open>The outcome of an exchange that started with a request of the right size.\<close>

definition exchanged ::
    "AuthRequest \<Rightarrow> auth_trace \<Rightarrow> int \<times> AuthRequest \<times> buffer \<times> auth_trace \<Rightarrow> bool" where
  "exchanged request tr res \<longleftrightarrow>
     (case res of (rc, request', response', tr') \<Rightarrow>
        request' = zero_request \<and> length response' = sizeof_response \<and>
        open_fds tr' = open_fds tr \<and> (rc = 0 \<or> rc = -1) \<and>
        (rc = 0 \<longrightarrow> (\<exists>d. Connect d AUTH_SOCKET_PATH None \<in> set tr' \<and>
           bytes_written d tr' = bytes_written d tr @ request_bytes request \<and>
           bytes_read d tr' = bytes_read d tr @ response')))"

lemma exchange_auth_request_result:
  assumes "exchange_auth_request k request response tr = Some res"
    and "wf_request request" and "length response = sizeof_response"
  shows "exchanged request tr res"
proof (cases "k_flag k tr")
  case True
  with assms show ?thesis
    by (auto simp: exchange_auth_request_def sys_defs exchanged_def clear_request_zero open_fds_append)
next
  case False
  let ?t0 = "tr @ [ReadFlag False]"
  obtain fd t1 where c: "connect_to_backend k ?t0 = (fd, t1)"
    by fastforce
  note C = connect_to_backend_result [OF c]
  have t0: "open_fds ?t0 = open_fds tr" "bytes_written d ?t0 = bytes_written d tr"
      "bytes_read d ?t0 = bytes_read d tr" for d
    by (simp_all add: open_fds_append)
  have zero: "wf_request (clear_request request)" "clear_request request = zero_request"
    using assms(2) by (simp_all add: clear_request_zero)
  show ?thesis
  proof (cases "fd < 0")
    case True
    with assms False c C t0 zero show ?thesis
      by (auto simp: exchange_auth_request_def sys_defs exchanged_def)
  next
    case fd: False
    with assms(1) False c obtain sent t2 where
      w: "frontend_write_all k fd (request_bytes request) t1 = Some (sent, t2)"
      by (auto simp: exchange_auth_request_def sys_defs Let_def Option.bind_eq_Some_conv)
    note W = fwriter.write_whole [OF w]
    show ?thesis
    proof (cases "sent = 0")
      case unsent: False
      have "Some res = Some (exchange_cleanup k fd (-1) (clear_request request) response t2)"
        using assms(1) False c fd w unsent by (simp add: exchange_auth_request_def sys_defs Let_def)
      with exchange_cleanup_result [of k fd "-1" "clear_request request" response t2] zero
      show ?thesis
        using C(1) W fd t0 assms(3) loop_neutral(2) [of fd t1 t2]
        by (cases res) (auto simp: exchanged_def)
    next
      case sent: True
      with assms(1) False c fd w obtain rcv resp t3 where
        r: "frontend_read_all k fd response 0 sizeof_response t2 = Some (rcv, resp, t3)"
        by (auto simp: exchange_auth_request_def sys_defs Let_def Option.bind_eq_Some_conv)
      note R = freader.read_whole_buffer [of k fd response, unfolded assms(3), OF r]
      obtain rc request' response' tr' where res: "res = (rc, request', response', tr')"
        using prod_cases4 by blast
      have "exchange_cleanup k fd (if rcv \<noteq> 0 then -1 else 0) (clear_request request) resp t3 = res"
        using assms(1) False c fd w sent r by (simp add: exchange_auth_request_def sys_defs Let_def)
      note X = exchange_cleanup_result [OF this [unfolded res] zero(1)]
      have fds: "open_fds tr' = open_fds tr"
        using X R W C(1) fd t0(1) loop_neutral(2) [of fd t1 t2] loop_neutral(1) [of fd t2 t3] by simp
      have sets: "Connect fd AUTH_SOCKET_PATH None \<in> set tr'"
        using C(3) fd W R X by (auto elim!: extendsE)
      have quiet: "bytes_written fd tr' = bytes_written fd t3" "bytes_read fd tr' = bytes_read fd t3"
          "bytes_written fd t1 = bytes_written fd ?t0" "bytes_read fd t1 = bytes_read fd ?t0"
        using X C(2) no_transfer_bytes by blast+
      have loops: "bytes_written fd t3 = bytes_written fd t2" "bytes_read fd t2 = bytes_read fd t1"
        using W R read_loop_writes_nothing [of fd t2 t3 fd] write_loop_reads_nothing [of fd t1 t2 fd]
        by simp_all
      have "rc = 0 \<Longrightarrow> rcv = 0"
        using X by (auto split: if_splits)
      then show ?thesis
        unfolding exchanged_def res prod.case
        using X fds sets quiet loops R W sent t0 by auto
    qed
  qed
qed

text \<open>The responses that mean success.\<close>

definition accepting :: "AuthResponse \<Rightarrow> bool" where
  "accepting r \<longleftrightarrow> NUL \<in> set (rs_message r) \<and> rs_version r = AUTH_PROTOCOL_VERSION \<and>
     rs_result r = result_code AUTH_RESULT_SUCCESS"

lemma report_response_result:
  assumes "report_response bytes tr = (code, tr')" and "length bytes = sizeof_response"
  shows "code = (if accepting (response_of_bytes bytes) then 0 else 1)"
    and "\<exists>e. tr' = tr @ [e] \<and> prompt_event e"
proof -
  have "length (rs_message (response_of_bytes bytes)) = 129"
    using wf_response_of_bytes [OF assms(2)] by (simp add: wf_response_def)
  then have "memchr (rs_message (response_of_bytes bytes)) NUL 129 = None \<longleftrightarrow>
      NUL \<notin> set (rs_message (response_of_bytes bytes))"
    by (simp add: memchr_def index_of_eq)
  with assms(1) show "code = (if accepting (response_of_bytes bytes) then 0 else 1)"
    "\<exists>e. tr' = tr @ [e] \<and> prompt_event e"
    by (auto simp: report_response_def accepting_def sys_defs Let_def prompt_event_def split: if_splits)
qed

text \<open>The two lines that the user types, and the outcome of a whole run on them.\<close>

definition typed :: "stream \<Rightarrow> string \<Rightarrow> string \<Rightarrow> bool" where
  "typed f u p \<longleftrightarrow> input_line AUTH_USERNAME_MAX f = Some u \<and>
     input_line AUTH_PASSWORD_MAX (f\<lparr>rest := drop (length u + 1) (rest f)\<rparr>) = Some p"

definition authenticated :: "stream \<Rightarrow> auth_trace \<Rightarrow> bool" where
  "authenticated f tr \<longleftrightarrow>
     (\<exists>u p d bs. typed f u p \<and> Connect d AUTH_SOCKET_PATH None \<in> set tr \<and>
        bytes_written d tr = request_bytes (request_for u p) \<and>
        bytes_read d tr = bs \<and> length bs = sizeof_response \<and> accepting (response_of_bytes bs))"

lemma initial_request_simps:
  "wf_request initial_request"
  "initial_request\<lparr>rq_username := store (rq_username initial_request) 0 (u @ [NUL]),
     rq_password := store (rq_password initial_request) 0 (p @ [NUL])\<rparr> = request_for u p"
  by (simp_all add: initial_request_def request_for_def wf_request_def zero_request_def)

lemma wf_request_update:
  "wf_request r \<Longrightarrow> length s + 1 \<le> 65 \<Longrightarrow> wf_request (r\<lparr>rq_username := store (rq_username r) 0 (s @ [NUL])\<rparr>)"
  "wf_request r \<Longrightarrow> length s + 1 \<le> 129 \<Longrightarrow> wf_request (r\<lparr>rq_password := store (rq_password r) 0 (s @ [NUL])\<rparr>)"
  by (simp_all add: wf_request_def)

lemma install_frontend_signal_handlers_events:
  assumes "install_frontend_signal_handlers k tr = (rc, tr')"
  shows "extends prompt_event tr tr'"
  using assms
  by (auto simp: install_frontend_signal_handlers_def sys_defs perror_def Let_def prompt_event_def
      split: option.splits if_splits)

lemma prompt_trace:
  assumes "extends prompt_event [] tr"
  shows "open_fds tr = []" and "bytes_written d tr = []" and "bytes_read d tr = []"
  using extends_neutral(1) [OF extends_mono [OF assms prompt_event_quiet(1)]]
    no_transfer_bytes [OF extends_mono [OF assms prompt_event_quiet(2)]]
  by (simp_all add: open_fds_def)

lemma frontend_run_result:
  assumes "frontend_run k f [] = Some (code, request, response, tr')"
  shows "wf_request request \<and> length response = sizeof_response \<and> open_fds tr' = [] \<and>
    (code = 0 \<or> code = 1) \<and> (code = 0 \<longrightarrow> authenticated f tr')"
proof -
  obtain rc1 t1 where 1: "install_frontend_signal_handlers k [] = (rc1, t1)"
    by fastforce
  obtain rc2 u f2 t2 where
    2: "read_username k (rq_username initial_request) (AUTH_USERNAME_MAX + 1) f t1 = (rc2, u, f2, t2)"
    using prod_cases4 by blast
  obtain rc3 p inp f3 t3 where
    3: "read_password k (rq_password initial_request) (AUTH_PASSWORD_MAX + 1) f2 t2 = (rc3, p, inp, f3, t3)"
    using prod_cases5 by blast
  let ?r2 = "initial_request\<lparr>rq_username := u\<rparr>" and ?r3 = "initial_request\<lparr>rq_username := u, rq_password := p\<rparr>"
  have pw: "rq_password ?r2 = rq_password initial_request"
    by simp
  have e1: "extends prompt_event [] t1"
    using install_frontend_signal_handlers_events [OF 1] .
  have e2: "extends prompt_event [] t2"
    using e1 read_username_events [OF 2] by (rule extends_trans)
  have e3: "extends prompt_event [] t3"
    using e2 read_password_result(4) [OF 3] by (auto elim: extendsE simp: extends_def)
  note U = read_username_result [OF 2] and P = read_password_result(2) [OF 3]
  have early: ?thesis
    if "code = 1" "response = zeros sizeof_response" "extends prompt_event [] tr'" "wf_request request"
    using that prompt_trace(1) by simp
  have wf2: "wf_request ?r2"
    using U initial_request_simps(1)
    by (auto simp: input_line_def Let_def intro!: wf_request_update simp del: store_0
        split: option.splits if_splits)
  have wf3: "wf_request ?r3"
    using P wf2 wf_request_update(2) [OF wf2]
    by (auto simp: input_line_def Let_def simp del: store_0 split: if_splits)
  show ?thesis
  proof (cases "rc1 = 0 \<and> rc2 = 0 \<and> rc3 = 0")
    case False
    then have "code = 1 \<and> response = zeros sizeof_response \<and>
        (request, tr') \<in> {(initial_request, t1), (?r2, t2), (?r3, t3)}"
      using assms 1 2 3 pw by (auto simp: frontend_run_def Let_def split: if_splits)
    then show ?thesis
      using early e1 e2 e3 wf2 wf3 initial_request_simps(1) by auto
  next
    case True
    with assms 1 2 3 obtain res where
      x: "exchange_auth_request k ?r3 (zeros sizeof_response) t3 = Some res"
      by (auto simp: frontend_run_def Let_def Option.bind_eq_Some_conv)
    obtain rc4 rq rs t4 where res: "res = (rc4, rq, rs, t4)"
      using prod_cases4 by blast
    note X = exchange_auth_request_result [OF x [unfolded res] wf3 length_zeros, unfolded exchanged_def prod.case]
    have rest: "request = rq" "response = rs"
      "(code, tr') = (if rc4 = 0 then report_response rs t4 else (1, t4))"
      using assms 1 2 3 True x res by (auto simp: frontend_run_def Let_def split: if_splits prod.splits)
    show ?thesis
    proof (cases "rc4 = 0")
      case False
      with X rest show ?thesis
        using prompt_trace(1) [OF e3] by auto
    next
      case ok: True
      with rest(3) have rp: "report_response rs t4 = (code, tr')"
        by simp
      from X have "length rs = sizeof_response"
        by simp
      note RP = report_response_result [OF rp this]
      have quiet: "bytes_written d tr' = bytes_written d t4" "bytes_read d tr' = bytes_read d t4"
        "open_fds tr' = open_fds t4" "set t4 \<subseteq> set tr'" for d
      proof -
        from RP(2) obtain e where e: "tr' = t4 @ [e]" "prompt_event e"
          by blast
        then have "extends prompt_event t4 tr'"
          by simp
        then show "bytes_written d tr' = bytes_written d t4" "bytes_read d tr' = bytes_read d t4"
          "open_fds tr' = open_fds t4"
          using no_transfer_bytes [OF extends_mono [OF _ prompt_event_quiet(2)]]
            extends_neutral(1) [OF extends_mono [OF _ prompt_event_quiet(1)]] by blast+
        show "set t4 \<subseteq> set tr'"
          using e(1) by auto
      qed
      obtain l where l: "input_line AUTH_USERNAME_MAX f = Some l"
          "u = store (rq_username initial_request) 0 (l @ [NUL])"
          "f2 = f\<lparr>rest := drop (length l + 1) (rest f)\<rparr>"
        using U True by (auto simp del: store_0 split: option.splits if_splits)
      obtain l' where l': "input_line AUTH_PASSWORD_MAX f2 = Some l'"
          "p = store (rq_password initial_request) 0 (l' @ [NUL])"
        using P True by (auto simp del: store_0)
      have r3: "?r3 = request_for l l'"
        unfolding l(2) l'(2) by (rule initial_request_simps)
      obtain d where d: "Connect d AUTH_SOCKET_PATH None \<in> set t4"
          "bytes_written d t4 = request_bytes (request_for l l')" "bytes_read d t4 = rs"
        using X ok prompt_trace(2,3) [OF e3] unfolding r3 by auto
      have "typed f l l'"
        using l l' by (simp add: typed_def)
      then have "authenticated f tr'" if "accepting (response_of_bytes rs)"
        unfolding authenticated_def using d quiet that X
        by (intro exI [of _ l] exI [of _ l'] exI [of _ d] exI [of _ rs]) auto
      with RP(1) X rest(1,2) quiet(3) prompt_trace(1) [OF e3] show ?thesis
        by auto
    qed
  qed
qed

lemma frontend_main_result:
  assumes "frontend_main k f [] = Some (code, request, response, tr')"
  shows "request = zero_request \<and> response = zeros sizeof_response \<and> open_fds tr' = [] \<and>
    (code = 0 \<or> code = 1) \<and> (code = 0 \<longrightarrow> authenticated f tr')"
proof -
  from assms obtain rq rs where r: "frontend_run k f [] = Some (code, rq, rs, tr')"
      "request = clear_request rq" "response = secure_clear rs sizeof_response"
    unfolding frontend_main_def by (cases "frontend_run k f []") auto
  with frontend_run_result [OF r(1)] show ?thesis
    by (simp add: clear_request_zero)
qed

lemma frontend_main_returns_lemma:
  assumes "finite_interrupts b k"
  shows "frontend_main k f tr \<noteq> None"
proof -
  have ex: "exchange_auth_request k request response tr \<noteq> None" for request response tr
  proof (cases "k_flag k tr")
    case False
    obtain fd t1 where c: "connect_to_backend k (tr @ [ReadFlag False]) = (fd, t1)"
      by fastforce
    obtain sent t2 where w: "frontend_write_all k fd (request_bytes request) t1 = Some (sent, t2)"
      using assms by (rule fwriter.write_all_total)
    obtain rc buf t3 where "frontend_read_all k fd response 0 sizeof_response t2 = Some (rc, buf, t3)"
      using assms by (rule freader.read_all_total)
    with False c w show ?thesis
      by (simp add: exchange_auth_request_def sys_defs Let_def del: not_None_eq)
  qed (simp add: exchange_auth_request_def sys_defs)
  obtain rc1 t1 where 1: "install_frontend_signal_handlers k tr = (rc1, t1)"
    by fastforce
  obtain rc2 u f2 t2 where
    2: "read_username k (rq_username initial_request) (AUTH_USERNAME_MAX + 1) f t1 = (rc2, u, f2, t2)"
    using prod_cases4 by blast
  obtain rc3 p inp f3 t3 where
    3: "read_password k (rq_password initial_request) (AUTH_PASSWORD_MAX + 1) f2 t2 = (rc3, p, inp, f3, t3)"
    using prod_cases5 by blast
  let ?r3 = "initial_request\<lparr>rq_username := u, rq_password := p\<rparr>"
  obtain rc4 rq rs t4 where "exchange_auth_request k ?r3 (zeros sizeof_response) t3 = Some (rc4, rq, rs, t4)"
    using ex [of ?r3 "zeros sizeof_response" t3] by (metis not_None_eq prod_cases4)
  with 1 2 3 have "frontend_run k f tr \<noteq> None"
    by (auto simp: frontend_run_def Let_def split: prod.splits)
  then show ?thesis
    by (auto simp: frontend_main_def)
qed

text \<open>
  A user at a terminal, and a backend that answers \<open>reply\<close>.
\<close>

definition demo_front :: "AuthResponse \<Rightarrow> auth_kernel" where
  "demo_front reply = demo_kernel
     \<lparr>k_isatty := \<lambda>_. True, k_tcgetattr := \<lambda>_. Inr \<lparr>c_lflag = ECHO, c_other = 0\<rparr>,
      k_read := \<lambda>_ _ _. Inr (response_bytes reply)\<rparr>"

definition demo_typing :: stream where
  "demo_typing = open_stream (''demo_user'' @ LF # ''demo_password'' @ LF # []) None"

lemma demo_front_simps [simp]:
  "\<not> k_flag (demo_front reply) tr" "k_sigaction (demo_front reply) tr sg = None" "k_tcsetattr (demo_front reply) tr a = None"
  "k_tcgetattr (demo_front reply) tr = Inr \<lparr>c_lflag = ECHO, c_other = 0\<rparr>" "k_socket (demo_front reply) tr = Inr 3"
  "k_connect (demo_front reply) tr d p = None" "k_close (demo_front reply) tr d = None"
  "k_read (demo_front reply) tr d m = Inr (response_bytes reply)"
  "k_write (demo_front reply) tr d bs = Inr (length bs)"
  by (simp_all add: demo_front_def demo_kernel_def)

lemma demo_typed: "typed demo_typing ''demo_user'' ''demo_password''"
  by (simp add: typed_def demo_typing_def open_stream_def input_line_def)

lemma demo_frontend_run:
  assumes "wf_response reply" and "accepting reply"
  shows "\<exists>request response tf. frontend_main (demo_front reply) demo_typing [] = Some (0, request, response, tf) \<and>
    talks_on 3 tf \<and> bytes_written 3 tf = request_bytes demo_request \<and> bytes_read 3 tf = response_bytes reply"
proof -
  let ?k = "demo_front reply"
  let ?rs = "response_bytes reply"
  note ty = demo_typed [unfolded typed_def]
  obtain t1 where I: "install_frontend_signal_handlers ?k [] = (0, t1)"
    by (simp add: install_frontend_signal_handlers_def sys_defs Let_def)
  obtain rc2 u f2 t2 where U: "read_username ?k (rq_username initial_request) (AUTH_USERNAME_MAX + 1) demo_typing t1 =
      (rc2, u, f2, t2)" using prod_cases4 by blast
  have u: "rc2 = 0" "u = store (rq_username initial_request) 0 (''demo_user'' @ [NUL])"
      "f2 = demo_typing\<lparr>rest := drop (length ''demo_user'' + 1) (rest demo_typing)\<rparr>"
    using read_username_result [OF U] ty by simp_all
  obtain rc3 p inp f3 t3 where P: "read_password ?k (rq_password initial_request) (AUTH_PASSWORD_MAX + 1) f2 t2 =
      (rc3, p, inp, f3, t3)" using prod_cases5 by blast
  have i2: "input_line AUTH_PASSWORD_MAX f2 = Some ''demo_password''" using ty unfolding u(3) by blast
  have "rc3 = 0" using read_password_result(3) [OF P] i2 by simp
  then have p: "p = store (rq_password initial_request) 0 (''demo_password'' @ [NUL])"
    using read_password_result(2) [OF P] i2 by simp
  have rq: "initial_request\<lparr>rq_username := u, rq_password := p\<rparr> = demo_request"
    unfolding u(2) p by (rule initial_request_simps(2))
  have "extends prompt_event [] t3"
  proof -
    have "extends prompt_event [] t2"
      using extends_trans [OF install_frontend_signal_handlers_events [OF I] read_username_events [OF U]] .
    moreover have "extends prompt_event t2 t3" using read_password_result(4) [OF P] by (auto simp: extends_def)
    ultimately show ?thesis by (rule extends_trans)
  qed
  note quiet = prompt_trace(2,3) [OF this]
  let ?t4 = "t3 @ [ReadFlag False, Socket (Inr 3), Connect 3 AUTH_SOCKET_PATH None]"
  have C: "connect_to_backend ?k (t3 @ [ReadFlag False]) = (3, ?t4)"
    using AUTH_SOCKET_PATH_fits by (simp add: connect_to_backend_def sys_defs Let_def)
  have len: "length ?rs = sizeof_response" using assms(1) by (rule length_response_bytes)
  have "length ?rs \<noteq> 0" unfolding len by (simp add: sizeof_response_def)
  then have ne: "request_bytes demo_request \<noteq> []" "?rs \<noteq> []"
    using request_bytes_not_Nil [OF wf_demo_request] by (simp_all only: length_0_conv not_False_eq_True)
  let ?w = "Write 3 (request_bytes demo_request) (Inr (length (request_bytes demo_request)))"
  have W: "frontend_write_all ?k 3 (request_bytes demo_request) ?t4 = Some (0, ?t4 @ [?w])"
    by (rule frontend_write_whole [OF ne(1)]) simp
  have R: "frontend_read_all ?k 3 (zeros sizeof_response) 0 sizeof_response (?t4 @ [?w]) =
      Some (0, ?rs, (?t4 @ [?w]) @ [Read 3 sizeof_response (Inr ?rs)])"
    using frontend_read_whole [of ?rs ?k "?t4 @ [?w]" 3 "zeros sizeof_response", OF ne(2)] len by simp
  let ?t5 = "?t4 @ [?w, Read 3 sizeof_response (Inr ?rs), Close 3 None]"
  have E: "exchange_auth_request ?k demo_request (zeros sizeof_response) t3 =
      Some (0, clear_request (clear_request demo_request), ?rs, ?t5)"
    using C W R by (simp add: exchange_auth_request_def exchange_cleanup_def sys_defs Let_def)
  obtain e t6 where Q: "report_response ?rs ?t5 = (e, t6)" by fastforce
  obtain ev where t6: "t6 = ?t5 @ [ev]" "prompt_event ev" using report_response_result(2) [OF Q len] by blast
  have "accepting (response_of_bytes ?rs)" using assms by simp
  with report_response_result(1) [OF Q len] have "e = 0" by simp
  then have "frontend_run ?k demo_typing [] = Some (0, clear_request (clear_request demo_request), ?rs, t6)"
    using I U u(1) P \<open>rc3 = 0\<close> E Q rq by (simp add: frontend_run_def Let_def)
  then have "frontend_main ?k demo_typing [] = Some (0, clear_request (clear_request (clear_request demo_request)),
      secure_clear ?rs sizeof_response, t6)"
    by (simp add: frontend_main_def)
  moreover have "bytes_written d t6 = (if d = 3 then request_bytes demo_request else [])"
      "bytes_read d t6 = (if d = 3 then ?rs else [])" for d
    using quiet t6(2) by (auto simp: t6(1) bytes_read_def bytes_written_def prompt_event_def split: auth_event.splits)
  ultimately show ?thesis
    by (intro exI conjI) (assumption | simp add: talks_on_def)+
qed

subsection \<open>Properties\<close>

text \<open>
  C22: \<^verbatim>\<open>read_username\<close> accepts exactly the complete lines of 1 to 64 bytes without a null
  byte, when no signal was received before: then it returns 0, stores the line with its terminator
  and consumes that line of the input and nothing else. In every other case it returns -1 and leaves
  the destination untouched.
\<close>

theorem read_username_exact:
  assumes "read_username k u (AUTH_USERNAME_MAX + 1) f tr = (rc, u', f', tr')"
  shows "case (if k_flag k tr then None else input_line AUTH_USERNAME_MAX f) of
      Some l \<Rightarrow> rc = 0 \<and> u' = store u 0 (l @ [NUL]) \<and>
        f' = f\<lparr>rest := drop (length l + 1) (rest f)\<rparr>
    | None \<Rightarrow> rc = -1 \<and> u' = u"
  by (rule read_username_result [OF assms])

theorem read_username_exact_witness:
  "case read_username demo_kernel (zeros 65) (AUTH_USERNAME_MAX + 1)
     (open_stream (''bob'' @ [LF] @ ''pw'') None) [] of
     (rc, u', f', tr') \<Rightarrow> rc = 0 \<and> rest f' = ''pw''"
proof -
  let ?f = "open_stream (''bob'' @ [LF] @ ''pw'') None"
  obtain rc u' f' tr' where r: "read_username demo_kernel (zeros 65) (AUTH_USERNAME_MAX + 1) ?f [] =
      (rc, u', f', tr')"
    using prod_cases4 by blast
  have "input_line AUTH_USERNAME_MAX ?f = Some ''bob''" "\<not> k_flag demo_kernel []"
    by (simp_all add: input_line_def demo_kernel_def)
  with read_username_exact [OF r] show ?thesis
    unfolding r by simp
qed

text \<open>
  C10: \<^verbatim>\<open>read_password\<close> never reads a password from a terminal whose echo it has not switched
  off, puts the original attributes back on every path after that, whatever fails and whichever
  signal arrives, and leaves its local copy of the password cleared. It succeeds only on a complete
  line of 1 to 128 bytes without a null byte, which it then stores; otherwise it returns -1 and
  leaves the destination untouched.
\<close>

theorem read_password_hidden:
  assumes "read_password k p (AUTH_PASSWORD_MAX + 1) f tr = (rc, p', input', f', tr')"
  shows "(\<exists>ev. tr' = tr @ ev \<and> hidden_input (filter echo_call ev)) \<and>
    input' = zeros PASSWORD_INPUT_BUFFER_SIZE \<and>
    (if rc = 0 then \<exists>l. input_line AUTH_PASSWORD_MAX f = Some l \<and> p' = store p 0 (l @ [NUL])
     else rc = -1 \<and> p' = p)"
  using read_password_result(4) [OF assms]
  by (intro conjI read_password_result(1) [OF assms] read_password_result(2) [OF assms]) blast

theorem read_password_hidden_witness:
  "hidden_input (filter echo_call (snd (snd (snd (snd
     (read_password (demo_kernel\<lparr>k_isatty := \<lambda>_. True, k_tcgetattr := \<lambda>_. Inr \<lparr>c_lflag = 0x8a3b, c_other = 0\<rparr>\<rparr>)
        (zeros 129) (AUTH_PASSWORD_MAX + 1) (open_stream (''secret'' @ [LF]) None) []))))))"
proof -
  let ?k = "demo_kernel\<lparr>k_isatty := \<lambda>_. True, k_tcgetattr := \<lambda>_. Inr \<lparr>c_lflag = 0x8a3b, c_other = 0\<rparr>\<rparr>"
  obtain rc p' i' f' tr' where r: "read_password ?k (zeros 129) (AUTH_PASSWORD_MAX + 1)
      (open_stream (''secret'' @ [LF]) None) [] = (rc, p', i', f', tr')"
    using prod_cases5 by blast
  from read_password_hidden [OF r] show ?thesis
    unfolding r by simp
qed

text \<open>
  C15: \<^verbatim>\<open>exchange_auth_request\<close> leaves no copy of the request behind and no descriptor open,
  on every path. When it returns 0, it has connected to the backend's path, sent exactly the bytes of
  the request over that connection and filled the response with exactly the bytes received there.
\<close>

theorem exchange_auth_request_exact:
  assumes "exchange_auth_request k request response tr = Some (rc, request', response', tr')"
    and "wf_request request" and "length response = sizeof_response"
  shows "request' = zero_request \<and> length response' = sizeof_response \<and>
    open_fds tr' = open_fds tr \<and> (rc = 0 \<or> rc = -1) \<and>
    (rc = 0 \<longrightarrow> (\<exists>d. Connect d AUTH_SOCKET_PATH None \<in> set tr' \<and>
       bytes_written d tr' = bytes_written d tr @ request_bytes request \<and>
       bytes_read d tr' = bytes_read d tr @ response'))"
  using exchange_auth_request_result [OF assms] by (simp add: exchanged_def)

theorem exchange_auth_request_exact_witness:
  "\<exists>rc response' tr'. exchange_auth_request (demo_kernel\<lparr>k_flag := \<lambda>_. True\<rparr>) (request_for ''a'' ''b'')
     (zeros sizeof_response) [] = Some (rc, zero_request, response', tr') \<and> open_fds tr' = []"
proof -
  let ?k = "demo_kernel\<lparr>k_flag := \<lambda>_. True\<rparr>"
  have e: "exchange_auth_request ?k (request_for ''a'' ''b'') (zeros sizeof_response) [] =
      Some (-1, clear_request (request_for ''a'' ''b''), zeros sizeof_response,
        [ReadFlag True, ErrOut ''Authentication request cancelled.''])"
    by (simp add: exchange_auth_request_def sys_defs)
  have "wf_request (request_for ''a'' ''b'')"
    by simp
  from exchange_auth_request_exact [OF e this length_zeros] e show ?thesis
    by (auto simp: open_fds_def)
qed

text \<open>
  C7: \<^verbatim>\<open>main\<close> of the frontend exits with 0 only when it was authenticated: the user typed a
  name and a password that the prompts accept, exactly the request for these two strings went to the
  backend's socket, and the whole response that came back has the right version, a terminated message
  and the result \<^verbatim>\<open>AUTH_RESULT_SUCCESS\<close>. On every path request and response are cleared, no
  descriptor stays open and the exit code is 0 or 1.
\<close>

theorem frontend_main_authenticated:
  assumes "frontend_main k f [] = Some (code, request, response, tr')"
  shows "(code = 0 \<longrightarrow> authenticated f tr') \<and> (code = 0 \<or> code = 1) \<and>
    request = zero_request \<and> response = zeros sizeof_response \<and> open_fds tr' = []"
  using frontend_main_result [OF assms] by blast

theorem frontend_main_authenticated_witness:
  "\<exists>reply request response tr'. frontend_main (demo_front reply) demo_typing [] = Some (0, request, response, tr') \<and>
     authenticated demo_typing tr' \<and> request = zero_request"
proof -
  let ?reply = "\<lparr>rs_version = 1, rs_result = 0, rs_error_code = 0, rs_message = zeros 129\<rparr>"
  have "wf_response ?reply" "accepting ?reply"
    by (simp_all add: wf_response_def accepting_def zeros_def)
  then obtain request response tr' where
    r: "frontend_main (demo_front ?reply) demo_typing [] = Some (0, request, response, tr')"
    using demo_frontend_run by blast
  with frontend_main_authenticated [OF r] show ?thesis
    by blast
qed



end
