(* ===== verification/Backend_Credential.thy ===== *)
theory Backend_Credential
  imports Secure_Memory Auth_Protocol Auth_OS
begin

text \<open>
  \<^verbatim>\<open>Authentication/Backend.c\<close>, first part: where the backend finds its credential file and
  how it reads the one account from it. \<open>load_demo_credential\<close> is refined against
  \<open>account_of_lines\<close>, a specification on the lines of the file.
\<close>

definition CREDENTIALS_FILE_NAME :: string where
  "CREDENTIALS_FILE_NAME = ''credentials.demo''"

definition CREDENTIAL_LINE_MAX :: nat where
  "CREDENTIAL_LINE_MAX = AUTH_USERNAME_MAX + AUTH_PASSWORD_MAX + 4"

record DemoCredential =
  cred_username :: buffer
  cred_password :: buffer

definition zero_credential :: DemoCredential where
  "zero_credential = \<lparr>cred_username = zeros (AUTH_USERNAME_MAX + 1),
     cred_password = zeros (AUTH_PASSWORD_MAX + 1)\<rparr>"

text \<open>\<^verbatim>\<open>secure_clear(&credential, sizeof(credential))\<close>; the struct has no padding.\<close>

definition clear_credential :: "DemoCredential \<Rightarrow> DemoCredential" where
  "clear_credential c =
     \<lparr>cred_username = secure_clear (cred_username c) (length (cred_username c)),
      cred_password = secure_clear (cred_password c) (length (cred_password c))\<rparr>"

subsection \<open>The credential path\<close>

definition resolve_demo_credential_path ::
    "auth_kernel \<Rightarrow> buffer \<Rightarrow> nat \<Rightarrow> auth_trace \<Rightarrow> int \<times> buffer \<times> auth_trace" where
  "resolve_demo_credential_path k path path_size tr =
     (case sys_readlink k ''/proc/self/exe'' (path_size - 1) tr of
        (Inl e, tr) \<Rightarrow>
          (-1, path, out (''[backend] unable to resolve /proc/self/exe: '' @ k_strerror k e) tr)
      | (Inr name, tr) \<Rightarrow>
          let path = store path 0 name in
          if path_size - 1 \<le> length name
          then (-1, path, out ''[backend] backend executable path is too long'' tr)
          else
            let path = path[length name := NUL] in
            case strrchr path CHR ''/'' of
              None \<Rightarrow> (-1, path, out ''[backend] invalid backend executable path'' tr)
            | Some executable_separator \<Rightarrow>
                let path = path[executable_separator := NUL] in
                case strrchr path CHR ''/'' of
                  None \<Rightarrow> (-1, path, out ''[backend] unable to locate authentication directory'' tr)
                | Some build_separator \<Rightarrow>
                    let start = build_separator + 1; remaining = path_size - start in
                    if remaining < length CREDENTIALS_FILE_NAME + 1
                    then (-1, path, out ''[backend] demo credential path is too long'' tr)
                    else (0, store path start (CREDENTIALS_FILE_NAME @ [NUL]), tr))"

subsection \<open>The credential file\<close>

function discard_remaining_file_line :: "stream \<Rightarrow> stream" where
  "discard_remaining_file_line f =
     (case fgetc f of
        (None, f') \<Rightarrow> f'
      | (Some ch, f') \<Rightarrow> if ch = LF then f' else discard_remaining_file_line f')"
  by pat_completeness auto
termination
  by (relation "measure (\<lambda>f. length (rest f))") (auto simp: fgetc_def split: list.splits)

declare discard_remaining_file_line.simps [simp del]

text \<open>
  What the body of the loop does with one line: the tests and the cuts, up to the copies into the
  credential. \<open>eof\<close> is \<^verbatim>\<open>feof(file)\<close> after the line was read. \<open>Account\<close> carries the index
  of the separator and the two lengths. The line comes back as the code leaves it.
\<close>

datatype line_action = Too_Long | Skip | Reject string | Account nat nat nat

definition credential_line :: "bool \<Rightarrow> bool \<Rightarrow> buffer \<Rightarrow> line_action \<times> buffer" where
  "credential_line eof found line =
     (let line_length = strcspn line [CR, LF] in
      if line ! line_length = NUL \<and> \<not> eof then (Too_Long, line)
      else
        let line = line[line_length := NUL] in
        if line ! 0 = NUL \<or> line ! 0 = CHR ''#'' then (Skip, line)
        else if found
        then (Reject ''[backend] demo credential file must contain one account'', line)
        else case strchr line CHR '':'' of
          None \<Rightarrow> (Reject ''[backend] invalid demo credential format'', line)
        | Some sep \<Rightarrow>
            if strchr (drop (sep + 1) line) CHR '':'' \<noteq> None
            then (Reject ''[backend] invalid demo credential format'', line)
            else
              let line = line[sep := NUL];
                  username_length = strlen line;
                  password_length = strlen (drop (sep + 1) line)
              in
              if username_length = 0 \<or> AUTH_USERNAME_MAX < username_length \<or>
                 password_length = 0 \<or> AUTH_PASSWORD_MAX < password_length
              then (Reject ''[backend] invalid demo credential lengths'', line)
              else (Account sep username_length password_length, line))"

text \<open>The two copies at the end of the body.\<close>

definition copy_account ::
    "DemoCredential \<Rightarrow> buffer \<Rightarrow> nat \<Rightarrow> nat \<Rightarrow> nat \<Rightarrow> DemoCredential" where
  "copy_account cred line sep username_length password_length =
     cred\<lparr>cred_username := store (cred_username cred) 0 (take (username_length + 1) line),
          cred_password := store (cred_password cred) 0
            (take (password_length + 1) (drop (sep + 1) line))\<rparr>"

text \<open>
  The loop over the lines. Its result says whether the loop ended because \<^verbatim>\<open>fgets\<close> returned a
  null pointer (\<open>True\<close>) or by \<^verbatim>\<open>goto cleanup\<close> (\<open>False\<close>), then
  \<^verbatim>\<open>found_credential\<close>, the credential, the line buffer, the stream and the trace.
\<close>

function load_lines ::
    "stream \<Rightarrow> buffer \<Rightarrow> DemoCredential \<Rightarrow> bool \<Rightarrow> auth_trace \<Rightarrow>
     bool \<times> bool \<times> DemoCredential \<times> buffer \<times> stream \<times> auth_trace" where
  "load_lines f line cred found tr =
     (case fgets line CREDENTIAL_LINE_MAX f of
        (None, f) \<Rightarrow> (True, found, cred, line, f, tr)
      | (Some line, f) \<Rightarrow>
          case credential_line (feof f) found line of
            (Too_Long, line) \<Rightarrow>
              (False, found, cred, line, discard_remaining_file_line f,
               out ''[backend] demo credential line is too long'' tr)
          | (Reject msg, line) \<Rightarrow> (False, found, cred, line, f, out msg tr)
          | (Skip, line) \<Rightarrow> load_lines f (secure_clear line CREDENTIAL_LINE_MAX) cred found tr
          | (Account sep ulen plen, line) \<Rightarrow>
              load_lines f (secure_clear line CREDENTIAL_LINE_MAX)
                (copy_account cred line sep ulen plen) True tr)"
  by pat_completeness auto
termination
  by (relation "measure (\<lambda>(f, line, cred, found, tr). length (rest f))")
     (auto dest: fgets_rest_less [OF sym])

declare load_lines.simps [simp del]

definition load_demo_credential ::
    "auth_kernel \<Rightarrow> string \<Rightarrow> auth_trace \<Rightarrow> int \<times> DemoCredential \<times> buffer \<times> auth_trace" where
  "load_demo_credential k path tr =
     (let cred = zero_credential; line = zeros CREDENTIAL_LINE_MAX in
      case sys_fopen k path tr of
        (Inl e, tr) \<Rightarrow>
          (-1, clear_credential cred, secure_clear line CREDENTIAL_LINE_MAX,
           out (''[backend] unable to open demo credential file '' @ path @ '': '' @ k_strerror k e) tr)
      | (Inr f, tr) \<Rightarrow>
          case load_lines f line cred False tr of
            (finished, found, cred, line, f, tr) \<Rightarrow>
              let (result, tr) =
                    (if \<not> finished then (-1 :: int, tr)
                     else if ferror f
                     then (-1, out (''[backend] error reading demo credential file: '' @
                                    (case fail f of Some e \<Rightarrow> k_strerror k e | None \<Rightarrow> [])) tr)
                     else if \<not> found
                     then (-1, out ''[backend] demo credential file contains no account'' tr)
                     else (0, out (''[backend] loaded demo credential account from '' @ path) tr));
                  (closed, tr) = sys_fclose k tr;
                  (result, tr) =
                    (case closed of
                       None \<Rightarrow> (result, tr)
                     | Some e \<Rightarrow>
                         (-1, out (''[backend] error closing demo credential file: '' @ k_strerror k e) tr))
              in (result, (if result \<noteq> 0 then clear_credential cred else cred),
                  secure_clear line CREDENTIAL_LINE_MAX, tr))"

subsection \<open>What the loop keeps\<close>

text \<open>A credential whose arrays have their sizes, and one that holds an account.\<close>

definition credential_sized :: "DemoCredential \<Rightarrow> bool" where
  "credential_sized c \<longleftrightarrow>
     length (cred_username c) = AUTH_USERNAME_MAX + 1 \<and>
     length (cred_password c) = AUTH_PASSWORD_MAX + 1"

definition wf_credential :: "DemoCredential \<Rightarrow> bool" where
  "wf_credential c \<longleftrightarrow>
     credential_sized c \<and> NUL \<in> set (cred_username c) \<and> NUL \<in> set (cred_password c) \<and>
     cstr (cred_username c) \<noteq> [] \<and> cstr (cred_password c) \<noteq> []"

lemma credential_line_buffer:
  assumes "credential_line eof found line = (act, line')" and "NUL \<in> set line"
  shows "length line' = length line" and "NUL \<in> set line'"
  using assms
  by (auto simp: credential_line_def Let_def NUL_in_update split: if_splits option.splits)

lemma credential_line_account:
  assumes "credential_line eof found line = (Account sep u p, line')" and "NUL \<in> set line"
  shows "\<not> found" and "u = strlen line'" and "p = strlen (drop (sep + 1) line')"
    and "0 < u" and "u \<le> AUTH_USERNAME_MAX" and "0 < p" and "p \<le> AUTH_PASSWORD_MAX"
    and "NUL \<in> set (drop (sep + 1) line')"
proof -
  from assms(1) show "\<not> found" "u = strlen line'" "p = strlen (drop (sep + 1) line')"
    "0 < u" "u \<le> AUTH_USERNAME_MAX" "0 < p" "p \<le> AUTH_PASSWORD_MAX"
    by (auto simp: credential_line_def Let_def split: if_splits option.splits)
  define m where "m = line[strcspn line [CR, LF] := NUL]"
  from assms(1) have sep: "strchr m CHR '':'' = Some sep" and line': "line' = m[sep := NUL]"
    by (auto simp: credential_line_def Let_def m_def split: if_splits option.splits)
  have "NUL \<in> set m"
    using assms(2) by (simp add: m_def NUL_in_update)
  then have "NUL \<in> set (drop (sep + 1) m)"
    using strchr_less [OF sep] by (intro NUL_in_drop) auto
  then show "NUL \<in> set (drop (sep + 1) line')"
    by (simp add: line')
qed

lemma copy_account_wf:
  assumes "credential_line eof found line = (Account sep u p, line')" and "NUL \<in> set line"
    and "credential_sized cred"
  shows "wf_credential (copy_account cred line' sep u p)"
    and "cstr (cred_username (copy_account cred line' sep u p)) = cstr line'"
    and "cstr (cred_password (copy_account cred line' sep u p)) = cstr (drop (sep + 1) line')"
proof -
  note a = credential_line_account [OF assms(1,2)]
  note b = credential_line_buffer [OF assms(1,2)]
  have u: "strlen line' < length (cred_username cred)"
    and p: "strlen (drop (sep + 1) line') < length (cred_password cred)"
    using a assms(3) by (auto simp: credential_sized_def)
  note c = store_cstr [OF b(2) u] and d = store_cstr [OF a(8) p]
  from c(3) show "cstr (cred_username (copy_account cred line' sep u p)) = cstr line'"
    by (simp add: copy_account_def a(2))
  moreover from d(3)
  show "cstr (cred_password (copy_account cred line' sep u p)) = cstr (drop (sep + 1) line')"
    by (simp add: copy_account_def a(3))
  moreover have "cstr line' \<noteq> []" "cstr (drop (sep + 1) line') \<noteq> []"
    using a(2-4,6) by (auto simp: strlen_def)
  ultimately show "wf_credential (copy_account cred line' sep u p)"
    using c(1,2) d(1,2) assms(3)
    by (simp add: wf_credential_def credential_sized_def copy_account_def a(2,3))
qed

lemma load_lines_inv:
  assumes "length line = CREDENTIAL_LINE_MAX" and "credential_sized cred"
    and "found \<Longrightarrow> wf_credential cred"
  shows "case load_lines f line cred found tr of (finished, found', cred', line', f', tr') \<Rightarrow>
    length line' = CREDENTIAL_LINE_MAX \<and> credential_sized cred' \<and> (found' \<longrightarrow> wf_credential cred')"
  using assms
proof (induction f line cred found tr rule: load_lines.induct)
  case (1 f line cred found tr)
  show ?case
  proof (cases "fst (fgets line CREDENTIAL_LINE_MAX f)")
    case None
    with 1(3-) show ?thesis
      by (cases "fgets line CREDENTIAL_LINE_MAX f") (simp add: load_lines.simps [of f])
  next
    case (Some l)
    then obtain g where fg: "fgets line CREDENTIAL_LINE_MAX f = (Some l, g)"
      by (cases "fgets line CREDENTIAL_LINE_MAX f") simp
    obtain act l' where cl: "credential_line (feof g) found l = (act, l')"
      by fastforce
    have l: "length l = CREDENTIAL_LINE_MAX" "NUL \<in> set l"
      using length_fgets [OF fg] fgets_terminated [OF fg] 1(3)
      by (simp_all add: CREDENTIAL_LINE_MAX_def)
    then have l': "length l' = CREDENTIAL_LINE_MAX"
      using credential_line_buffer [OF cl] by simp
    show ?thesis
    proof (cases act)
      case Too_Long
      with fg cl l' 1(3-) show ?thesis by (simp add: load_lines.simps [of f])
    next
      case (Reject m)
      with fg cl l' 1(3-) show ?thesis by (simp add: load_lines.simps [of f])
    next
      case Skip
      with fg cl l' 1(1) [OF fg [symmetric] refl cl [symmetric] Skip] 1(3-) show ?thesis
        by (simp add: load_lines.simps [of f])
    next
      case (Account sep u p)
      with copy_account_wf(1) [OF cl [unfolded Account] l(2) 1(4)]
        fg cl l' 1(2) [OF fg [symmetric] refl cl [symmetric] Account] 1(3-) show ?thesis
        by (simp add: load_lines.simps [of f] wf_credential_def)
    qed
  qed
qed

subsection \<open>The specification on lines\<close>

text \<open>
  What the file means, line by line: lines that are empty or start with a hash sign (after the cut
  at a carriage return) are ignored, and the others must be \<^verbatim>\<open>username:password\<close>. The file
  is good if exactly one line is not ignored and it is an account.
\<close>

datatype line_meaning = Ignored | Bad | User string string

definition meaning_of_line :: "string \<Rightarrow> line_meaning" where
  "meaning_of_line l =
     (let s = takeWhile (\<lambda>c. c \<noteq> CR) l;
          u = takeWhile (\<lambda>c. c \<noteq> CHR '':'') s;
          p = drop (length u + 1) s
      in if s = [] \<or> hd s = CHR ''#'' then Ignored
         else if CHR '':'' \<in> set s \<and> CHR '':'' \<notin> set p \<and> u \<noteq> [] \<and> p \<noteq> [] \<and>
                 length u \<le> AUTH_USERNAME_MAX \<and> length p \<le> AUTH_PASSWORD_MAX
         then User u p else Bad)"

definition account_of_lines :: "string list \<Rightarrow> (string \<times> string) option" where
  "account_of_lines ls =
     (case filter (\<lambda>m. m \<noteq> Ignored) (map meaning_of_line ls) of
        [User u p] \<Rightarrow> Some (u, p)
      | _ \<Rightarrow> None)"

text \<open>A line that fits into the line buffer with its newline and holds no NUL.\<close>

definition line_ok :: "string \<Rightarrow> bool" where
  "line_ok l \<longleftrightarrow> LF \<notin> set l \<and> NUL \<notin> set l \<and> length l + 2 \<le> CREDENTIAL_LINE_MAX"

definition unlines :: "string list \<Rightarrow> string" where
  "unlines ls = concat (map (\<lambda>l. l @ [LF]) ls)"

lemma takeWhile_line_end:
  "LF \<notin> set l \<Longrightarrow> takeWhile (\<lambda>c. c \<notin> set [CR, LF]) (l @ [LF]) = takeWhile (\<lambda>c. c \<noteq> CR) l"
  by (induction l) auto

lemma credential_line_meaning:
  assumes "line_ok l" and buf: "buf = l @ LF # NUL # junk"
    and act: "credential_line eof found buf = (act, line')"
  shows "(case meaning_of_line l of
      Ignored \<Rightarrow> act = Skip
    | Bad \<Rightarrow> \<exists>m. act = Reject m
    | User u p \<Rightarrow> if found then \<exists>m. act = Reject m
        else \<exists>sep. act = Account sep (length u) (length p) \<and> cstr line' = u \<and>
                   cstr (drop (sep + 1) line') = p)"
proof -
  define s where "s = takeWhile (\<lambda>c. c \<noteq> CR) l"
  define n where "n = strcspn buf [CR, LF]"
  define m where "m = buf[n := NUL]"
  have cb: "cstr buf = l @ [LF]"
    using assms(1) cstr_terminated [of "l @ [LF]" junk] by (simp add: buf line_ok_def)
  have n: "n = length s"
    using assms(1) takeWhile_line_end [of l] by (simp add: n_def strcspn_def cb s_def line_ok_def)
  have nl: "n \<le> length l"
    by (simp add: n s_def length_takeWhile_le)
  then have "buf ! n = (l @ [LF]) ! n"
    by (simp add: buf nth_append)
  moreover have "(l @ [LF]) ! n \<in> set (l @ [LF])"
    using nl by (intro nth_mem) simp
  ultimately have bn: "buf ! n \<noteq> NUL"
    using assms(1) by (auto simp: line_ok_def)
  have ts: "take n (cstr buf) = s"
    using nl by (simp add: cb n s_def takeWhile_eq_take [symmetric])
  have cm: "cstr m = s"
  proof -
    have "n \<le> strlen buf" and "n < length buf"
      using nl by (simp_all add: strlen_def cb) (simp add: buf)
    then show ?thesis
      using ts by (simp add: m_def cstr_update)
  qed
  have Nm: "NUL \<in> set m"
    by (simp add: m_def buf NUL_in_update)
  have m0: "m ! 0 = (case s of [] \<Rightarrow> NUL | c # _ \<Rightarrow> c)"
    using nth_0_cstr [OF Nm] by (simp add: cm)
  have s0: "c \<noteq> NUL" if "s = c # t" for c t
    using that NUL_not_in_cstr [of m] by (auto simp: cm)
  show ?thesis
  proof (cases "s = [] \<or> hd s = CHR ''#''")
    case True
    then have "act = Skip" and "meaning_of_line l = Ignored"
      using act bn m0 s0 by (auto simp: credential_line_def Let_def n_def [symmetric]
          m_def [symmetric] meaning_of_line_def s_def [symmetric] split: list.splits)
    then show ?thesis by simp
  next
    case False
    define u where "u = takeWhile (\<lambda>c. c \<noteq> CHR '':'') s"
    define p where "p = drop (length u + 1) s"
    have m1: "\<not> (m ! 0 = NUL \<or> m ! 0 = CHR ''#'')"
      using False m0 s0 by (auto split: list.splits)
    have sc: "strchr m CHR '':'' = (if CHR '':'' \<in> set s then Some (length u) else None)"
      by (simp add: strchr_def cm index_of_eq u_def)
    have cp: "cstr (drop (length u + 1) m) = p" if "CHR '':'' \<in> set s"
      using cstr_drop [of "length u + 1" m] strchr_less [of m "CHR '':''" "length u"] that
      by (simp add: sc cm p_def)
    have cu: "cstr (m[length u := NUL]) = u" if "CHR '':'' \<in> set s"
      using cstr_update [of "length u" m] strchr_less [of m "CHR '':''" "length u"]
        strlen_less [OF Nm] that
      by (simp add: sc cm) (simp add: u_def takeWhile_eq_take [symmetric])
    have cd: "(strchr (drop (length u + 1) m) CHR '':'' \<noteq> None) = (CHR '':'' \<in> set p)"
      and lp: "strlen (drop (length u + 1) m) = length p"
      and lu: "strlen (m[length u := NUL]) = length u" if "CHR '':'' \<in> set s"
      using cp [OF that] cu [OF that] by (simp_all add: strchr_def index_of_eq strlen_def)
    have a: "credential_line eof found buf =
      (if found then (Reject ''[backend] demo credential file must contain one account'', m)
       else if CHR '':'' \<notin> set s then (Reject ''[backend] invalid demo credential format'', m)
       else if CHR '':'' \<in> set p then (Reject ''[backend] invalid demo credential format'', m)
       else if u = [] \<or> AUTH_USERNAME_MAX < length u \<or> p = [] \<or> AUTH_PASSWORD_MAX < length p
       then (Reject ''[backend] invalid demo credential lengths'', m[length u := NUL])
       else (Account (length u) (length u) (length p), m[length u := NUL]))"
    proof (cases "CHR '':'' \<in> set s")
      case True
      then show ?thesis
        using bn m1 cd lp lu
        by (simp only: credential_line_def Let_def n_def [symmetric] m_def [symmetric] sc) simp
    next
      case False
      then show ?thesis
        using bn m1
        by (simp only: credential_line_def Let_def n_def [symmetric] m_def [symmetric] sc) simp
    qed
    have ml: "meaning_of_line l =
      (if CHR '':'' \<in> set s \<and> CHR '':'' \<notin> set p \<and> u \<noteq> [] \<and> p \<noteq> [] \<and>
          length u \<le> AUTH_USERNAME_MAX \<and> length p \<le> AUTH_PASSWORD_MAX then User u p else Bad)"
      using False by (simp only: meaning_of_line_def Let_def s_def [symmetric] u_def [symmetric]
          p_def [symmetric] if_False)
    have "meaning_of_line l = User u p \<and> \<not> found \<Longrightarrow>
        act = Account (length u) (length u) (length p) \<and> line' = m[length u := NUL] \<and>
        CHR '':'' \<in> set s"
      and "meaning_of_line l \<noteq> User u p \<or> found \<Longrightarrow> \<exists>msg. act = Reject msg"
      using act unfolding a ml by (auto split: if_splits)
    moreover have "meaning_of_line l = User u p \<or> meaning_of_line l = Bad"
      by (simp add: ml)
    moreover have "cstr (drop (length u + 1) (m[length u := NUL])) = p" if "CHR '':'' \<in> set s"
      using cp [OF that] by simp
    ultimately show ?thesis
      using cu by auto
  qed
qed

text \<open>How the loop ends on a file whose remaining lines mean \<open>ms\<close>.\<close>

definition loads ::
    "line_meaning list \<Rightarrow> bool \<Rightarrow> DemoCredential \<Rightarrow> bool \<Rightarrow> bool \<Rightarrow> DemoCredential \<Rightarrow> bool" where
  "loads ms found cred finished found' cred' \<longleftrightarrow>
     (case ms of
        [] \<Rightarrow> finished \<and> found' = found \<and> cred' = cred
      | [User u p] \<Rightarrow>
          (if found then \<not> finished
           else finished \<and> found' \<and> cstr (cred_username cred') = u \<and> cstr (cred_password cred') = p)
      | _ \<Rightarrow> \<not> finished)"

lemma loads_User:
  "loads ms True c finished found' cred' \<Longrightarrow> cstr (cred_username c) = u \<Longrightarrow>
   cstr (cred_password c) = p \<Longrightarrow> loads (User u p # ms) False cred finished found' cred'"
  by (cases ms; cases "tl ms") (auto simp: loads_def split: line_meaning.splits)

lemma load_lines_meaning:
  assumes "\<forall>l \<in> set ls. line_ok l" and "credential_sized cred"
    and "length line = CREDENTIAL_LINE_MAX"
  shows "case load_lines (open_stream (unlines ls) None) line cred found tr of
    (finished, found', cred', line', f', tr') \<Rightarrow>
      loads (filter (\<lambda>m. m \<noteq> Ignored) (map meaning_of_line ls)) found cred finished found' cred' \<and>
      (finished \<longrightarrow> \<not> ferror f')"
  using assms
proof (induction ls arbitrary: line cred found tr)
  case Nil
  then show ?case
    by (simp add: unlines_def load_lines.simps [of "open_stream [] None"] fgets_empty loads_def
        CREDENTIAL_LINE_MAX_def)
next
  case (Cons l ls)
  let ?g = "open_stream (unlines ls) None"
  define buf where "buf = l @ LF # NUL # drop (length l + 2) line"
  have fg: "fgets line CREDENTIAL_LINE_MAX (open_stream (unlines (l # ls)) None) = (Some buf, ?g)"
    using fgets_line [of "open_stream (unlines (l # ls)) None" l "unlines ls" CREDENTIAL_LINE_MAX line]
      Cons.prems(1)
    by (simp add: unlines_def line_ok_def buf_def)
  obtain act line' where cl: "credential_line False found buf = (act, line')"
    by fastforce
  have ok: "line_ok l"
    using Cons.prems(1) by simp
  note m = credential_line_meaning [OF ok buf_def cl]
  have len: "length buf = CREDENTIAL_LINE_MAX" and Nb: "NUL \<in> set buf"
    using ok Cons.prems(3) by (auto simp: buf_def line_ok_def)
  then have cleared: "length (secure_clear line' CREDENTIAL_LINE_MAX) = CREDENTIAL_LINE_MAX"
    using credential_line_buffer [OF cl] by simp
  note IH = Cons.IH [OF _ _ cleared]
  show ?case
  proof (cases "meaning_of_line l")
    case Ignored
    with m have "act = Skip" by simp
    with Ignored Cons.prems IH [of cred found tr] show ?thesis
      by (simp add: load_lines.simps [of "open_stream (unlines (l # ls)) None"] fg cl)
  next
    case Bad
    with m obtain msg where "act = Reject msg" by auto
    with Bad show ?thesis
      by (simp add: load_lines.simps [of "open_stream (unlines (l # ls)) None"] fg cl loads_def)
  next
    case (User u p)
    show ?thesis
    proof (cases found)
      case True
      with m User obtain msg where "act = Reject msg" by auto
      moreover from True cl have "credential_line False True buf = (act, line')" by simp
      ultimately show ?thesis using User True
        by (simp add: load_lines.simps [of "open_stream (unlines (l # ls)) None"] fg loads_def
            split: list.split)
    next
      case False
      with m User obtain sep where act: "act = Account sep (length u) (length p)"
        and "cstr line' = u" "cstr (drop (sep + 1) line') = p" by auto
      have cl': "credential_line False False buf = (act, line')"
        using False cl by simp
      let ?c = "copy_account cred line' sep (length u) (length p)"
      note c = copy_account_wf [OF cl [unfolded act] Nb Cons.prems(2)]
      have "credential_sized ?c" and "\<forall>l \<in> set ls. line_ok l"
        using c(1) Cons.prems(1) by (auto simp: wf_credential_def)
      from IH [OF this(2,1), of True tr] loads_User [of _ ?c _ _ _ u p cred] c(2,3)
      show ?thesis
        using User False \<open>cstr line' = u\<close> \<open>cstr (drop (sep + 1) line') = p\<close>
        by (simp add: load_lines.simps [of "open_stream (unlines (l # ls)) None"] fg cl' act
            split: prod.splits)
    qed
  qed
qed

subsection \<open>Correctness of the loader and of the path\<close>

lemma clear_credential_sized: "credential_sized c \<Longrightarrow> clear_credential c = zero_credential"
  by (simp add: clear_credential_def zero_credential_def credential_sized_def)

lemma zero_credential_sized [simp]: "credential_sized zero_credential"
  by (simp add: credential_sized_def zero_credential_def)

lemma length_zero_line [simp]: "length (zeros CREDENTIAL_LINE_MAX) = CREDENTIAL_LINE_MAX"
  by simp

lemma load_demo_credential_wf:
  "case load_demo_credential k path tr of (rc, cred, line, tr') \<Rightarrow>
     line = zeros CREDENTIAL_LINE_MAX \<and>
     (if rc = 0 then wf_credential cred else rc = -1 \<and> cred = zero_credential)"
proof (cases "k_fopen k tr path")
  case (Inl e)
  then show ?thesis
    by (simp add: load_demo_credential_def sys_fopen_def clear_credential_sized)
next
  case (Inr f)
  let ?tr = "tr @ [Fopen path None]"
  obtain fin fnd cred line g tr' where
    ll: "load_lines f (zeros CREDENTIAL_LINE_MAX) zero_credential False ?tr = (fin, fnd, cred, line, g, tr')"
    by (metis prod_cases6)
  have "length line = CREDENTIAL_LINE_MAX \<and> credential_sized cred \<and> (fnd \<longrightarrow> wf_credential cred)"
    using load_lines_inv [of "zeros CREDENTIAL_LINE_MAX" zero_credential False f ?tr] by (simp add: ll)
  with Inr ll show ?thesis
    by (auto simp: load_demo_credential_def sys_defs Let_def clear_credential_sized
        split: option.splits)
qed

text \<open>
  C14: whatever the file and the system calls do, loading ends with the line buffer cleared; on
  failure the credential is all zeros, and on success both of its strings are terminated inside
  their arrays and not empty.
\<close>

theorem load_demo_credential_safe:
  "case load_demo_credential k path tr of (rc, cred, line, tr') \<Rightarrow>
     line = zeros CREDENTIAL_LINE_MAX \<and>
     (if rc = 0 then wf_credential cred else rc = -1 \<and> cred = zero_credential)"
  by (rule load_demo_credential_wf)

lemma load_demo_credential_meaning:
  assumes "k_fopen k tr path = Inr (open_stream (unlines ls) None)" and "\<forall>l \<in> set ls. line_ok l"
    and "\<forall>tr. k_fclose k tr = None"
  shows "case load_demo_credential k path tr of (rc, cred, line, tr') \<Rightarrow>
    (case account_of_lines ls of
       Some (u, p) \<Rightarrow> rc = 0 \<and> cstr (cred_username cred) = u \<and> cstr (cred_password cred) = p
     | None \<Rightarrow> rc = -1 \<and> cred = zero_credential)"
proof -
  let ?tr = "tr @ [Fopen path None]"
  let ?ms = "filter (\<lambda>m. m \<noteq> Ignored) (map meaning_of_line ls)"
  obtain fin fnd cred line g tr' where
    ll: "load_lines (open_stream (unlines ls) None) (zeros CREDENTIAL_LINE_MAX) zero_credential False ?tr
      = (fin, fnd, cred, line, g, tr')"
    by (metis prod_cases6)
  have "loads ?ms False zero_credential fin fnd cred" and "fin \<longrightarrow> \<not> ferror g"
    using load_lines_meaning [OF assms(2), of zero_credential "zeros CREDENTIAL_LINE_MAX" False ?tr]
    by (simp_all add: ll)
  moreover have "credential_sized cred"
    using load_lines_inv [of "zeros CREDENTIAL_LINE_MAX" zero_credential False
        "open_stream (unlines ls) None" ?tr] by (simp add: ll)
  ultimately show ?thesis
    using assms(1,3) ll
    by (auto simp: load_demo_credential_def sys_defs Let_def clear_credential_sized loads_def
        account_of_lines_def split: list.splits line_meaning.splits if_splits)
qed

text \<open>
  C9: on a readable file whose lines fit into the line buffer, the loader is the specification on
  lines: it succeeds exactly if one line is not ignored and is an account, and then delivers that
  account's name and password; otherwise it fails and leaves no trace of what it read.
\<close>

theorem load_demo_credential_refines:
  assumes "k_fopen k tr path = Inr (open_stream (unlines ls) None)" and "\<forall>l \<in> set ls. line_ok l"
    and "\<forall>tr. k_fclose k tr = None"
  shows "case load_demo_credential k path tr of (rc, cred, line, tr') \<Rightarrow>
    (case account_of_lines ls of
       Some (u, p) \<Rightarrow> rc = 0 \<and> cstr (cred_username cred) = u \<and> cstr (cred_password cred) = p
     | None \<Rightarrow> rc = -1 \<and> cred = zero_credential)"
  using load_demo_credential_meaning [OF assms] .

text \<open>An instance on a file with a comment and one account.\<close>

theorem load_demo_credential_refines_witness:
  "case load_demo_credential
     (demo_kernel\<lparr>k_fopen := \<lambda>_ _. Inr (open_stream (unlines [''# fake'', ''demo_user:demo_password'']) None)\<rparr>)
     ''/a/credentials.demo'' [] of (rc, cred, line, tr') \<Rightarrow>
    rc = 0 \<and> cstr (cred_username cred) = ''demo_user'' \<and> cstr (cred_password cred) = ''demo_password''"
proof -
  let ?ls = "[''# fake'', ''demo_user:demo_password'']"
  let ?k = "demo_kernel\<lparr>k_fopen := \<lambda>_ _. Inr (open_stream (unlines ?ls) None)\<rparr>"
  have "\<forall>l \<in> set ?ls. line_ok l"
    by (simp add: line_ok_def CREDENTIAL_LINE_MAX_def)
  moreover have "account_of_lines ?ls = Some (''demo_user'', ''demo_password'')"
    by code_simp
  ultimately show ?thesis
    using load_demo_credential_refines [of ?k "[]" "''/a/credentials.demo''" ?ls]
    by (simp add: demo_kernel_def)
qed

text \<open>
  For an executable \<^verbatim>\<open>d/b/e\<close> the credential path is \<^verbatim>\<open>d/credentials.demo\<close>, the sibling
  of the build directory, and the path buffer is not overrun.
\<close>

lemma resolve_demo_credential_path_sibling:
  assumes exe: "k_readlink k tr ''/proc/self/exe'' = Inr (d @ ''/'' @ b @ ''/'' @ e)"
    and names: "CHR ''/'' \<notin> set b" "CHR ''/'' \<notin> set e" "NUL \<notin> set (d @ b @ e)"
    and fits: "length (d @ ''/'' @ b @ ''/'' @ e) < path_size - 1"
      "length d + length CREDENTIALS_FILE_NAME + 2 \<le> path_size" "length path = path_size"
  shows "case resolve_demo_credential_path k path path_size tr of (rc, path', tr') \<Rightarrow>
    rc = 0 \<and> cstr path' = d @ ''/'' @ CREDENTIALS_FILE_NAME \<and> length path' = path_size"
proof -
  define name where "name = d @ ''/'' @ b @ ''/'' @ e"
  define p1 where "p1 = (store path 0 name)[length name := NUL]"
  define p2 where "p2 = p1[length (d @ ''/'' @ b) := NUL]"
  have len: "length name < length path" "take (path_size - 1) name = name"
    using fits by (simp_all add: name_def)
  have Nn: "NUL \<notin> set name"
    using names by (auto simp: name_def)
  have p1: "p1 = name @ NUL # drop (length name + 1) path"
    using len by (simp add: p1_def list_update_append Cons_nth_drop_Suc [symmetric])
  then have c1: "cstr p1 = name"
    using Nn by simp
  have s1: "strrchr p1 CHR ''/'' = Some (length (d @ ''/'' @ b))"
    using names by (intro strrchr_last [where b = e]) (simp_all add: c1 name_def)
  have l1: "length p1 = path_size"
    using len fits by (simp add: p1)
  have c2: "cstr p2 = d @ ''/'' @ b"
    using fits unfolding p2_def
    by (subst cstr_update) (simp_all add: strlen_def c1 l1 name_def)
  have s2: "strrchr p2 CHR ''/'' = Some (length d)"
    using names by (intro strrchr_last [where b = b]) (simp_all add: c2)
  have l2: "length p2 = path_size"
    by (simp add: p2_def l1)
  have "take (length d + 1) p2 = take (length d + 1) (cstr p2)"
  proof -
    have "strlen p2 = length (d @ ''/'' @ b)"
      by (simp only: strlen_def c2)
    then show ?thesis
      unfolding cstr_eq_take by simp
  qed
  then have t2: "take (length d + 1) p2 = d @ ''/''"
    by (simp add: c2)
  have "NUL \<notin> set (d @ ''/'' @ CREDENTIALS_FILE_NAME)"
    using names by (auto simp: CREDENTIALS_FILE_NAME_def)
  then have c3: "cstr (store p2 (length d + 1) (CREDENTIALS_FILE_NAME @ [NUL]))
      = d @ ''/'' @ CREDENTIALS_FILE_NAME"
    using cstr_terminated [of "d @ ''/'' @ CREDENTIALS_FILE_NAME"] t2 by (simp add: store_def)
  have "length (store p2 (length d + 1) (CREDENTIALS_FILE_NAME @ [NUL])) = path_size"
    using fits l2 by (subst length_store) simp_all
  moreover have "sys_readlink k ''/proc/self/exe'' (path_size - 1) tr =
      (Inr name, tr @ [Readlink ''/proc/self/exe'' (path_size - 1) (Inr name)])"
    using exe len(2) by (simp add: sys_readlink_def Let_def name_def)
  moreover have "\<not> path_size - 1 \<le> length name"
    and "\<not> path_size - (length d + 1) < length CREDENTIALS_FILE_NAME + 1"
    using fits by (simp_all add: name_def)
  ultimately show ?thesis
    using c3 unfolding resolve_demo_credential_path_def
    by (simp only: Let_def prod.case sum.case if_False p1_def [symmetric] s1 option.case
        p2_def [symmetric] s2 simp_thms)
qed


theorem resolve_demo_credential_path_sibling_witness:
  "case resolve_demo_credential_path demo_kernel (zeros 64) 64 [] of (rc, path', tr') \<Rightarrow>
    rc = 0 \<and> cstr path' = ''/a'' @ ''/'' @ CREDENTIALS_FILE_NAME \<and> length path' = 64"
  by (rule resolve_demo_credential_path_sibling [where b = "''build''" and e = "''Backend''"])
     (simp_all add: demo_kernel_def CREDENTIALS_FILE_NAME_def)

end
