(* ===== verification/Backend_Request.thy ===== *)
theory Backend_Request
  imports Backend_Credential
begin

text \<open>
  \<^verbatim>\<open>Authentication/Backend.c\<close>, the request handler without its input and output: building a
  response, validating the two strings of a request, comparing them with the credential without an
  early exit, and the decision. The decision is related to a specification that says directly
  which requests are accepted.
\<close>

text \<open>\<^verbatim>\<open>set_response\<close>; the old content of the response is gone.\<close>

definition set_response :: "AuthResult \<Rightarrow> AuthErrorCode \<Rightarrow> string \<Rightarrow> AuthResponse" where
  "set_response result code message =
     zero_response
       \<lparr>rs_version := AUTH_PROTOCOL_VERSION, rs_result := result_code result,
        rs_error_code := error_code code,
        rs_message := snprintf (rs_message zero_response) (AUTH_RESPONSE_MESSAGE_MAX + 1) message\<rparr>"

subsection \<open>Comparison without early exit\<close>

text \<open>The loop: \<open>size_t\<close> is 64 bits wide, bytes are compared as \<open>unsigned char\<close>.\<close>

function compare_bytes ::
    "buffer \<Rightarrow> nat \<Rightarrow> buffer \<Rightarrow> nat \<Rightarrow> nat \<Rightarrow> nat \<Rightarrow> u64 \<Rightarrow> u64" where
  "compare_bytes left left_length right right_length maximum_length index difference =
     (if index < maximum_length
      then
        let left_byte = (if index < left_length then of_char (left ! index) else 0 :: u64);
            right_byte = (if index < right_length then of_char (right ! index) else 0)
        in compare_bytes left left_length right right_length maximum_length (index + 1)
             (or difference (xor left_byte right_byte))
      else difference)"
  by pat_completeness auto
termination
  by (relation "measure (\<lambda>(l, ll, r, rl, maximum_length, index, d). maximum_length - index)") auto

declare compare_bytes.simps [simp del]

definition secure_string_equal ::
    "buffer \<Rightarrow> nat \<Rightarrow> buffer \<Rightarrow> nat \<Rightarrow> nat \<Rightarrow> bool" where
  "secure_string_equal left left_length right right_length maximum_length \<longleftrightarrow>
     compare_bytes left left_length right right_length maximum_length 0
       (xor (of_nat left_length) (of_nat right_length)) = 0"

subsection \<open>Validation\<close>

text \<open>
  \<open>Inl\<close> is the return value \<open>-1\<close> with the response that was set, \<open>Inr\<close> is 0 with the length.
\<close>

definition validate_request_string ::
    "buffer \<Rightarrow> nat \<Rightarrow> nat \<Rightarrow> string \<Rightarrow> AuthErrorCode \<Rightarrow> AuthErrorCode \<Rightarrow> auth_trace \<Rightarrow>
     (AuthResponse + nat) \<times> auth_trace" where
  "validate_request_string value capacity maximum_length field_name empty_error oversized_error tr =
     (case memchr value NUL capacity of
        None \<Rightarrow>
          (Inl (set_response AUTH_RESULT_REJECTED oversized_error
                  (field_name @ '' is oversized or not null-terminated'')),
           out (''[backend] rejected '' @ field_name @ '' without a null terminator within '' @
                show_nat capacity @ '' bytes'') tr)
      | Some value_length \<Rightarrow>
          if value_length = 0
          then (Inl (set_response AUTH_RESULT_REJECTED empty_error
                       (field_name @ '' must not be empty'')),
                out (''[backend] rejected empty '' @ field_name) tr)
          else if maximum_length < value_length
          then (Inl (set_response AUTH_RESULT_REJECTED oversized_error
                       (field_name @ '' exceeds maximum length'')),
                out (''[backend] rejected oversized '' @ field_name) tr)
          else (Inr value_length, tr))"

subsection \<open>The decision\<close>

definition process_request ::
    "AuthRequest \<Rightarrow> DemoCredential \<Rightarrow> auth_trace \<Rightarrow> AuthResponse \<times> auth_trace" where
  "process_request request credential tr =
     (if rq_version request \<noteq> AUTH_PROTOCOL_VERSION
      then (set_response AUTH_RESULT_REJECTED AUTH_ERROR_UNSUPPORTED_VERSION
              ''unsupported protocol version'',
            out (''[backend] rejected protocol version '' @ show_uid (rq_version request)) tr)
      else if rq_type request \<noteq> AUTH_REQUEST_VALIDATE
      then (set_response AUTH_RESULT_REJECTED AUTH_ERROR_BAD_REQUEST
              ''unsupported authentication request type'',
            out (''[backend] rejected request type '' @ show_uid (rq_type request)) tr)
      else case validate_request_string (rq_username request) (AUTH_USERNAME_MAX + 1)
                  AUTH_USERNAME_MAX ''username'' AUTH_ERROR_USERNAME_REQUIRED
                  AUTH_ERROR_USERNAME_TOO_LONG tr of
        (Inl response, tr) \<Rightarrow> (response, tr)
      | (Inr username_length, tr) \<Rightarrow>
          case validate_request_string (rq_password request) (AUTH_PASSWORD_MAX + 1)
                 AUTH_PASSWORD_MAX ''password'' AUTH_ERROR_PASSWORD_REQUIRED
                 AUTH_ERROR_PASSWORD_TOO_LONG tr of
            (Inl response, tr) \<Rightarrow> (response, tr)
          | (Inr password_length, tr) \<Rightarrow>
              let credential_username_length = strlen (cred_username credential);
                  credential_password_length = strlen (cred_password credential);
                  username_matches =
                    secure_string_equal (rq_username request) username_length
                      (cred_username credential) credential_username_length AUTH_USERNAME_MAX;
                  password_matches =
                    secure_string_equal (rq_password request) password_length
                      (cred_password credential) credential_password_length AUTH_PASSWORD_MAX
              in
              if \<not> username_matches
              then (set_response AUTH_RESULT_INVALID_CREDENTIALS AUTH_ERROR_NONE
                      ''invalid username or password'',
                    out (''[backend] authentication rejected for unknown user '' @
                         cstr (rq_username request)) tr)
              else if \<not> password_matches
              then (set_response AUTH_RESULT_INVALID_CREDENTIALS AUTH_ERROR_NONE
                      ''invalid username or password'',
                    out (''[backend] authentication rejected for '' @ cstr (rq_username request)) tr)
              else (set_response AUTH_RESULT_SUCCESS AUTH_ERROR_NONE ''authentication successful'',
                    out (''[backend] authentication successful for '' @ cstr (rq_username request)) tr))"

subsection \<open>Facts\<close>

lemma set_response_wf [simp]:
  "wf_response (set_response result code message)"
  "NUL \<in> set (rs_message (set_response result code message))"
  "rs_version (set_response result code message) = AUTH_PROTOCOL_VERSION"
  "rs_result (set_response result code message) = result_code result"
  "rs_error_code (set_response result code message) = error_code code"
  by (simp_all add: set_response_def wf_response_def zero_response_def snprintf_terminated)

subsection \<open>The comparison\<close>

abbreviation byte_at :: "buffer \<Rightarrow> nat \<Rightarrow> nat \<Rightarrow> u64" where
  "byte_at s n i \<equiv> (if i < n then of_char (s ! i) else 0)"

lemma xor_eq_0_word: "xor (a :: 'a::len word) b = 0 \<longleftrightarrow> a = b"
proof
  assume "xor a b = 0"
  then have "xor (xor a b) b = b" by simp
  then show "a = b" by (simp add: ac_simps)
qed simp

lemma of_nat_u64_inject: "a < 2 ^ 64 \<Longrightarrow> b < 2 ^ 64 \<Longrightarrow> (of_nat a :: u64) = of_nat b \<longleftrightarrow> a = b"
  by (simp add: word_of_nat_eq_iff take_bit_nat_eq_self)

lemma of_char_word_inject: "(of_char c :: u64) = of_char d \<longleftrightarrow> c = d"
proof -
  have small: "(of_char c :: nat) < 2 ^ 64" for c
  proof -
    have "(of_char c :: nat) < 256"
      by (metis mod_less_divisor of_char_mod_256 zero_less_numeral)
    also have "(256::nat) < 2 ^ 64" by simp
    finally show ?thesis .
  qed
  have "(of_char c :: u64) = of_char d \<longleftrightarrow> (of_nat (of_char c) :: u64) = of_nat (of_char d)"
    by (simp only: of_nat_of_char)
  also have "\<dots> \<longleftrightarrow> c = d"
    by (simp only: of_nat_u64_inject [OF small small] of_char_eq_iff)
  finally show ?thesis .
qed

lemma compare_bytes_0:
  "compare_bytes l ll r rl m i d = 0 \<longleftrightarrow>
     d = 0 \<and> (\<forall>j. i \<le> j \<and> j < m \<longrightarrow> byte_at l ll j = byte_at r rl j)"
proof (induction l ll r rl m i d rule: compare_bytes.induct)
  case (1 l ll r rl m i d)
  show ?case
  proof (cases "i < m")
    case True
    have split: "(\<forall>j. i \<le> j \<and> j < m \<longrightarrow> P j) \<longleftrightarrow> P i \<and> (\<forall>j. i + 1 \<le> j \<and> j < m \<longrightarrow> P j)" for P
    proof -
      have "i \<le> j \<longleftrightarrow> j = i \<or> i + 1 \<le> j" for j by auto
      then show ?thesis using True by auto
    qed
    show ?thesis
      using 1 [OF True refl refl] True
      by (subst compare_bytes.simps, subst split) (simp add: Let_def or_eq_0_iff xor_eq_0_word)
  next
    case False
    then show ?thesis by (auto simp: compare_bytes.simps [of _ _ _ _ m])
  qed
qed

lemma secure_string_equal_iff:
  assumes "ll \<le> length l" and "rl \<le> length r" and "ll \<le> m" and "rl \<le> m" and "m < 2 ^ 64"
  shows "secure_string_equal l ll r rl m \<longleftrightarrow> take ll l = take rl r"
proof -
  have "secure_string_equal l ll r rl m \<longleftrightarrow>
      ll = rl \<and> (\<forall>j < m. byte_at l ll j = byte_at r rl j)"
    using assms by (simp add: secure_string_equal_def compare_bytes_0 xor_eq_0_word of_nat_u64_inject)
  also have "\<dots> \<longleftrightarrow> ll = rl \<and> (\<forall>j < ll. l ! j = r ! j)"
    using assms(3) by (auto simp: of_char_word_inject)
  also have "\<dots> \<longleftrightarrow> take ll l = take rl r"
    using assms(1,2) by (auto simp: list_eq_iff_nth_eq)
  finally show ?thesis .
qed


subsection \<open>Validation and decision\<close>

lemma memchr_terminator:
  "memchr v NUL (length v) = (if NUL \<in> set v then Some (strlen v) else None)"
  by (simp add: memchr_def index_of_eq strlen_def cstr_def)

lemma validate_request_string_spec:
  assumes "length value = capacity" and "capacity \<le> maximum_length + 1"
  shows "fst (validate_request_string value capacity maximum_length field empty_error oversized_error tr) =
    (if NUL \<notin> set value
     then Inl (set_response AUTH_RESULT_REJECTED oversized_error
                 (field @ '' is oversized or not null-terminated''))
     else if cstr value = []
     then Inl (set_response AUTH_RESULT_REJECTED empty_error (field @ '' must not be empty''))
     else Inr (strlen value))"
  using assms strlen_less [of "value"]
  by (auto simp: validate_request_string_def memchr_terminator [of "value", unfolded assms(1)]
      strlen_def)

text \<open>
  The specification of the decision: the answer as a function of the strings of the request and of
  the credential.
\<close>

definition decision :: "AuthRequest \<Rightarrow> string \<Rightarrow> string \<Rightarrow> AuthResult \<times> AuthErrorCode" where
  "decision r username password =
     (if rq_version r \<noteq> 1 then (AUTH_RESULT_REJECTED, AUTH_ERROR_UNSUPPORTED_VERSION)
      else if rq_type r \<noteq> 1 then (AUTH_RESULT_REJECTED, AUTH_ERROR_BAD_REQUEST)
      else if NUL \<notin> set (rq_username r) then (AUTH_RESULT_REJECTED, AUTH_ERROR_USERNAME_TOO_LONG)
      else if cstr (rq_username r) = [] then (AUTH_RESULT_REJECTED, AUTH_ERROR_USERNAME_REQUIRED)
      else if NUL \<notin> set (rq_password r) then (AUTH_RESULT_REJECTED, AUTH_ERROR_PASSWORD_TOO_LONG)
      else if cstr (rq_password r) = [] then (AUTH_RESULT_REJECTED, AUTH_ERROR_PASSWORD_REQUIRED)
      else if cstr (rq_username r) = username \<and> cstr (rq_password r) = password
      then (AUTH_RESULT_SUCCESS, AUTH_ERROR_NONE)
      else (AUTH_RESULT_INVALID_CREDENTIALS, AUTH_ERROR_NONE))"

lemma string_matches:
  assumes "length v = m + 1" and "NUL \<in> set v" and "length c = m + 1" and "NUL \<in> set c"
    and "m < 2 ^ 64"
  shows "secure_string_equal v (strlen v) c (strlen c) m \<longleftrightarrow> cstr v = cstr c"
  using assms strlen_less [of v] strlen_less [of c]
  by (subst secure_string_equal_iff) (simp_all add: cstr_eq_take [symmetric])

lemma result_code_inject [simp]: "result_code a = result_code b \<longleftrightarrow> a = b"
  by (cases a; cases b) simp_all

lemma error_code_inject [simp]: "error_code a = error_code b \<longleftrightarrow> a = b"
  by (cases a; cases b) simp_all

lemma set_response_codes:
  "set_response a b m = set_response a' b' m' \<Longrightarrow> a = a' \<and> b = b'"
  by (metis set_response_wf(4,5) result_code_inject error_code_inject)

text \<open>The validation of a well-sized string, log included.\<close>

lemma validate_request_string_eq:
  assumes "length v = capacity" and "capacity \<le> maximum_length + 1"
  shows "validate_request_string v capacity maximum_length field empty_error oversized_error tr =
    (if NUL \<notin> set v
     then (Inl (set_response AUTH_RESULT_REJECTED oversized_error
                 (field @ '' is oversized or not null-terminated'')),
           out (''[backend] rejected '' @ field @ '' without a null terminator within '' @
                show_nat capacity @ '' bytes'') tr)
     else if cstr v = []
     then (Inl (set_response AUTH_RESULT_REJECTED empty_error (field @ '' must not be empty'')),
           out (''[backend] rejected empty '' @ field) tr)
     else (Inr (strlen v), tr))"
  using assms strlen_less [of v]
  by (auto simp: validate_request_string_def memchr_terminator [of v, unfolded assms(1)] strlen_def)

text \<open>
  The message and the log line that go with an answer: a function of the answer, of what the request
  says apart from its password, and of whether the user is known.
\<close>

fun decision_text ::
    "u32 \<Rightarrow> u32 \<Rightarrow> string \<Rightarrow> bool \<Rightarrow> AuthResult \<times> AuthErrorCode \<Rightarrow> string \<times> string" where
  "decision_text version type user known (AUTH_RESULT_SUCCESS, _) =
     (''authentication successful'', ''[backend] authentication successful for '' @ user)"
| "decision_text version type user known (AUTH_RESULT_INVALID_CREDENTIALS, _) =
     (''invalid username or password'',
      (if known then ''[backend] authentication rejected for ''
       else ''[backend] authentication rejected for unknown user '') @ user)"
| "decision_text version type user known (_, AUTH_ERROR_UNSUPPORTED_VERSION) =
     (''unsupported protocol version'', ''[backend] rejected protocol version '' @ show_uid version)"
| "decision_text version type user known (_, AUTH_ERROR_BAD_REQUEST) =
     (''unsupported authentication request type'', ''[backend] rejected request type '' @ show_uid type)"
| "decision_text version type user known (_, AUTH_ERROR_USERNAME_TOO_LONG) =
     (''username is oversized or not null-terminated'',
      ''[backend] rejected username without a null terminator within 65 bytes'')"
| "decision_text version type user known (_, AUTH_ERROR_USERNAME_REQUIRED) =
     (''username must not be empty'', ''[backend] rejected empty username'')"
| "decision_text version type user known (_, AUTH_ERROR_PASSWORD_TOO_LONG) =
     (''password is oversized or not null-terminated'',
      ''[backend] rejected password without a null terminator within 129 bytes'')"
| "decision_text version type user known (_, _) =
     (''password must not be empty'', ''[backend] rejected empty password'')"

lemma show_capacities [simp]: "show_nat 65 = ''65''" "show_nat 129 = ''129''"
  by code_simp+

lemma process_request_eq:
  assumes "wf_request r" and "wf_credential c"
  shows "process_request r c tr =
    (let user = cstr (cred_username c);
         d = decision r user (cstr (cred_password c));
         (message, line) =
           decision_text (rq_version r) (rq_type r) (cstr (rq_username r)) (cstr (rq_username r) = user) d
     in (set_response (fst d) (snd d) message, out line tr))"
proof -
  have u: "length (rq_username r) = 64 + 1" "length (cred_username c) = 64 + 1" "NUL \<in> set (cred_username c)"
    and p: "length (rq_password r) = 128 + 1" "length (cred_password c) = 128 + 1" "NUL \<in> set (cred_password c)"
    using assms by (simp_all add: wf_request_def wf_credential_def credential_sized_def)
  show ?thesis
    using string_matches [OF u(1) _ u(2,3)] string_matches [OF p(1) _ p(2,3)]
    by (simp add: process_request_def decision_def validate_request_string_eq u p Let_def)
qed

text \<open>
  C5: the request handler answers every well-sized request exactly as the decision table says, with
  its result and error code, its message and its log line; only a request of version 1 and type 1
  whose two strings are terminated, not empty and equal to the credential's is accepted.
\<close>

theorem process_request_decides:
  assumes "wf_request r" and "wf_credential c"
  shows "case process_request r c tr of (response, tr') \<Rightarrow>
    wf_response response \<and> NUL \<in> set (rs_message response) \<and>
    (case decision r (cstr (cred_username c)) (cstr (cred_password c)) of (result, code) \<Rightarrow>
       (case decision_text (rq_version r) (rq_type r) (cstr (rq_username r))
               (cstr (rq_username r) = cstr (cred_username c)) (result, code) of (message, line) \<Rightarrow>
          response = set_response result code message \<and> tr' = tr @ [Out line]))"
  using assms by (simp add: process_request_eq Let_def out_def split: prod.split)

text \<open>An instance: the right password.\<close>

definition demo_credential :: DemoCredential where
  "demo_credential = copy_account zero_credential (''demo_user'' @ [NUL] @ ''demo_password'' @ [NUL]) 9 9 13"

lemma demo_credential_simps [simp]:
  "wf_credential demo_credential" "cstr (cred_username demo_credential) = ''demo_user''"
  "cstr (cred_password demo_credential) = ''demo_password''"
proof -
  have "cred_username demo_credential = ''demo_user'' @ NUL # zeros 55"
    and "cred_password demo_credential = ''demo_password'' @ NUL # zeros 115"
    by (simp_all add: demo_credential_def copy_account_def zero_credential_def)
  then show "wf_credential demo_credential" "cstr (cred_username demo_credential) = ''demo_user''"
    "cstr (cred_password demo_credential) = ''demo_password''"
    by (simp_all add: wf_credential_def credential_sized_def cstr_def)
qed

theorem process_request_decides_witness:
  "rs_result (fst (process_request (request_for ''demo_user'' ''demo_password'') demo_credential [])) =
     result_code AUTH_RESULT_SUCCESS"
  using process_request_decides [of "request_for ''demo_user'' ''demo_password''" demo_credential "[]"]
  by (auto simp: decision_def)



text \<open>
  An unknown user and a wrong password are answered with the same response, so that the answer does
  not disclose whether an account exists.
\<close>

lemma process_request_failure_generic:
  assumes "wf_request r" and "wf_request r'" and "wf_credential c"
    and "decision r (cstr (cred_username c)) (cstr (cred_password c)) =
      (AUTH_RESULT_INVALID_CREDENTIALS, AUTH_ERROR_NONE)"
    and "decision r' (cstr (cred_username c)) (cstr (cred_password c)) =
      (AUTH_RESULT_INVALID_CREDENTIALS, AUTH_ERROR_NONE)"
  shows "fst (process_request r c tr) = fst (process_request r' c tr')"
  using assms by (simp add: process_request_eq Let_def)

lemma process_request_failure_generic_witness:
  "fst (process_request (request_for ''nobody'' ''demo_password'') demo_credential []) =
   fst (process_request (request_for ''demo_user'' ''wrong_password'') demo_credential [])"
  by (rule process_request_failure_generic) (simp_all add: decision_def)

text \<open>
  C23: \<^verbatim>\<open>secure_string_equal\<close>, which runs over the whole maximum length without an early exit,
  decides equality of the two strings: the 64-bit accumulator ends as 0 exactly when the lengths and
  all the bytes agree.
\<close>

theorem secure_string_equal_correct:
  assumes "ll \<le> length l" and "rl \<le> length r" and "ll \<le> m" and "rl \<le> m" and "m < 2 ^ 64"
  shows "secure_string_equal l ll r rl m \<longleftrightarrow> take ll l = take rl r"
  by (rule secure_string_equal_iff [OF assms])

theorem secure_string_equal_correct_witness:
  "secure_string_equal ''abcx'' 3 ''abcyz'' 3 128 \<and> \<not> secure_string_equal ''abcx'' 4 ''abcy'' 4 128"
  using secure_string_equal_correct [of 3 "''abcx''" 3 "''abcyz''" 128]
    secure_string_equal_correct [of 4 "''abcx''" 4 "''abcy''" 128]
  by simp

end
