(* ===== verification/Backend_Privilege.thy ===== *)
theory Backend_Privilege
  imports Auth_OS
begin

text \<open>
  The permanent privilege drop of \<^verbatim>\<open>Backend.c\<close> (\<^verbatim>\<open>log_uids\<close>,
  \<^verbatim>\<open>log_proc_status_uid_lines\<close>, \<^verbatim>\<open>drop_privileges_permanently\<close>) and the credentials machine
  of Linux that it is meant for: a process has a real, an effective and a saved user id, the same
  for groups, and a list of supplementary groups; \<open>linux_credentials\<close> says that the kernel's
  answers are those of the machine run over the trace.
\<close>

definition PROC_STATUS_PATH :: string where
  "PROC_STATUS_PATH = ''/proc/self/status''"

definition PROC_STATUS_LINE_MAX :: nat where
  "PROC_STATUS_LINE_MAX = 256"

subsection \<open>Logging the user ids\<close>

definition log_uids :: "auth_kernel \<Rightarrow> string \<Rightarrow> auth_trace \<Rightarrow> auth_trace" where
  "log_uids k stage tr =
     (let (real_uid, tr) = sys_getuid k tr;
          (effective_uid, tr) = sys_geteuid k tr;
          tr = out (''[backend] '' @ stage @ '' getuid(): '' @ show_uid real_uid) tr
      in out (''[backend] '' @ stage @ '' geteuid(): '' @ show_uid effective_uid) tr)"

text \<open>The loop: its result is \<^verbatim>\<open>found_uid_line\<close>, the stream and the trace.\<close>

function uid_lines ::
    "string \<Rightarrow> stream \<Rightarrow> buffer \<Rightarrow> bool \<Rightarrow> auth_trace \<Rightarrow> bool \<times> stream \<times> auth_trace" where
  "uid_lines stage f line found tr =
     (case fgets line PROC_STATUS_LINE_MAX f of
        (None, f) \<Rightarrow> (found, f, tr)
      | (Some line, f) \<Rightarrow>
          if take 4 (cstr line) = ''Uid:''
          then uid_lines stage f line True
                 (out_text (''[backend] '' @ stage @ '' /proc/self/status '' @ cstr line) tr)
          else uid_lines stage f line found tr)"
  by pat_completeness auto
termination
  by (relation "measure (\<lambda>(stage, f, line, found, tr). length (rest f))")
     (auto dest: fgets_rest_less [OF sym])

declare uid_lines.simps [simp del]

definition log_proc_status_uid_lines ::
    "auth_kernel \<Rightarrow> string \<Rightarrow> auth_trace \<Rightarrow> int \<times> auth_trace" where
  "log_proc_status_uid_lines k stage tr =
     (case sys_fopen k PROC_STATUS_PATH tr of
        (Inl e, tr) \<Rightarrow>
          (-1, out (''[backend] unable to open '' @ PROC_STATUS_PATH @ '': '' @ k_strerror k e) tr)
      | (Inr f, tr) \<Rightarrow>
          case uid_lines stage f (zeros PROC_STATUS_LINE_MAX) False tr of
            (found_uid_line, f, tr) \<Rightarrow>
              if ferror f
              then
                let tr = out (''[backend] error reading '' @ PROC_STATUS_PATH @ '': '' @
                              (case fail f of Some e \<Rightarrow> k_strerror k e | None \<Rightarrow> [])) tr;
                    (_, tr) = sys_fclose k tr
                in (-1, tr)
              else
                case sys_fclose k tr of
                  (Some e, tr) \<Rightarrow>
                    (-1, out (''[backend] error closing '' @ PROC_STATUS_PATH @ '': '' @
                              k_strerror k e) tr)
                | (None, tr) \<Rightarrow>
                    if \<not> found_uid_line
                    then (-1, out (''[backend] no Uid line found in '' @ PROC_STATUS_PATH) tr)
                    else (0, tr))"

subsection \<open>The drop\<close>

definition drop_privileges_permanently ::
    "auth_kernel \<Rightarrow> uid \<Rightarrow> gid \<Rightarrow> auth_trace \<Rightarrow> int \<times> auth_trace" where
  "drop_privileges_permanently k uid gid tr =
     (if uid = 0
      then (-1, out ''[backend] refusing to use root as the privilege-drop target'' tr)
      else
        let tr = log_uids k ''before privilege drop'' tr;
            (_, tr) = log_proc_status_uid_lines k ''before privilege drop'' tr;
            (effective_uid, tr) = sys_geteuid k tr;
            (groups_error, tr) = (if effective_uid = 0 then sys_setgroups k [] tr else (None, tr))
        in case groups_error of
          Some e \<Rightarrow> (-1, out (''[backend] setgroups() failed: '' @ k_strerror k e) tr)
        | None \<Rightarrow>
        case sys_setresgid k gid gid gid tr of
          (Some e, tr) \<Rightarrow> (-1, out (''[backend] setresgid() failed: '' @ k_strerror k e) tr)
        | (None, tr) \<Rightarrow>
        case sys_setresuid k uid uid uid tr of
          (Some e, tr) \<Rightarrow> (-1, out (''[backend] setresuid() failed: '' @ k_strerror k e) tr)
        | (None, tr) \<Rightarrow>
        let tr = log_uids k ''after privilege drop'' tr;
            (_, tr) = log_proc_status_uid_lines k ''after privilege drop'' tr
        in case sys_getresuid k tr of
          (Inl e, tr) \<Rightarrow> (-1, out (''[backend] getresuid() failed: '' @ k_strerror k e) tr)
        | (Inr (real_uid, effective_uid, saved_uid), tr) \<Rightarrow>
        if real_uid \<noteq> uid \<or> effective_uid \<noteq> uid \<or> saved_uid \<noteq> uid
        then (-1, out ''[backend] UID runtime check failed after privilege drop'' tr)
        else
        case sys_seteuid k 0 tr of
          (None, tr) \<Rightarrow>
            let tr = out ''[backend] privilege drop was reversible; root was regained'' tr;
                (_, tr) = sys_seteuid k uid tr
            in (-1, tr)
        | (Some e, tr) \<Rightarrow>
            if e \<noteq> EPERM
            then (-1, out (''[backend] unexpected root-regain check error: '' @ k_strerror k e) tr)
            else (0, out (''[backend] privileges permanently dropped to UID '' @ show_uid uid @
                          '' GID '' @ show_uid gid) tr))"

subsection \<open>The credentials of a Linux process\<close>

record credentials =
  uids :: "uid \<times> uid \<times> uid"
  gids :: "gid \<times> gid \<times> gid"
  groups :: "gid list"

definition euid_of :: "credentials \<Rightarrow> uid" where
  "euid_of c = fst (snd (uids c))"

text \<open>The argument \<open>-1\<close> leaves an id as it is.\<close>

definition chosen :: "u32 \<Rightarrow> u32 \<Rightarrow> u32" where
  "chosen new old = (if new = -1 then old else new)"

fun set_ids :: "u32 \<Rightarrow> u32 \<Rightarrow> u32 \<Rightarrow> u32 \<times> u32 \<times> u32 \<Rightarrow> u32 \<times> u32 \<times> u32" where
  "set_ids a b c (r, e, s) = (chosen a r, chosen b e, chosen c s)"

fun one_of :: "u32 \<Rightarrow> u32 \<times> u32 \<times> u32 \<Rightarrow> bool" where
  "one_of a (r, e, s) \<longleftrightarrow> a = -1 \<or> a = r \<or> a = e \<or> a = s"

fun credential_step :: "credentials \<Rightarrow> auth_event \<Rightarrow> credentials" where
  "credential_step s (Setresuid a b c None) = s\<lparr>uids := set_ids a b c (uids s)\<rparr>"
| "credential_step s (Seteuid u None) = s\<lparr>uids := set_ids (-1) u (-1) (uids s)\<rparr>"
| "credential_step s (Setresgid a b c None) = s\<lparr>gids := set_ids a b c (gids s)\<rparr>"
| "credential_step s (Setgroups gs None) = s\<lparr>groups := gs\<rparr>"
| "credential_step s _ = s"

definition credentials_after :: "credentials \<Rightarrow> auth_trace \<Rightarrow> credentials" where
  "credentials_after c tr = fold (\<lambda>e s. credential_step s e) tr c"

text \<open>Without the effective user id 0 a process may only choose among the ids that it has.\<close>

fun permitted :: "credentials \<Rightarrow> auth_event \<Rightarrow> bool" where
  "permitted s (Setresuid a b c _) \<longleftrightarrow>
     euid_of s = 0 \<or> (one_of a (uids s) \<and> one_of b (uids s) \<and> one_of c (uids s))"
| "permitted s (Seteuid u _) \<longleftrightarrow> euid_of s = 0 \<or> one_of u (uids s)"
| "permitted s (Setresgid a b c _) \<longleftrightarrow>
     euid_of s = 0 \<or> (one_of a (gids s) \<and> one_of b (gids s) \<and> one_of c (gids s))"
| "permitted s (Setgroups _ _) \<longleftrightarrow> euid_of s = 0"
| "permitted s _ \<longleftrightarrow> True"

text \<open>
  A kernel that answers by the machine, started from the credentials \<open>c\<close>: the ids that it reports
  are those of the machine, it refuses what is not permitted with \<^verbatim>\<open>EPERM\<close> and
  grants what is.
\<close>

definition linux_credentials :: "credentials \<Rightarrow> auth_kernel \<Rightarrow> bool" where
  "linux_credentials c k \<longleftrightarrow> (\<forall>tr.
     (let s = credentials_after c tr in
      k_getuid k tr = fst (uids s) \<and> k_geteuid k tr = euid_of s \<and> k_getgid k tr = fst (gids s) \<and>
      k_getresuid k tr = Inr (uids s) \<and>
      (\<forall>a b d. k_setresuid k tr a b d =
         (if permitted s (Setresuid a b d None) then None else Some EPERM)) \<and>
      (\<forall>a b d. k_setresgid k tr a b d =
         (if permitted s (Setresgid a b d None) then None else Some EPERM)) \<and>
      (\<forall>u. k_seteuid k tr u = (if permitted s (Seteuid u None) then None else Some EPERM)) \<and>
      (\<forall>gs. k_setgroups k tr gs = (if permitted s (Setgroups gs None) then None else Some EPERM))))"

subsection \<open>What the drop does to the credentials\<close>

text \<open>The calls that read or change the identity of the process, and the events of the logging.\<close>

fun identity_call :: "auth_event \<Rightarrow> bool" where
  "identity_call (Setgroups _ _) = True"
| "identity_call (Setresgid _ _ _ _) = True"
| "identity_call (Setresuid _ _ _ _) = True"
| "identity_call (Getresuid _) = True"
| "identity_call (Seteuid _ _) = True"
| "identity_call _ = False"

fun log_event :: "auth_event \<Rightarrow> bool" where
  "log_event (Out _) = True"
| "log_event (OutText _) = True"
| "log_event (GetUid _) = True"
| "log_event (GetEuid _) = True"
| "log_event (Fopen p _) = (p = PROC_STATUS_PATH)"
| "log_event (Fclose _) = True"
| "log_event _ = False"

lemma log_event_identity: "log_event e \<Longrightarrow> \<not> identity_call e"
  by (cases e) auto

lemma credential_step_log: "log_event e \<Longrightarrow> credential_step s e = s"
  by (cases e) auto

lemma credentials_after_simps [simp]:
  "credentials_after c (tr @ ev) = credentials_after (credentials_after c tr) ev"
  "credentials_after c [] = c"
  "credentials_after c (e # ev) = credentials_after (credential_step c e) ev"
  by (simp_all add: credentials_after_def)

lemma credentials_after_log: "list_all log_event ev \<Longrightarrow> credentials_after c ev = c"
  by (induction ev) (simp_all add: credential_step_log)

lemma filter_identity_log: "list_all log_event ev \<Longrightarrow> filter identity_call ev = []"
  by (induction ev) (simp_all add: log_event_identity)

lemma log_uids_log: "extends log_event tr (log_uids k stage tr)"
  by (simp add: log_uids_def sys_defs Let_def)

lemma uid_lines_log:
  "uid_lines stage f line found tr = (found', f', tr') \<Longrightarrow> extends log_event tr tr'"
proof (induction stage f line found tr rule: uid_lines.induct)
  case (1 stage f line found tr)
  then show ?case
    by (subst (asm) uid_lines.simps)
       (auto simp: sys_defs split: option.splits prod.splits if_splits intro: extends_step)
qed

lemma log_proc_status_uid_lines_log:
  "extends log_event tr (snd (log_proc_status_uid_lines k stage tr))"
proof -
  obtain found f' tr' where u: "\<And>f. k_fopen k tr PROC_STATUS_PATH = Inr f \<Longrightarrow>
      uid_lines stage f (zeros PROC_STATUS_LINE_MAX) False (tr @ [Fopen PROC_STATUS_PATH None]) = (found, f', tr')"
    by (cases "k_fopen k tr PROC_STATUS_PATH") (auto intro: prod_cases3)
  show ?thesis
  proof (cases "k_fopen k tr PROC_STATUS_PATH")
    case (Inr f)
    from extends_step [OF uid_lines_log [OF u [OF Inr]]] obtain ev where "tr' = tr @ ev" "list_all log_event ev"
      by (auto elim: extendsE)
    with Inr u [OF Inr] show ?thesis
      by (simp add: log_proc_status_uid_lines_def sys_defs Let_def split: option.splits)
  qed (simp add: log_proc_status_uid_lines_def sys_defs)
qed

text \<open>Both logging calls of a stage.\<close>

lemma log_stage:
  obtains ev rc where
    "log_proc_status_uid_lines k stage (log_uids k stage tr) = (rc, tr @ ev)" "list_all log_event ev"
proof -
  have "extends log_event tr (snd (log_proc_status_uid_lines k stage (log_uids k stage tr)))"
    using log_uids_log log_proc_status_uid_lines_log by (rule extends_trans)
  then show thesis
    by (metis that extendsE prod.collapse)
qed

lemma drop_privileges_shape:
  assumes "drop_privileges_permanently k uid gid tr = (rc, tr')"
  shows "rc = 0 \<or> rc = -1"
    and "rc = 0 \<Longrightarrow> uid \<noteq> 0 \<and> (\<exists>ev e. tr' = tr @ ev \<and> GetEuid e \<in> set ev \<and>
      filter identity_call ev = (if e = 0 then [Setgroups [] None] else []) @
        [Setresgid gid gid gid None, Setresuid uid uid uid None, Getresuid (Inr (uid, uid, uid)),
         Seteuid 0 (Some EPERM)])"
    and "extends (\<lambda>e. identity_call e \<or> log_event e) tr tr'"
proof -
  obtain ev1 r1 where 1: "log_proc_status_uid_lines k ''before privilege drop''
      (log_uids k ''before privilege drop'' tr) = (r1, tr @ ev1)" "list_all log_event ev1"
    by (rule log_stage)
  have la: "list_all (\<lambda>e. identity_call e \<or> log_event e) ev" if "list_all log_event ev" for ev
    using that by (rule list.pred_mono_strong) auto
  define e where "e = k_geteuid k (tr @ ev1)"
  define ev2 where "ev2 = ev1 @ GetEuid e # (if e = 0 then [Setgroups [] None] else []) @
    [Setresgid gid gid gid None, Setresuid uid uid uid None]"
  obtain ev3 r3 where 3: "log_proc_status_uid_lines k ''after privilege drop''
      (log_uids k ''after privilege drop'' (tr @ ev2)) = (r3, (tr @ ev2) @ ev3)"
      "list_all log_event ev3"
    by (rule log_stage)
  note facts = 1(1) 3(1) [unfolded ev2_def, simplified] e_def [symmetric]
  note logs = filter_identity_log [OF 1(2)] filter_identity_log [OF 3(2)]
  from assms show "rc = 0 \<or> rc = -1"
    by (auto simp: drop_privileges_permanently_def Let_def split: option.splits sum.splits prod.splits if_splits)
  show "rc = 0 \<Longrightarrow> uid \<noteq> 0 \<and> (\<exists>ev e. tr' = tr @ ev \<and> GetEuid e \<in> set ev \<and>
      filter identity_call ev = (if e = 0 then [Setgroups [] None] else []) @
        [Setresgid gid gid gid None, Setresuid uid uid uid None, Getresuid (Inr (uid, uid, uid)),
         Seteuid 0 (Some EPERM)])"
    using assms facts logs
    by (auto simp: drop_privileges_permanently_def sys_defs Let_def
        split: option.splits sum.splits prod.splits if_splits)
  show "extends (\<lambda>e. identity_call e \<or> log_event e) tr tr'"
    using assms facts la [OF 1(2)] la [OF 3(2)]
    by (auto simp: drop_privileges_permanently_def sys_defs Let_def
        split: option.splits sum.splits prod.splits if_splits)
qed

text \<open>
  A lawful continuation: every identity change that succeeds was permitted.
\<close>

fun lawful :: "credentials \<Rightarrow> auth_trace \<Rightarrow> bool" where
  "lawful s [] \<longleftrightarrow> True"
| "lawful s (e # ev) \<longleftrightarrow>
     (credential_step s e \<noteq> s \<longrightarrow> permitted s e) \<and> lawful (credential_step s e) ev"

lemma unprivileged_step:
  assumes "uids s = (u, u, u)" and "u \<noteq> 0" and "credential_step s e \<noteq> s \<longrightarrow> permitted s e"
  shows "uids (credential_step s e) = (u, u, u)"
proof (cases "credential_step s e = s")
  case False
  then show ?thesis
    using assms
    by (cases "(s, e)" rule: credential_step.cases) (auto simp: euid_of_def chosen_def)
qed (simp add: assms(1))

lemma unprivileged_stays:
  "uids s = (u, u, u) \<Longrightarrow> u \<noteq> 0 \<Longrightarrow> lawful s ev \<Longrightarrow>
   uids (credentials_after s ev) = (u, u, u)"
proof (induction ev arbitrary: s)
  case (Cons e ev)
  then show ?case
    using unprivileged_step [of s u e] by simp
qed simp

lemma linux_credentials_answers:
  assumes "linux_credentials c k"
  shows "k_getuid k tr = fst (uids (credentials_after c tr))"
    and "k_geteuid k tr = euid_of (credentials_after c tr)"
    and "k_getgid k tr = fst (gids (credentials_after c tr))"
    and "k_getresuid k tr = Inr (uids (credentials_after c tr))"
    and "k_setresuid k tr a b d =
      (if permitted (credentials_after c tr) (Setresuid a b d None) then None else Some EPERM)"
    and "k_setresgid k tr a b d =
      (if permitted (credentials_after c tr) (Setresgid a b d None) then None else Some EPERM)"
    and "k_seteuid k tr a =
      (if permitted (credentials_after c tr) (Seteuid a None) then None else Some EPERM)"
    and "k_setgroups k tr gs =
      (if permitted (credentials_after c tr) (Setgroups gs None) then None else Some EPERM)"
  using assms by (simp_all add: linux_credentials_def Let_def)

lemma drop_privileges_linux_lemma:
  assumes linux: "linux_credentials c k"
    and uids: "uids (credentials_after c tr) = (uid, e, s)" and gids: "fst (gids (credentials_after c tr)) = gid"
    and valid: "uid \<noteq> 0" "uid \<noteq> -1" "gid \<noteq> -1"
    and drop: "drop_privileges_permanently k uid gid tr = (rc, tr')"
  shows "rc = 0 \<and> credentials_after c tr' =
      \<lparr>uids = (uid, uid, uid), gids = (gid, gid, gid),
       groups = if e = 0 then [] else groups (credentials_after c tr)\<rparr>"
proof -
  obtain ev1 r1 where 1: "log_proc_status_uid_lines k ''before privilege drop''
      (log_uids k ''before privilege drop'' tr) = (r1, tr @ ev1)" "list_all log_event ev1"
    by (rule log_stage)
  define ev2 where "ev2 = ev1 @ GetEuid e # (if e = 0 then [Setgroups [] None] else []) @
    [Setresgid gid gid gid None, Setresuid uid uid uid None]"
  obtain ev3 r3 where 3: "log_proc_status_uid_lines k ''after privilege drop''
      (log_uids k ''after privilege drop'' (tr @ ev2)) = (r3, (tr @ ev2) @ ev3)"
      "list_all log_event ev3"
    by (rule log_stage)
  note cl = credentials_after_log [OF 1(2)] credentials_after_log [OF 3(2)]
  obtain g e' s' where g: "gids (credentials_after c tr) = (gid, e', s')"
    using gids by (cases "gids (credentials_after c tr)") auto
  show ?thesis
    using drop 1(1) 3(1) [unfolded ev2_def, simplified] uids g valid cl
    by (auto simp: drop_privileges_permanently_def sys_defs Let_def linux_credentials_answers [OF linux]
        euid_of_def chosen_def credentials.equality
        split: option.splits sum.splits prod.splits if_splits)
qed


text \<open>The kernel that runs the machine.\<close>

definition machine_answer :: "credentials \<Rightarrow> auth_trace \<Rightarrow> auth_event \<Rightarrow> errno option" where
  "machine_answer c tr e = (if permitted (credentials_after c tr) e then None else Some EPERM)"

definition credentials_kernel :: "credentials \<Rightarrow> auth_kernel" where
  "credentials_kernel c = demo_kernel
     \<lparr>k_getuid := \<lambda>tr. fst (uids (credentials_after c tr)),
      k_geteuid := \<lambda>tr. euid_of (credentials_after c tr),
      k_getgid := \<lambda>tr. fst (gids (credentials_after c tr)),
      k_getresuid := \<lambda>tr. Inr (uids (credentials_after c tr)),
      k_setresuid := \<lambda>tr a b d. machine_answer c tr (Setresuid a b d None),
      k_setresgid := \<lambda>tr a b d. machine_answer c tr (Setresgid a b d None),
      k_seteuid := \<lambda>tr u. machine_answer c tr (Seteuid u None),
      k_setgroups := \<lambda>tr gs. machine_answer c tr (Setgroups gs None)\<rparr>"

lemma linux_credentials_kernel: "linux_credentials c (credentials_kernel c)"
  by (simp add: linux_credentials_def credentials_kernel_def machine_answer_def Let_def)

text \<open>A program that root owns and that has the set-user-id bit, run by user and group 1000.\<close>

definition setuid_root :: credentials where
  "setuid_root = \<lparr>uids = (1000, 0, 0), gids = (1000, 1000, 1000), groups = [4, 27, 1000]\<rparr>"

subsection \<open>Properties\<close>

text \<open>
  C12: on every kernel, \<^verbatim>\<open>drop_privileges_permanently\<close> returns 0 or -1, and 0 only for a
  target other than root and after exactly these calls on its identity, in this order, each with
  this result: the supplementary groups dropped (when the effective user was root), all three
  group ids set, all three user ids set, the user ids read back and found equal to the target, and
  the attempt to become root again refused with \<^verbatim>\<open>EPERM\<close>.
\<close>

theorem drop_privileges_success:
  assumes "drop_privileges_permanently k uid gid tr = (rc, tr')"
  shows "(rc = 0 \<or> rc = -1) \<and>
    (rc = 0 \<longrightarrow> uid \<noteq> 0 \<and> (\<exists>ev e. tr' = tr @ ev \<and> GetEuid e \<in> set ev \<and>
      filter identity_call ev = (if e = 0 then [Setgroups [] None] else []) @
        [Setresgid gid gid gid None, Setresuid uid uid uid None, Getresuid (Inr (uid, uid, uid)),
         Seteuid 0 (Some EPERM)]))"
  using drop_privileges_shape [OF assms] by blast

theorem drop_privileges_success_witness:
  "fst (drop_privileges_permanently (credentials_kernel setuid_root) 1000 1000 []) = 0 \<and>
   (\<exists>ev e. snd (drop_privileges_permanently (credentials_kernel setuid_root) 1000 1000 []) = ev \<and>
      GetEuid e \<in> set ev \<and>
      filter identity_call ev = (if e = 0 then [Setgroups [] None] else []) @
        [Setresgid 1000 1000 1000 None, Setresuid 1000 1000 1000 None,
         Getresuid (Inr (1000, 1000, 1000)), Seteuid 0 (Some EPERM)])"
proof -
  have "fst (drop_privileges_permanently (credentials_kernel setuid_root) 1000 1000 []) = 0"
    by code_simp
  with drop_privileges_success [OF prod.collapse [symmetric],
      of "credentials_kernel setuid_root" 1000 1000 "[]"]
  show ?thesis
    by simp
qed

text \<open>
  C4: on a kernel that keeps credentials as Linux does, a process with a real user other than root
  drops everything: \<^verbatim>\<open>drop_privileges_permanently\<close> returns 0, the real, effective and
  saved ids are the caller's own, a process that was root has no supplementary groups left, and no
  continuation of lawful identity changes brings any user id back.
\<close>

theorem drop_privileges_is_permanent:
  assumes "linux_credentials c k"
    and "uids (credentials_after c tr) = (uid, e, s)" and "fst (gids (credentials_after c tr)) = gid"
    and "uid \<noteq> 0" and "uid \<noteq> -1" and "gid \<noteq> -1"
    and "drop_privileges_permanently k uid gid tr = (rc, tr')"
    and "lawful (credentials_after c tr') ev"
  shows "rc = 0 \<and> gids (credentials_after c tr') = (gid, gid, gid) \<and>
    groups (credentials_after c tr') = (if e = 0 then [] else groups (credentials_after c tr)) \<and>
    uids (credentials_after c (tr' @ ev)) = (uid, uid, uid)"
  using drop_privileges_linux_lemma [OF assms(1-7)] unprivileged_stays [OF _ assms(4,8)] by simp

theorem drop_privileges_is_permanent_witness:
  "fst (drop_privileges_permanently (credentials_kernel setuid_root) 1000 1000 []) = 0 \<and>
   uids (credentials_after setuid_root
     (snd (drop_privileges_permanently (credentials_kernel setuid_root) 1000 1000 []) @
      [Setresuid 0 0 0 (Some EPERM), Seteuid 1000 None])) = (1000, 1000, 1000)"
proof -
  have "lawful (credentials_after setuid_root (snd (drop_privileges_permanently (credentials_kernel setuid_root) 1000 1000 [])))
     [Setresuid 0 0 0 (Some EPERM), Seteuid 1000 None]"
    by code_simp
  from drop_privileges_is_permanent [OF linux_credentials_kernel _ _ _ _ _ prod.collapse [symmetric] this]
  show ?thesis
    by (simp add: setuid_root_def)
qed

end
