(* ===== verification/Backend_Main.thy ===== *)
theory Backend_Main
  imports Backend_Request Backend_Privilege Backend_Socket Auth_Transfer
begin

text \<open>
  \<^verbatim>\<open>send_peer_rejection\<close>, \<^verbatim>\<open>handle_client\<close> and \<^verbatim>\<open>main\<close> of \<^verbatim>\<open>Backend.c\<close>:
  the whole backend process, from its start to its exit code, with the memory that held secrets.
\<close>

definition PATH_MAX :: nat where
  "PATH_MAX = 4096"

definition send_peer_rejection :: "auth_kernel \<Rightarrow> fd \<Rightarrow> auth_trace \<Rightarrow> (int \<times> auth_trace) option" where
  "send_peer_rejection k client_fd tr =
     backend_write_all k client_fd
       (response_bytes
         (set_response AUTH_RESULT_REJECTED AUTH_ERROR_BAD_REQUEST ''peer credentials rejected'')) tr"

text \<open>The result, and what the struct \<^verbatim>\<open>request\<close> holds at the end.\<close>

definition handle_client ::
    "auth_kernel \<Rightarrow> fd \<Rightarrow> DemoCredential \<Rightarrow> auth_trace \<Rightarrow> (int \<times> buffer \<times> auth_trace) option" where
  "handle_client k client_fd credential tr =
     do {
       (received, request, tr) \<leftarrow>
         backend_read_all k client_fd (zeros sizeof_request) 0 sizeof_request tr;
       if received \<noteq> 0 then Some (-1, secure_clear request sizeof_request, tr)
       else do {
         let (response, tr) = process_request (request_of_bytes request) credential tr;
         (written, tr) \<leftarrow> backend_write_all k client_fd (response_bytes response) tr;
         if written \<noteq> 0 then Some (-1, secure_clear request sizeof_request, tr)
         else
           let tr = out (''[backend] sent response: result='' @ show_uid (rs_result response) @
                         '' error='' @ show_uid (rs_error_code response)) tr
           in Some (0, secure_clear request sizeof_request, tr)
       }
     }"

text \<open>The locals of \<^verbatim>\<open>main\<close> that its cleanup reads.\<close>

record backend_locals =
  b_credential_path :: buffer
  b_credential :: DemoCredential
  b_server_fd :: fd
  b_client_fd :: fd
  b_exit_code :: int

definition initial_locals :: backend_locals where
  "initial_locals =
     \<lparr>b_credential_path = zeros PATH_MAX, b_credential = zero_credential,
      b_server_fd = -1, b_client_fd = -1, b_exit_code = EXIT_FAILURE\<rparr>"

text \<open>From the accepted connection to the label \<^verbatim>\<open>cleanup\<close>.\<close>

definition serve_client ::
    "auth_kernel \<Rightarrow> uid \<Rightarrow> gid \<Rightarrow> backend_locals \<Rightarrow> auth_trace \<Rightarrow>
     (backend_locals \<times> auth_trace) option" where
  "serve_client k invoking_uid invoking_gid s tr =
     (case verify_peer_credentials k (b_client_fd s) invoking_uid invoking_gid tr of
        (verified, tr) \<Rightarrow>
          if verified \<noteq> 0
          then do {
            (_, tr) \<leftarrow> send_peer_rejection k (b_client_fd s) tr;
            Some (s, tr)
          }
          else do {
            (handled, _, tr) \<leftarrow> handle_client k (b_client_fd s) (b_credential s) tr;
            Some (if handled = 0 then s\<lparr>b_exit_code := EXIT_SUCCESS\<rparr> else s, tr)
          })"

text \<open>From the dropped privileges to the label \<^verbatim>\<open>cleanup\<close>.\<close>

definition serve ::
    "auth_kernel \<Rightarrow> uid \<Rightarrow> gid \<Rightarrow> backend_locals \<Rightarrow> auth_trace \<Rightarrow>
     (backend_locals \<times> auth_trace) option" where
  "serve k invoking_uid invoking_gid s tr =
     (case create_server_socket k tr of
        (server_fd, tr) \<Rightarrow>
          let s = s\<lparr>b_server_fd := server_fd\<rparr> in
          if server_fd < 0 then Some (s, tr)
          else do {
            (client_fd, tr) \<leftarrow> accept_one_client k server_fd tr;
            let s = s\<lparr>b_client_fd := client_fd\<rparr>;
            if client_fd < 0 then Some (s, tr)
            else serve_client k invoking_uid invoking_gid s tr
          })"

text \<open>From the first log line to the label \<^verbatim>\<open>cleanup\<close>.\<close>

definition backend_run ::
    "auth_kernel \<Rightarrow> uid \<Rightarrow> gid \<Rightarrow> auth_trace \<Rightarrow> (backend_locals \<times> auth_trace) option" where
  "backend_run k invoking_uid invoking_gid tr =
     (let s = initial_locals;
          (installed, tr) = install_signal_handlers k (out ''[backend] startup'' tr)
      in
      if installed \<noteq> 0 then Some (s, tr)
      else
        let tr = log_uids k ''startup'' tr;
            (_, tr) = log_proc_status_uid_lines k ''startup'' tr;
            (resolved, path, tr) = resolve_demo_credential_path k (b_credential_path s) PATH_MAX tr;
            s = s\<lparr>b_credential_path := path\<rparr>
        in
        if resolved \<noteq> 0 then Some (s, tr)
        else
          let (loaded, credential, _, tr) = load_demo_credential k (cstr path) tr;
              s = s\<lparr>b_credential := credential\<rparr>
          in
          if loaded \<noteq> 0 then Some (s, tr)
          else
            let (dropped, tr) = drop_privileges_permanently k invoking_uid invoking_gid tr in
            if dropped \<noteq> 0 then Some (s, tr)
            else serve k invoking_uid invoking_gid s tr)"

definition backend_cleanup :: "auth_kernel \<Rightarrow> backend_locals \<times> auth_trace \<Rightarrow> backend_locals \<times> auth_trace"
    where
  "backend_cleanup k st =
     (case st of (s, tr) \<Rightarrow>
        let tr = close_logged k (b_client_fd s) ''client socket'' tr;
            tr = close_logged k (b_server_fd s) ''server socket'' tr;
            tr = (if 0 \<le> b_server_fd s then unlink_socket_path k tr else tr)
        in (s\<lparr>b_credential := clear_credential (b_credential s),
              b_credential_path := secure_clear (b_credential_path s) PATH_MAX\<rparr>, tr))"

text \<open>The result is the locals at the return, among them the exit code.\<close>

definition backend_main :: "auth_kernel \<Rightarrow> auth_trace \<Rightarrow> (backend_locals \<times> auth_trace) option" where
  "backend_main k tr =
     (let (invoking_uid, tr) = sys_getuid k tr;
          (invoking_gid, tr) = sys_getgid k tr;
          (buffered, tr) = sys_setvbuf k tr
      in
      if \<not> buffered
      then Some (initial_locals,
             err_out ''[backend] unable to configure line-buffered logging'' tr)
      else do {
        st \<leftarrow> backend_run k invoking_uid invoking_gid tr;
        Some (backend_cleanup k st)
      })"

subsection \<open>The events of the stages\<close>

text \<open>Everything before the privilege drop, and everything after it.\<close>

definition startup_event :: "auth_event \<Rightarrow> bool" where
  "startup_event e =
     (case e of Out _ \<Rightarrow> True | OutText _ \<Rightarrow> True | ErrOut _ \<Rightarrow> True | GetUid _ \<Rightarrow> True
      | GetEuid _ \<Rightarrow> True | GetGid _ \<Rightarrow> True | Setvbuf _ \<Rightarrow> True | SigAction _ _ _ \<Rightarrow> True
      | Readlink _ _ _ \<Rightarrow> True | Fopen _ _ \<Rightarrow> True | Fclose _ \<Rightarrow> True | _ \<Rightarrow> False)"

definition network_event :: "auth_event \<Rightarrow> bool" where
  "network_event e =
     (case e of Socket _ \<Rightarrow> True | Lstat _ _ \<Rightarrow> True | Unlink _ _ \<Rightarrow> True | Bind _ _ _ \<Rightarrow> True
      | Chmod _ _ _ \<Rightarrow> True | Listen _ _ _ \<Rightarrow> True | Accept _ _ \<Rightarrow> True | Connect _ _ _ \<Rightarrow> True
      | PeerCred _ _ \<Rightarrow> True | Read _ _ _ \<Rightarrow> True | Write _ _ _ \<Rightarrow> True | _ \<Rightarrow> False)"

lemma startup_event_quiet:
  assumes "startup_event e"
  shows "socket_neutral e" and "\<not> network_event e" and "\<not> identity_call e"
  using assms by (cases e; simp add: startup_event_def network_event_def)+

lemma log_event_startup: "log_event e \<Longrightarrow> startup_event e"
  by (cases e) (auto simp: startup_event_def)

lemma resolve_demo_credential_path_state:
  assumes "resolve_demo_credential_path k path n tr = (rc, path', tr')" and "length path = n" "0 < n"
  shows "length path' = n" and "extends startup_event tr tr'"
proof (atomize (full), cases "k_readlink k tr ''/proc/self/exe''")
  case (Inr name)
  have "length (take (n - 1) name) < n"
    using assms(3) by simp
  with Inr assms show "length path' = n \<and> extends startup_event tr tr'"
    by (auto simp: resolve_demo_credential_path_def sys_defs Let_def startup_event_def
        split: option.splits if_splits)
qed (use assms in \<open>auto simp: resolve_demo_credential_path_def sys_defs Let_def startup_event_def\<close>)

lemma load_lines_startup:
  "load_lines f line cred found tr = (fin, found', cred', line', f', tr') \<Longrightarrow>
   extends startup_event tr tr'"
proof (induction f line cred found tr rule: load_lines.induct)
  case (1 f line cred found tr)
  then show ?case
    by (subst (asm) load_lines.simps)
       (auto simp: sys_defs startup_event_def split: option.splits prod.splits line_action.splits)
qed

lemma load_demo_credential_startup:
  assumes "load_demo_credential k path tr = (rc, cred, line, tr')"
  shows "extends startup_event tr tr'"
proof (cases "k_fopen k tr path")
  case (Inr f)
  obtain fin fnd c l g t where
    ll: "load_lines f (zeros CREDENTIAL_LINE_MAX) zero_credential False (tr @ [Fopen path None])
      = (fin, fnd, c, l, g, t)"
    by (metis prod_cases6)
  obtain ev where "t = tr @ Fopen path None # ev" "list_all startup_event ev"
    using load_lines_startup [OF ll] by (auto elim!: extendsE)
  with assms Inr ll show ?thesis
    by (auto simp: load_demo_credential_def sys_defs Let_def startup_event_def
        split: option.splits if_splits)
qed (use assms in \<open>auto simp: load_demo_credential_def sys_defs Let_def startup_event_def\<close>)

lemma extends_startup_neutral:
  "extends startup_event tr tr' \<Longrightarrow> extends socket_neutral tr tr'"
  by (erule extends_mono) (rule startup_event_quiet)

lemma drop_privileges_neutral:
  assumes "drop_privileges_permanently k uid gid tr = (rc, tr')"
  shows "extends socket_neutral tr tr'"
proof (rule extends_mono [OF drop_privileges_shape(3) [OF assms]])
  fix e assume "identity_call e \<or> log_event e"
  then show "socket_neutral e" by (cases e) auto
qed

lemma read_event_neutral: "read_event d e \<Longrightarrow> socket_neutral e"
  by (cases e) auto

lemma write_event_neutral: "write_event d e \<Longrightarrow> socket_neutral e"
  by (cases e) auto

subsection \<open>What the process owns\<close>

text \<open>
  The open descriptors are those of the two locals, and without a server socket no bound path is
  left behind.
\<close>

definition owned :: "backend_locals \<Rightarrow> auth_trace \<Rightarrow> bool" where
  "owned s tr \<longleftrightarrow>
     open_fds tr = (if 0 \<le> b_client_fd s then [b_client_fd s] else []) @
                   (if 0 \<le> b_server_fd s then [b_server_fd s] else []) \<and>
     (b_server_fd s < 0 \<longrightarrow> \<not> path_left tr) \<and>
     length (b_credential_path s) = PATH_MAX \<and> credential_sized (b_credential s)"

lemma owned_neutral: "owned s tr \<Longrightarrow> extends socket_neutral tr tr' \<Longrightarrow> owned s tr'"
  by (simp add: owned_def extends_neutral)

lemma owned_startup: "owned s tr \<Longrightarrow> extends startup_event tr tr' \<Longrightarrow> owned s tr'"
  by (rule owned_neutral [OF _ extends_startup_neutral])

lemma owned_initial: "owned initial_locals []"
  by (simp add: owned_def initial_locals_def open_fds_def path_left_def)

lemma owned_path: "owned s tr \<Longrightarrow> length p = PATH_MAX \<Longrightarrow> owned (s\<lparr>b_credential_path := p\<rparr>) tr"
  by (simp add: owned_def)

lemma owned_credential:
  "owned s tr \<Longrightarrow> credential_sized c \<Longrightarrow> owned (s\<lparr>b_credential := c\<rparr>) tr"
  by (simp add: owned_def)

lemma owned_exit: "owned s tr \<Longrightarrow> owned (s\<lparr>b_exit_code := e\<rparr>) tr"
  by (simp add: owned_def)

subsection \<open>The conversation with a client\<close>

text \<open>What the backend answers to a request.\<close>

definition answer :: "DemoCredential \<Rightarrow> AuthRequest \<Rightarrow> AuthResponse" where
  "answer c r =
     (let user = cstr (cred_username c); d = decision r user (cstr (cred_password c)) in
      set_response (fst d) (snd d)
        (fst (decision_text (rq_version r) (rq_type r) (cstr (rq_username r))
                (cstr (rq_username r) = user) d)))"

lemma process_request_answer:
  assumes "wf_request r" and "wf_credential c"
  obtains m where "process_request r c tr = (answer c r, tr @ [Out m])"
  using process_request_eq [OF assms, of tr]
  by (auto simp: answer_def Let_def out_def split: prod.splits)

lemma answer_codes:
  "rs_result (answer c r) =
     result_code (fst (decision r (cstr (cred_username c)) (cstr (cred_password c))))"
  "rs_error_code (answer c r) =
     error_code (snd (decision r (cstr (cred_username c)) (cstr (cred_password c))))"
  "wf_response (answer c r)"
  by (simp_all add: answer_def Let_def)

fun conversation_event :: "fd \<Rightarrow> auth_event \<Rightarrow> bool" where
  "conversation_event d (PeerCred d' _) = (d' = d)"
| "conversation_event d e = (read_event d e \<or> write_event d e)"

lemma conversation_events:
  "read_event d e \<Longrightarrow> conversation_event d e" "write_event d e \<Longrightarrow> conversation_event d e"
  by (cases e; simp)+

lemma conversation_neutral: "conversation_event d e \<Longrightarrow> socket_neutral e"
  by (cases e) auto

lemma conversation_trans:
  "extends (conversation_event d) t1 t2 \<Longrightarrow> extends (conversation_event d) t2 t3 \<Longrightarrow>
   extends (conversation_event d) t1 t3"
  by (rule extends_trans)

lemma handle_client_result:
  assumes "handle_client k d cred tr = Some (rc, request, tr')" and "wf_credential cred"
  shows "request = zeros sizeof_request" and "extends (conversation_event d) tr tr'"
    and "rc = 0 \<Longrightarrow> \<exists>bs. length bs = sizeof_request \<and> bytes_read d tr' = bytes_read d tr @ bs \<and>
      bytes_written d tr' =
        bytes_written d tr @ response_bytes (answer cred (request_of_bytes bs))"
proof (atomize (full), goal_cases)
  case 1
  from assms(1) obtain rd buf t1 where
    r: "backend_read_all k d (zeros sizeof_request) 0 sizeof_request tr = Some (rd, buf, t1)"
    by (auto simp: handle_client_def Option.bind_eq_Some_conv)
  note R = breader.read_whole_buffer [of k d "zeros sizeof_request", simplified, OF r]
  then have clear: "secure_clear buf sizeof_request = zeros sizeof_request" and
      ext1: "extends (conversation_event d) tr t1"
    by (auto intro: extends_mono conversation_events)
  show ?case
  proof (cases "rd = 0")
    case False
    with assms(1) r clear ext1 show ?thesis
      by (auto simp: handle_client_def)
  next
    case True
    let ?resp = "answer cred (request_of_bytes buf)"
    have "wf_request (request_of_bytes buf)"
      using R by simp
    then obtain m where p: "process_request (request_of_bytes buf) cred t1 = (?resp, t1 @ [Out m])"
      using assms(2) by (rule process_request_answer)
    from assms(1) r True p obtain wr t2 where
      w: "backend_write_all k d (response_bytes ?resp) (t1 @ [Out m]) = Some (wr, t2)"
      by (auto simp: handle_client_def Option.bind_eq_Some_conv)
    note W = bwriter.write_whole [OF w]
    have ext2: "extends (conversation_event d) tr t2"
      using W ext1
      by (auto intro!: extends_trans [OF ext1] extends_step [where ev = "[Out m]" and tr = t1]
          intro: extends_mono conversation_events)
    have rw: "bytes_read d t2 = bytes_read d t1" "bytes_written d t1 = bytes_written d tr"
      using W R write_loop_reads_nothing [of d "t1 @ [Out m]" t2 d]
        read_loop_writes_nothing [of d tr t1 d] by simp_all
    show ?thesis
      using assms(1) r True p w clear ext2 R W rw
      by (auto simp: handle_client_def Let_def out_def intro: extends_snoc
          intro!: exI [of _ buf] split: if_splits)
  qed
qed

lemma serve_client_result:
  assumes "serve_client k uid gid s tr = Some (s', tr')" and "wf_credential (b_credential s)"
  shows "\<exists>r ev e. tr' = tr @ PeerCred (b_client_fd s) r # ev \<and> s' = s\<lparr>b_exit_code := e\<rparr> \<and>
    list_all (conversation_event (b_client_fd s)) ev \<and>
    (e = b_exit_code s \<or> e = EXIT_SUCCESS \<and> trusted_peer uid gid r \<and>
      (\<exists>bs. length bs = sizeof_request \<and>
        bytes_read (b_client_fd s) tr' = bytes_read (b_client_fd s) tr @ bs \<and>
        bytes_written (b_client_fd s) tr' = bytes_written (b_client_fd s) tr @
          response_bytes (answer (b_credential s) (request_of_bytes bs)))) \<and>
    (\<not> trusted_peer uid gid r \<longrightarrow> (\<forall>d n x. Read d n x \<notin> set ev))"
proof -
  let ?d = "b_client_fd s"
  obtain rc t1 where v: "verify_peer_credentials k ?d uid gid tr = (rc, t1)"
    by fastforce
  define r where "r = k_peercred k tr ?d"
  from verify_peer_credentials_iff [OF v] obtain ev1 where
    rc: "rc = (if trusted_peer uid gid r then 0 else -1)" and
    t1: "t1 = tr @ PeerCred ?d r # ev1" and outs: "\<forall>e\<in>set ev1. \<exists>m. e = Out m"
    by (auto simp: r_def)
  have ev1: "list_all (conversation_event ?d) ev1" "bytes_read ?d ev1 = []" "bytes_written ?d ev1 = []"
      "\<forall>d n x. Read d n x \<notin> set ev1"
    using outs by (induction ev1) (auto simp: list_all_iff)
  have peer: "bytes_read ?d (PeerCred ?d r # ev1) = []" "bytes_written ?d (PeerCred ?d r # ev1) = []"
    using ev1(2,3) by (simp_all add: bytes_read_def bytes_written_def)
  show ?thesis
  proof (cases "trusted_peer uid gid r")
    case True
    with assms(1) v rc obtain hd req t2 where
      h: "handle_client k ?d (b_credential s) t1 = Some (hd, req, t2)" and
      eq: "s' = (if hd = 0 then s\<lparr>b_exit_code := EXIT_SUCCESS\<rparr> else s)" "tr' = t2"
      by (auto simp: serve_client_def Option.bind_eq_Some_conv)
    note H = handle_client_result [OF h assms(2)]
    from H(2) obtain ev2 where t2: "t2 = t1 @ ev2" "list_all (conversation_event ?d) ev2"
      by (rule extendsE)
    define e where "e = (if hd = 0 then EXIT_SUCCESS else b_exit_code s)"
    have c1: "s' = s\<lparr>b_exit_code := e\<rparr>"
      using eq by (simp add: e_def)
    have c2: "tr' = tr @ PeerCred ?d r # (ev1 @ ev2)"
      using t1 t2 eq by simp
    have c3: "list_all (conversation_event ?d) (ev1 @ ev2)"
      using ev1 t2 by simp
    have t1_bytes: "bytes_read ?d t1 = bytes_read ?d tr" "bytes_written ?d t1 = bytes_written ?d tr"
      using peer t1 by simp_all
    have c4: "e = b_exit_code s \<or> e = EXIT_SUCCESS \<and> trusted_peer uid gid r \<and>
      (\<exists>bs. length bs = sizeof_request \<and> bytes_read ?d tr' = bytes_read ?d tr @ bs \<and>
        bytes_written ?d tr' = bytes_written ?d tr @
          response_bytes (answer (b_credential s) (request_of_bytes bs)))"
    proof (cases "hd = 0")
      case hd: True
      from H(3) [OF hd] show ?thesis
        unfolding t1_bytes eq(2) e_def if_P [OF hd] using True by blast
    qed (simp add: e_def)
    show ?thesis
      by (rule exI [of _ r], rule exI [of _ "ev1 @ ev2"], rule exI [of _ e],
          intro conjI c1 c2 c3 c4) (simp add: True)
  next
    case False
    with rc have "rc \<noteq> 0"
      by simp
    with assms(1) v obtain w where
      h: "send_peer_rejection k ?d t1 = Some (w, tr')" and eq: "s' = s"
      unfolding serve_client_def by (cases "send_peer_rejection k ?d t1") auto
    from bwriter.write_whole [OF h [unfolded send_peer_rejection_def]] obtain ev2 where
      t2: "tr' = t1 @ ev2" "list_all (write_event ?d) ev2"
      by (auto elim: extendsE)
    moreover have "list_all (conversation_event ?d) ev2"
      using t2(2) by (rule list.pred_mono_strong) (rule conversation_events)
    moreover have "\<forall>d n x. Read d n x \<notin> set ev2"
      using t2(2) by (auto simp: list_all_iff)
    ultimately show ?thesis
      using t1 ev1 eq False by (intro exI [of _ r] exI [of _ "ev1 @ ev2"] exI [of _ "b_exit_code s"]) auto
  qed
qed

text \<open>A request is read only from a client whose credentials were verified before.\<close>

definition reads_checked :: "uid \<Rightarrow> gid \<Rightarrow> auth_trace \<Rightarrow> bool" where
  "reads_checked uid gid tr \<longleftrightarrow>
     (\<forall>pre d n x post. tr = pre @ Read d n x # post \<longrightarrow>
        (\<exists>r. PeerCred d r \<in> set pre \<and> trusted_peer uid gid r))"

lemma reads_checked_append:
  assumes "reads_checked uid gid tr"
    and "\<And>d n x. Read d n x \<in> set ev \<Longrightarrow> \<exists>r. PeerCred d r \<in> set tr \<and> trusted_peer uid gid r"
  shows "reads_checked uid gid (tr @ ev)"
  unfolding reads_checked_def
proof (intro allI impI)
  fix pre d n x post
  assume "tr @ ev = pre @ Read d n x # post"
  then consider p where "tr = pre @ Read d n x # p" | p where "pre = tr @ p" "ev = p @ Read d n x # post"
    by (auto simp: append_eq_append_conv2 append_eq_Cons_conv)
  then show "\<exists>r. PeerCred d r \<in> set pre \<and> trusted_peer uid gid r"
  proof cases
    case 1
    then show ?thesis using assms(1) by (auto simp: reads_checked_def)
  next
    case 2
    with assms(2) [of d n x] show ?thesis by auto
  qed
qed

lemma reads_checked_no_reads:
  "(\<And>d n x. Read d n x \<notin> set tr) \<Longrightarrow> reads_checked uid gid tr"
  unfolding reads_checked_def by (metis in_set_conv_decomp)

lemma no_transfer:
  assumes "extends (\<lambda>e. \<not> transfer_event e) tr tr'"
  shows "bytes_read d tr' = bytes_read d tr" and "bytes_written d tr' = bytes_written d tr"
    and "reads_checked uid gid tr \<Longrightarrow> reads_checked uid gid tr'"
proof -
  obtain ev where ev: "tr' = tr @ ev" "list_all (\<lambda>e. \<not> transfer_event e) ev"
    using assms by (rule extendsE)
  show "bytes_read d tr' = bytes_read d tr" "bytes_written d tr' = bytes_written d tr"
    using assms by (rule no_transfer_bytes)+
  have "Read d n x \<notin> set ev" for d n x
    using ev(2) by (auto simp: list_all_iff transfer_event_def)
  with ev(1) show "reads_checked uid gid tr \<Longrightarrow> reads_checked uid gid tr'"
    by (auto intro: reads_checked_append)
qed

lemma event_classes:
  "startup_event e \<Longrightarrow> \<not> transfer_event e"
  "socket_event e \<Longrightarrow> \<not> transfer_event e" "socket_event e \<Longrightarrow> \<not> identity_call e"
  "accept_event d e \<Longrightarrow> \<not> transfer_event e" "accept_event d e \<Longrightarrow> \<not> identity_call e"
  "conversation_event d e \<Longrightarrow> \<not> identity_call e"
  "identity_call e \<or> log_event e \<Longrightarrow> \<not> transfer_event e"
  "identity_call e \<or> log_event e \<Longrightarrow> \<not> network_event e"
  by (cases e; simp add: startup_event_def transfer_event_def network_event_def)+

text \<open>What the stage after the privilege drop has done when it ends.\<close>

definition served ::
    "uid \<Rightarrow> gid \<Rightarrow> DemoCredential \<Rightarrow> auth_trace \<Rightarrow> backend_locals \<Rightarrow> auth_trace \<Rightarrow> bool" where
  "served uid gid cred tr s' tr' \<longleftrightarrow>
     extends (\<lambda>e. \<not> identity_call e) tr tr' \<and>
     (reads_checked uid gid tr \<longrightarrow> reads_checked uid gid tr') \<and>
     (b_exit_code s' = EXIT_FAILURE \<or>
      b_exit_code s' = EXIT_SUCCESS \<and>
      (\<exists>d bs. length bs = sizeof_request \<and> bytes_read d tr' = bytes_read d tr @ bs \<and>
        bytes_written d tr' =
          bytes_written d tr @ response_bytes (answer cred (request_of_bytes bs))))"

lemma served_failure:
  "b_exit_code s = EXIT_FAILURE \<Longrightarrow> extends (\<lambda>e. \<not> identity_call e) tr tr' \<Longrightarrow>
   extends (\<lambda>e. \<not> transfer_event e) tr tr' \<Longrightarrow> served uid gid cred tr s tr'"
  by (simp add: served_def no_transfer)

lemma served_later:
  "served uid gid cred t1 s tr' \<Longrightarrow> extends (\<lambda>e. \<not> identity_call e) tr t1 \<Longrightarrow>
   extends (\<lambda>e. \<not> transfer_event e) tr t1 \<Longrightarrow> served uid gid cred tr s tr'"
  using no_transfer [of tr t1] extends_trans [of "\<lambda>e. \<not> identity_call e" tr t1 tr']
  by (simp add: served_def)

lemma serve_client_served:
  assumes "serve_client k uid gid s tr = Some (s', tr')" and "owned s tr"
    and "wf_credential (b_credential s)" and "b_exit_code s = EXIT_FAILURE"
  shows "owned s' tr' \<and> b_credential s' = b_credential s \<and>
    served uid gid (b_credential s) tr s' tr'"
proof -
  let ?d = "b_client_fd s"
  from serve_client_result [OF assms(1,3)] obtain r ev e where
    tr': "tr' = tr @ PeerCred ?d r # ev" and s': "s' = s\<lparr>b_exit_code := e\<rparr>" and
    ev: "list_all (conversation_event ?d) ev" and
    e: "e = EXIT_FAILURE \<or> e = EXIT_SUCCESS \<and> trusted_peer uid gid r \<and>
      (\<exists>bs. length bs = sizeof_request \<and> bytes_read ?d tr' = bytes_read ?d tr @ bs \<and>
        bytes_written ?d tr' = bytes_written ?d tr @
          response_bytes (answer (b_credential s) (request_of_bytes bs)))" and
    bad: "\<not> trusted_peer uid gid r \<longrightarrow> (\<forall>d n x. Read d n x \<notin> set ev)"
    unfolding assms(4) by blast
  have ext: "extends (conversation_event ?d) tr tr'"
    using tr' ev by simp
  have "owned s' tr'"
    using owned_neutral [OF assms(2) extends_mono [OF ext conversation_neutral]] s'
    by (simp add: owned_exit)
  moreover have "extends (\<lambda>e. \<not> identity_call e) tr tr'"
    using ext by (rule extends_mono) (rule event_classes)
  moreover have "reads_checked uid gid tr'" if "reads_checked uid gid tr"
  proof -
    have "reads_checked uid gid ((tr @ [PeerCred ?d r]) @ ev)"
    proof (rule reads_checked_append)
      show "reads_checked uid gid (tr @ [PeerCred ?d r])"
        using that by (rule reads_checked_append) simp
      fix d n x
      assume read: "Read d n x \<in> set ev"
      with ev have "d = ?d"
        by (auto simp: list_all_iff)
      with read bad show "\<exists>r'. PeerCred d r' \<in> set (tr @ [PeerCred ?d r]) \<and> trusted_peer uid gid r'"
        by auto
    qed
    then show ?thesis
      by (simp add: tr')
  qed
  ultimately show ?thesis
    using s' e by (auto simp: served_def)
qed

lemma serve_served:
  assumes "serve k uid gid s tr = Some (s', tr')" and "owned s tr"
    and "b_server_fd s = -1" and "b_client_fd s = -1"
    and "wf_credential (b_credential s)" and "b_exit_code s = EXIT_FAILURE"
  shows "owned s' tr' \<and> b_credential s' = b_credential s \<and>
    served uid gid (b_credential s) tr s' tr'"
proof -
  obtain fd t1 where c: "create_server_socket k tr = (fd, t1)"
    by fastforce
  have open0: "open_fds tr = []" "\<not> path_left tr"
    using assms(2-4) by (simp_all add: owned_def)
  from create_server_socket_shape [OF c open0(2)] obtain ev1 where
    t1: "t1 = tr @ ev1" "list_all socket_event ev1" and
    fd: "if 0 \<le> fd then open_fds t1 = [fd] else fd = -1 \<and> open_fds t1 = [] \<and> \<not> path_left t1"
    using open0 by (auto split: if_splits)
  define s1 where "s1 = s\<lparr>b_server_fd := fd\<rparr>"
  have own1: "owned s1 t1"
    using assms(2,4) fd by (auto simp: owned_def s1_def split: if_splits)
  have soc: "extends socket_event tr t1"
    using t1 by simp
  have ext1: "extends (\<lambda>e. \<not> identity_call e) tr t1" "extends (\<lambda>e. \<not> transfer_event e) tr t1"
    by (rule extends_mono [OF soc]; erule event_classes)+
  show ?thesis
  proof (cases "fd < 0")
    case True
    with assms(1) c have "s' = s1" "tr' = t1"
      by (simp_all add: serve_def s1_def)
    with own1 ext1 assms(6) show ?thesis
      by (simp add: s1_def served_failure)
  next
    case False
    with assms(1) c obtain cfd t2 where a: "accept_one_client k fd t1 = Some (cfd, t2)" and
      cont: "(if cfd < 0 then Some (s1\<lparr>b_client_fd := cfd\<rparr>, t2)
              else serve_client k uid gid (s1\<lparr>b_client_fd := cfd\<rparr>) t2) = Some (s', tr')"
      unfolding serve_def s1_def by (cases "accept_one_client k fd t1") (auto simp: Let_def)
    define s2 where "s2 = s1\<lparr>b_client_fd := cfd\<rparr>"
    from accept_one_client_result [OF a] have
      acc: "extends (accept_event fd) t1 t2" and
      cfd: "path_left t2 = path_left t1"
        "if 0 \<le> cfd then open_fds t2 = cfd # open_fds t1 else cfd = -1 \<and> open_fds t2 = open_fds t1"
      by (auto simp: accept_result_def)
    have ext2: "extends (\<lambda>e. \<not> identity_call e) tr t2" "extends (\<lambda>e. \<not> transfer_event e) tr t2"
      by (rule extends_trans [OF ext1(1) extends_mono [OF acc]], erule event_classes)
         (rule extends_trans [OF ext1(2) extends_mono [OF acc]], erule event_classes)
    have own2: "owned s2 t2"
      using own1 cfd fd False assms(4) by (auto simp: owned_def s2_def s1_def split: if_splits)
    show ?thesis
    proof (cases "cfd < 0")
      case True
      with cont have "s' = s2" "tr' = t2"
        by (simp_all add: s2_def)
      with own2 ext2 assms(6) show ?thesis
        by (simp add: s1_def s2_def served_failure)
    next
      case False
      with cont have "serve_client k uid gid s2 t2 = Some (s', tr')"
        by (simp add: s2_def)
      from serve_client_served [OF this own2] show ?thesis
        using served_later [OF _ ext2] assms(5,6) by (simp add: s1_def s2_def)
    qed
  qed
qed

subsection \<open>The whole process\<close>

text \<open>
  The trace of a run: a part without any network call, then a part without any call on the
  identity; the second part exists only after the permanent privilege drop.
\<close>

definition dropped :: "uid \<Rightarrow> gid \<Rightarrow> auth_trace \<Rightarrow> bool" where
  "dropped uid gid tr \<longleftrightarrow> uid \<noteq> 0 \<and>
     (\<exists>e. filter identity_call tr = (if e = (0 :: uid) then [Setgroups [] None] else []) @
        [Setresgid gid gid gid None, Setresuid uid uid uid None, Getresuid (Inr (uid, uid, uid)),
         Seteuid 0 (Some EPERM)])"

definition network_after_drop :: "uid \<Rightarrow> gid \<Rightarrow> auth_trace \<Rightarrow> bool" where
  "network_after_drop uid gid tr \<longleftrightarrow>
     (\<exists>pre post. tr = pre @ post \<and> list_all (\<lambda>e. \<not> network_event e) pre \<and>
        list_all (\<lambda>e. \<not> identity_call e) post \<and> (post = [] \<or> dropped uid gid pre))"

definition run_result :: "auth_kernel \<Rightarrow> uid \<Rightarrow> gid \<Rightarrow> backend_locals \<Rightarrow> auth_trace \<Rightarrow> bool" where
  "run_result k uid gid s tr \<longleftrightarrow>
     owned s tr \<and> network_after_drop uid gid tr \<and> reads_checked uid gid tr \<and>
     (b_exit_code s = EXIT_FAILURE \<or>
      b_exit_code s = EXIT_SUCCESS \<and>
      (\<exists>path t cred line t' d bs. load_demo_credential k path t = (0, cred, line, t') \<and>
        length bs = sizeof_request \<and> bytes_read d tr = bs \<and>
        bytes_written d tr = response_bytes (answer cred (request_of_bytes bs))))"

lemma run_result_startup:
  assumes "owned s tr" and "list_all (\<lambda>e. \<not> network_event e) tr" and "b_exit_code s = EXIT_FAILURE"
  shows "run_result k uid gid s tr"
proof -
  have "Read d n x \<notin> set tr" for d n x
    using assms(2) by (auto simp: list_all_iff network_event_def)
  moreover have "network_after_drop uid gid tr"
    unfolding network_after_drop_def using assms(2) by (intro exI [of _ tr] exI [of _ "[]"]) simp
  ultimately show ?thesis
    using assms by (simp add: run_result_def reads_checked_no_reads)
qed

lemma extends_no_network:
  "extends startup_event tr tr' \<Longrightarrow> list_all (\<lambda>e. \<not> network_event e) tr \<Longrightarrow>
   list_all (\<lambda>e. \<not> network_event e) tr'"
  by (auto elim!: extendsE simp: list_all_iff startup_event_quiet(2))

lemma install_signal_handlers_startup:
  assumes "install_signal_handlers k tr = (rc, tr')"
  shows "extends startup_event tr tr'"
  using assms
  by (auto simp: install_signal_handlers_def sys_defs Let_def startup_event_def
      split: option.splits if_splits)

lemma load_demo_credential_sized:
  assumes "load_demo_credential k path tr = (rc, cred, line, tr')"
  shows "credential_sized cred" and "rc = 0 \<Longrightarrow> wf_credential cred"
  using load_demo_credential_wf [of k path tr] assms
  by (auto simp: wf_credential_def split: if_splits)


lemma identity_startup: "list_all startup_event ev \<Longrightarrow> filter identity_call ev = []"
  by (induction ev) (simp_all add: startup_event_quiet)

lemma serve_run_result:
  assumes "serve k uid gid s tr = Some (s', tr')" and "owned s tr"
    and "b_server_fd s = -1" and "b_client_fd s = -1"
    and "load_demo_credential k path t = (0, b_credential s, line, t')"
    and "b_exit_code s = EXIT_FAILURE" and "list_all (\<lambda>e. \<not> network_event e) tr"
    and "list_all (\<lambda>e. \<not> transfer_event e) tr" and "dropped uid gid tr"
  shows "run_result k uid gid s' tr'"
proof -
  have "wf_credential (b_credential s)"
    using load_demo_credential_sized(2) [OF assms(5)] by simp
  with assms(1-4,6) have own: "owned s' tr'" and sv: "served uid gid (b_credential s) tr s' tr'"
    by (auto dest: serve_served)
  have quiet: "extends (\<lambda>e. \<not> transfer_event e) [] tr"
    using assms(8) by (simp add: extends_def)
  have none: "bytes_read d tr = []" "bytes_written d tr = []" "reads_checked uid gid tr" for d
    using no_transfer [OF quiet] by (simp_all add: reads_checked_no_reads)
  from sv obtain post where post: "tr' = tr @ post" "list_all (\<lambda>e. \<not> identity_call e) post"
    by (auto simp: served_def elim: extendsE)
  then have "network_after_drop uid gid tr'"
    using assms(7,9) unfolding network_after_drop_def by blast
  moreover have "reads_checked uid gid tr'"
    using sv none(3) by (simp add: served_def)
  ultimately show ?thesis
    using own sv assms(5) none(1,2) unfolding run_result_def served_def by fastforce
qed

lemma backend_run_result:
  assumes "backend_run k uid gid tr = Some (s, tr')" and "extends startup_event [] tr"
  shows "run_result k uid gid s tr'"
proof -
  obtain rc1 t1 where 1: "install_signal_handlers k (out ''[backend] startup'' tr) = (rc1, t1)"
    by fastforce
  obtain rc2 t2 where 2: "log_proc_status_uid_lines k ''startup'' (log_uids k ''startup'' t1) = (rc2, t2)"
    by fastforce
  obtain rc3 path t3 where
    3: "resolve_demo_credential_path k (zeros PATH_MAX) PATH_MAX t2 = (rc3, path, t3)"
    using prod_cases3 by blast
  obtain rc4 cred line t4 where 4: "load_demo_credential k (cstr path) t3 = (rc4, cred, line, t4)"
    using prod_cases4 by blast
  obtain rc5 t5 where 5: "drop_privileges_permanently k uid gid t4 = (rc5, t5)"
    by fastforce
  have e1: "extends startup_event [] t1"
    using extends_trans [OF assms(2), of "out ''[backend] startup'' tr"]
      extends_trans [OF _ install_signal_handlers_startup [OF 1]]
    by (simp add: out_def startup_event_def)
  obtain ev2 where "t2 = t1 @ ev2" "list_all log_event ev2"
    using log_stage [of k "''startup''" t1] 2 by (metis prod.inject)
  then have e2: "extends startup_event [] t2"
    using e1 by (auto simp: extends_def list_all_iff log_event_startup)
  have pos: "0 < PATH_MAX" "length (zeros PATH_MAX) = PATH_MAX"
    by (simp_all add: PATH_MAX_def)
  note R = resolve_demo_credential_path_state [OF 3 pos(2,1)]
  have e3: "extends startup_event [] t3"
    using e2 R(2) by (rule extends_trans)
  have e4: "extends startup_event [] t4"
    using e3 load_demo_credential_startup [OF 4] by (rule extends_trans)
  have quiet: "run_result k uid gid s t"
    if "extends startup_event [] t" "owned s t" "b_exit_code s = EXIT_FAILURE" for s t
    using run_result_startup [OF that(2) extends_no_network [OF that(1)] that(3)] by simp
  let ?s3 = "initial_locals\<lparr>b_credential_path := path\<rparr>"
  let ?s4 = "?s3\<lparr>b_credential := cred\<rparr>"
  have own3: "owned ?s3 t" and own4: "owned ?s4 t" if "extends startup_event [] t" for t
    using owned_startup [OF owned_initial that] R(1) load_demo_credential_sized [OF 4]
    by (simp_all add: owned_path owned_credential)
  show ?thesis
  proof (cases "rc1 = 0 \<and> rc3 = 0 \<and> rc4 = 0 \<and> rc5 = 0")
    case False
    have e5: "list_all (\<lambda>e. \<not> network_event e) t5" "owned ?s4 t5"
      using drop_privileges_shape(3) [OF 5] extends_no_network [OF e4]
        owned_neutral [OF own4 [OF e4] drop_privileges_neutral [OF 5]]
      by (auto elim!: extendsE simp: list_all_iff event_classes(8))
    have "(s, tr') \<in> {(initial_locals, t1), (?s3, t3), (?s4, t4), (?s4, t5)}"
      using assms(1) False 1 2 3 4 5
      by (auto simp: backend_run_def Let_def initial_locals_def split: if_splits)
    then show ?thesis
      using quiet e1 e3 e4 own3 own4 owned_startup [OF owned_initial e1] run_result_startup [OF e5(2,1)]
      by (auto simp: initial_locals_def)
  next
    case True
    have sv: "serve k uid gid ?s4 t5 = Some (s, tr')"
      using assms(1) True 1 2 3 4 5 by (simp add: backend_run_def Let_def initial_locals_def)
    from True have "rc5 = 0"
      by simp
    from drop_privileges_shape(2) [OF 5 this] obtain ev5 e where
      ev5: "uid \<noteq> 0" "t5 = t4 @ ev5" "filter identity_call ev5 = (if e = (0 :: uid) then [Setgroups [] None] else []) @
        [Setresgid gid gid gid None, Setresuid uid uid uid None, Getresuid (Inr (uid, uid, uid)),
         Seteuid 0 (Some EPERM)]"
      by (elim conjE exE) (rule that)
    have "list_all startup_event t4"
      using e4 by (simp add: extends_def)
    then have drp: "dropped uid gid t5"
      unfolding dropped_def using ev5 by (auto simp: identity_startup)
    have cls: "list_all (\<lambda>e. identity_call e \<or> log_event e) ev5"
      using drop_privileges_shape(3) [OF 5] ev5(2) by simp
    then have "list_all (\<lambda>e. \<not> network_event e) t5" "list_all (\<lambda>e. \<not> transfer_event e) t5"
      using \<open>list_all startup_event t4\<close> ev5(2)
      by (auto simp: list_all_iff event_classes(1,7,8) startup_event_quiet)
    with sv owned_neutral [OF own4 [OF e4] drop_privileges_neutral [OF 5]] drp 4 True show ?thesis
      by (intro serve_run_result [of k uid gid ?s4 t5 s tr' "cstr path" t3 line t4])
         (simp_all add: initial_locals_def)
  qed
qed

lemma backend_main_cases:
  assumes "backend_main k [] = Some (s, tr')"
  defines "uid \<equiv> k_getuid k []" and "gid \<equiv> k_getgid k [GetUid (k_getuid k [])]"
  shows "(s = initial_locals \<and> open_fds tr' = [] \<and> \<not> path_left tr' \<and> list_all startup_event tr') \<or>
    (\<exists>s0 tr0. run_result k uid gid s0 tr0 \<and> backend_cleanup k (s0, tr0) = (s, tr'))"
proof -
  let ?tr = "[GetUid uid, GetGid gid]"
  show ?thesis
  proof (cases "k_setvbuf k ?tr")
    case True
    with assms(1) obtain st where
      st: "backend_run k uid gid (?tr @ [Setvbuf True]) = Some st" "backend_cleanup k st = (s, tr')"
      unfolding backend_main_def sys_defs Let_def uid_def gid_def
      by (cases "backend_run k uid gid (?tr @ [Setvbuf True])") (auto simp: uid_def gid_def)
    obtain s0 tr0 where "st = (s0, tr0)"
      by (cases st)
    with st backend_run_result [of k uid gid "?tr @ [Setvbuf True]" s0 tr0] show ?thesis
      by (auto simp: extends_def startup_event_def)
  next
    case False
    with assms(1) show ?thesis
      by (auto simp: backend_main_def sys_defs Let_def uid_def gid_def open_fds_def path_left_def startup_event_def)
  qed
qed

lemma backend_cleanup_state:
  assumes "backend_cleanup k (s0, tr0) = (s, tr')" and "owned s0 tr0"
  shows "open_fds tr' = [] \<and> \<not> path_left tr' \<and> b_credential s = zero_credential \<and>
    b_credential_path s = zeros PATH_MAX \<and> b_exit_code s = b_exit_code s0 \<and>
    extends socket_event tr0 tr'"
proof -
  have "extends socket_event tr0 (close_logged k (b_server_fd s0) l (close_logged k (b_client_fd s0) l' tr0))" for l l'
    using close_logged_state(3) extends_trans by blast
  then have "extends socket_event tr0 (unlink_socket_path k (close_logged k (b_server_fd s0) l
      (close_logged k (b_client_fd s0) l' tr0)))"
      "extends socket_event tr0 (close_logged k (b_server_fd s0) l (close_logged k (b_client_fd s0) l' tr0))"
    for l l'
    using unlink_socket_path_state(3) extends_trans by blast+
  with assms show ?thesis
    by (auto simp: backend_cleanup_def Let_def owned_def close_logged_state unlink_socket_path_state
        clear_credential_sized split: if_splits)
qed

lemma no_network_no_fds:
  assumes "list_all (\<lambda>e. \<not> network_event e) tr"
  shows "open_fds tr = []"
proof -
  have "fd_step e [] = []" if "\<not> network_event e" for e
    using that by (cases e rule: socket_neutral.cases) (auto simp: network_event_def)
  with assms have "fold fd_step tr [] = []"
    by (induction tr) auto
  then show ?thesis
    by (simp add: open_fds_def)
qed

lemma network_after_drop_cleanup:
  assumes "network_after_drop uid gid tr0" and "owned s0 tr0"
    and "backend_cleanup k (s0, tr0) = (s, tr')"
  shows "network_after_drop uid gid tr'"
proof (cases "b_client_fd s0 < 0 \<and> b_server_fd s0 < 0")
  case True
  with assms show ?thesis
    by (simp add: backend_cleanup_def Let_def close_logged_def)
next
  case False
  then have "open_fds tr0 \<noteq> []"
    using assms(2) by (auto simp: owned_def)
  then obtain pre post where 1: "tr0 = pre @ post" "list_all (\<lambda>e. \<not> network_event e) pre"
      "list_all (\<lambda>e. \<not> identity_call e) post" "dropped uid gid pre"
    using assms(1) no_network_no_fds by (auto simp: network_after_drop_def)
  obtain ev where ev: "tr' = tr0 @ ev" "list_all socket_event ev"
    using backend_cleanup_state [OF assms(3,2)] by (auto elim: extendsE)
  have "list_all (\<lambda>e. \<not> identity_call e) (post @ ev)"
    using 1(3) ev(2) by (auto simp: list_all_iff event_classes)
  with 1 ev(1) show ?thesis
    unfolding network_after_drop_def by (intro exI [of _ pre] exI [of _ "post @ ev"]) simp
qed

lemma run_result_cleanup:
  assumes "run_result k uid gid s0 tr0" and "backend_cleanup k (s0, tr0) = (s, tr')"
  shows "network_after_drop uid gid tr'" and "reads_checked uid gid tr'"
    and "bytes_read d tr' = bytes_read d tr0" and "bytes_written d tr' = bytes_written d tr0"
proof -
  have own: "owned s0 tr0"
    using assms(1) by (simp add: run_result_def)
  then have "extends socket_event tr0 tr'"
    using backend_cleanup_state [OF assms(2)] by simp
  then have ext: "extends (\<lambda>e. \<not> transfer_event e) tr0 tr'"
    by (rule extends_mono) (rule event_classes)
  show "network_after_drop uid gid tr'" "reads_checked uid gid tr'"
      "bytes_read d tr' = bytes_read d tr0" "bytes_written d tr' = bytes_written d tr0"
    using assms(1) no_transfer [OF ext] network_after_drop_cleanup [OF _ own assms(2)]
    by (simp_all add: run_result_def)
qed

lemma startup_only:
  assumes "list_all startup_event tr"
  shows "network_after_drop uid gid tr" and "reads_checked uid gid tr"
    and "bytes_read d tr = []" and "bytes_written d tr = []"
proof -
  have "list_all (\<lambda>e. \<not> network_event e) tr"
    using assms by (auto simp: list_all_iff startup_event_quiet)
  then show "network_after_drop uid gid tr"
    unfolding network_after_drop_def by (intro exI [of _ tr] exI [of _ "[]"]) simp
  have "extends (\<lambda>e. \<not> transfer_event e) [] tr"
    using assms by (auto simp: extends_def list_all_iff event_classes)
  from no_transfer [OF this] show "reads_checked uid gid tr" "bytes_read d tr = []" "bytes_written d tr = []"
    by (simp_all add: reads_checked_no_reads)
qed

text \<open>Which calls may be interrupted for ever is all that decides about termination.\<close>

lemma handle_client_returns:
  assumes "finite_interrupts b k"
  shows "handle_client k d cred tr \<noteq> None"
proof -
  obtain rd buf t1 where
    r: "backend_read_all k d (zeros sizeof_request) 0 sizeof_request tr = Some (rd, buf, t1)"
    using assms by (rule breader.read_all_total)
  obtain resp t2 where p: "process_request (request_of_bytes buf) cred t1 = (resp, t2)"
    by fastforce
  obtain wr t3 where "backend_write_all k d (response_bytes resp) t2 = Some (wr, t3)"
    using assms by (rule bwriter.write_all_total)
  with r p show ?thesis
    by (simp add: handle_client_def)
qed

lemma serve_returns:
  assumes "finite_interrupts b k"
  shows "serve k uid gid s tr \<noteq> None"
proof -
  have client: "serve_client k uid gid s tr \<noteq> None" for s tr
  proof (cases "verify_peer_credentials k (b_client_fd s) uid gid tr")
    case (Pair rc t1)
    obtain w t2 where "send_peer_rejection k (b_client_fd s) t1 = Some (w, t2)"
      unfolding send_peer_rejection_def using assms by (rule bwriter.write_all_total)
    with Pair handle_client_returns [OF assms, of "b_client_fd s" "b_credential s" t1] show ?thesis
      by (auto simp: serve_client_def)
  qed
  obtain fd t1 where "create_server_socket k tr = (fd, t1)"
    by fastforce
  with accept_one_client_returns [OF assms, of fd t1] client show ?thesis
    by (auto simp: serve_def Let_def)
qed

lemma backend_main_returns_lemma:
  assumes "finite_interrupts b k"
  obtains s tr' where "backend_main k tr = Some (s, tr')"
proof -
  have run: "backend_run k uid gid tr \<noteq> None" for uid gid tr
    using serve_returns [OF assms] by (auto simp: backend_run_def Let_def split: prod.splits)
  then have "backend_main k tr \<noteq> None"
    by (simp add: backend_main_def sys_defs Let_def Option.bind_eq_None_conv del: not_None_eq)
  then show thesis
    using that by (auto simp: not_None_eq)
qed

lemma backend_main_result:
  assumes "backend_main k [] = Some (s, tr')"
  shows "reads_checked (k_getuid k []) (k_getgid k [GetUid (k_getuid k [])]) tr' \<and>
    (b_exit_code s = EXIT_SUCCESS \<longrightarrow>
      (\<exists>path t cred line t' d bs. load_demo_credential k path t = (0, cred, line, t') \<and>
        length bs = sizeof_request \<and> bytes_read d tr' = bs \<and>
        bytes_written d tr' = response_bytes (answer cred (request_of_bytes bs))))"
proof -
  let ?uid = "k_getuid k []" and ?gid = "k_getgid k [GetUid (k_getuid k [])]"
  consider (early) "s = initial_locals" "list_all startup_event tr'"
    | (run) s0 tr0 where "run_result k ?uid ?gid s0 tr0" "backend_cleanup k (s0, tr0) = (s, tr')"
    using backend_main_cases [OF assms] by blast
  then show ?thesis
  proof cases
    case early
    then show ?thesis
      using startup_only by (simp add: initial_locals_def EXIT_SUCCESS_def EXIT_FAILURE_def)
  next
    case run
    note C = run_result_cleanup [OF run]
    have "b_exit_code s = b_exit_code s0"
      using backend_cleanup_state [OF run(2)] run(1) by (simp add: run_result_def)
    with run(1) show ?thesis
      unfolding C(3,4) using C(2)
      by (auto simp: run_result_def EXIT_SUCCESS_def EXIT_FAILURE_def)
  qed
qed

lemma startup_credentials:
  assumes "extends startup_event tr tr'"
  shows "credentials_after c tr' = credentials_after c tr"
proof -
  obtain ev where "tr' = tr @ ev" "list_all startup_event ev" using assms by (rule extendsE)
  then show ?thesis
  proof (induction ev arbitrary: tr' rule: rev_induct)
    case (snoc e ev)
    then have "credentials_after c (tr @ ev) = credentials_after c tr" "startup_event e" by simp_all
    moreover from this(2) have "credential_step s e = s" for s
      by (cases "(s, e)" rule: credential_step.cases) (auto simp: startup_event_def)
    ultimately show ?case using snoc.prems(1) by (simp add: credentials_after_def)
  qed simp
qed

lemma startup_moves_nothing:
  assumes "extends startup_event tr tr'"
  shows "bytes_read d tr' = bytes_read d tr" "bytes_written d tr' = bytes_written d tr"
proof -
  have "\<not> transfer_event e" if "startup_event e" for e
    using that by (cases e) (auto simp: startup_event_def transfer_event_def)
  from no_transfer_bytes [OF extends_mono [OF assms this]]
  show "bytes_read d tr' = bytes_read d tr" "bytes_written d tr' = bytes_written d tr" by simp_all
qed

lemma drop_moves_nothing:
  assumes "drop_privileges_permanently k uid gid tr = (rc, tr')"
  shows "bytes_read d tr' = bytes_read d tr" "bytes_written d tr' = bytes_written d tr"
proof -
  have "\<not> transfer_event e" if "identity_call e \<or> log_event e" for e
    using that by (cases e) (auto simp: transfer_event_def)
  from no_transfer_bytes [OF extends_mono [OF drop_privileges_shape(3) [OF assms] this]]
  show "bytes_read d tr' = bytes_read d tr" "bytes_written d tr' = bytes_written d tr" by simp_all
qed

subsection \<open>A concrete kernel\<close>

text \<open>
  The program with the set-user-id bit, started by user 1000 from \<^verbatim>\<open>/a/build\<close>, and a client of
  that user that sends the right name and password.
\<close>

definition demo_run_kernel :: auth_kernel where
  "demo_run_kernel = (credentials_kernel setuid_root)
     \<lparr>k_fopen := \<lambda>_ p. if p = ''/a/credentials.demo''
        then Inr (open_stream (''demo_user:demo_password'' @ [LF]) None) else Inl ENOENT,
      k_read := \<lambda>_ _ _. Inr (request_bytes (request_for ''demo_user'' ''demo_password''))\<rparr>"

lemma demo_run_kernel_interrupts: "finite_interrupts 0 demo_run_kernel"
  by (simp add: finite_interrupts_def demo_run_kernel_def credentials_kernel_def demo_kernel_def)

lemma demo_run_kernel_user [simp]:
  "k_getuid demo_run_kernel [] = 1000" "k_getgid demo_run_kernel [GetUid 1000] = 1000"
  by (simp_all add: demo_run_kernel_def credentials_kernel_def setuid_root_def)

lemma demo_run_kernel_linux: "linux_credentials setuid_root demo_run_kernel"
  using linux_credentials_kernel [of setuid_root]
  by (simp add: linux_credentials_def demo_run_kernel_def Let_def)

lemma demo_run_kernel_simps [simp]:
  "k_setvbuf demo_run_kernel tr" "\<not> k_flag demo_run_kernel tr" "k_sigaction demo_run_kernel tr sg = None"
  "k_readlink demo_run_kernel tr p = Inr ''/a/build/Backend''"
  "k_fopen demo_run_kernel tr ''/a/credentials.demo'' = Inr (open_stream (unlines [''demo_user:demo_password'']) None)"
  "k_fclose demo_run_kernel tr = None"
  "k_socket demo_run_kernel tr = Inr 3" "k_lstat demo_run_kernel tr p = Inl ENOENT" "k_unlink demo_run_kernel tr p = None"
  "k_bind demo_run_kernel tr d p = None" "k_chmod demo_run_kernel tr p m = None" "k_listen demo_run_kernel tr d b = None"
  "k_accept demo_run_kernel tr d = Inr 4"
  "k_peercred demo_run_kernel tr d = Inr (\<lparr>cr_pid = 77, cr_uid = 1000, cr_gid = 1000\<rparr>, 12)"
  "k_read demo_run_kernel tr d m = Inr (request_bytes (request_for ''demo_user'' ''demo_password''))"
  "k_write demo_run_kernel tr d bs = Inr (length bs)" "k_close demo_run_kernel tr d = None"
  by (simp_all add: demo_run_kernel_def credentials_kernel_def demo_kernel_def unlines_def)

lemma demo_serve:
  assumes "wf_credential (b_credential s)"
  shows "\<exists>s' ev. serve demo_run_kernel 1000 1000 s tr = Some (s', tr @ ev) \<and> b_exit_code s' = EXIT_SUCCESS \<and>
    b_server_fd s' = 3 \<and> b_client_fd s' = 4 \<and>
    (\<forall>d. bytes_read d ev = (if d = 4 then request_bytes demo_request else []) \<and>
       bytes_written d ev = (if d = 4 then response_bytes (answer (b_credential s) demo_request) else []))"
proof -
  let ?bs = "request_bytes demo_request" and ?rs = "response_bytes (answer (b_credential s) demo_request)"
  let ?mute = "\<lambda>ev. \<forall>d. bytes_read d ev = [] \<and> bytes_written d ev = []"
  have "\<exists>ev. create_server_socket demo_run_kernel tr = (3, tr @ ev) \<and> ?mute ev"
    using AUTH_SOCKET_PATH_fits
    by (simp add: create_server_socket_def remove_stale_socket_path_def sys_defs Let_def bytes_read_def
        bytes_written_def)
  then obtain ev1 where S: "create_server_socket demo_run_kernel tr = (3, tr @ ev1)" and e1: "?mute ev1"
    by blast
  let ?t1 = "tr @ ev1"
  have "\<exists>ev. accept_one_client demo_run_kernel 3 ?t1 = Some (4, ?t1 @ ev) \<and> ?mute ev"
    by (subst accept_one_client.simps) (simp add: sys_defs Let_def bytes_read_def bytes_written_def)
  then obtain ev2 where A: "accept_one_client demo_run_kernel 3 ?t1 = Some (4, ?t1 @ ev2)" and e2: "?mute ev2"
    by blast
  let ?t2 = "?t1 @ ev2"
  have "\<exists>ev. verify_peer_credentials demo_run_kernel 4 1000 1000 ?t2 = (0, ?t2 @ ev) \<and> ?mute ev"
    by (simp add: verify_peer_credentials_def sys_defs Let_def sizeof_ucred_def bytes_read_def bytes_written_def)
  then obtain ev3 where V: "verify_peer_credentials demo_run_kernel 4 1000 1000 ?t2 = (0, ?t2 @ ev3)"
      and e3: "?mute ev3"
    by blast
  let ?t3 = "?t2 @ ev3"
  have ne: "?bs \<noteq> []" "?rs \<noteq> []"
    using request_bytes_not_Nil [OF wf_demo_request] length_response_bytes [OF answer_codes(3), of "b_credential s" demo_request]
    by (auto simp: sizeof_response_def)
  have R: "backend_read_all demo_run_kernel 4 (zeros sizeof_request) 0 sizeof_request ?t3 =
      Some (0, ?bs, ?t3 @ [ReadFlag False, Read 4 sizeof_request (Inr ?bs)])"
    using backend_read_whole [of demo_run_kernel ?t3 ?bs 4 "zeros sizeof_request"] ne(1)
      length_request_bytes [OF wf_demo_request] by simp
  let ?t4 = "?t3 @ [ReadFlag False, Read 4 sizeof_request (Inr ?bs)]"
  obtain m where P: "process_request demo_request (b_credential s) ?t4 =
      (answer (b_credential s) demo_request, ?t4 @ [Out m])"
    by (rule process_request_answer [OF wf_demo_request assms])
  let ?t5 = "?t4 @ [Out m]"
  have W: "backend_write_all demo_run_kernel 4 ?rs ?t5 =
      Some (0, ?t5 @ [ReadFlag False, Write 4 ?rs (Inr (length ?rs))])"
    by (rule backend_write_whole [OF _ ne(2)]) simp_all
  have "\<exists>ev. handle_client demo_run_kernel 4 (b_credential s) ?t3 =
      Some (0, secure_clear ?bs sizeof_request, ?t3 @ ev) \<and>
      (\<forall>d. bytes_read d ev = (if d = 4 then ?bs else []) \<and> bytes_written d ev = (if d = 4 then ?rs else []))"
    using R P W by (simp add: handle_client_def out_def Let_def bytes_read_def bytes_written_def)
  then obtain ev4 where H: "handle_client demo_run_kernel 4 (b_credential s) ?t3 =
      Some (0, secure_clear ?bs sizeof_request, ?t3 @ ev4)"
      and e4: "\<forall>d. bytes_read d ev4 = (if d = 4 then ?bs else []) \<and> bytes_written d ev4 = (if d = 4 then ?rs else [])"
    by blast
  have "serve demo_run_kernel 1000 1000 s tr =
      Some (s\<lparr>b_server_fd := 3, b_client_fd := 4, b_exit_code := EXIT_SUCCESS\<rparr>, tr @ ev1 @ ev2 @ ev3 @ ev4)"
    using S A V H by (simp add: serve_def serve_client_def Let_def)
  then show ?thesis using e1 e2 e3 e4 by (intro exI conjI) (assumption, simp_all)
qed

text \<open>The whole run on this machine.\<close>

lemma demo_backend_run:
  "\<exists>s tb cred. backend_main demo_run_kernel [] = Some (s, tb) \<and> b_exit_code s = EXIT_SUCCESS \<and>
    cstr (cred_username cred) = ''demo_user'' \<and> cstr (cred_password cred) = ''demo_password'' \<and>
    talks_on 4 tb \<and> bytes_read 4 tb = request_bytes demo_request \<and>
    bytes_written 4 tb = response_bytes (answer cred demo_request)"
proof -
  let ?k = demo_run_kernel
  let ?t0 = "[GetUid 1000, GetGid 1000, Setvbuf True]"
  have "\<exists>ev. install_signal_handlers ?k (out ''[backend] startup'' ?t0) = (0, ?t0 @ ev) \<and> list_all startup_event ev"
    by (simp add: install_signal_handlers_def sys_defs Let_def startup_event_def)
  then obtain ev1 where I: "install_signal_handlers ?k (out ''[backend] startup'' ?t0) = (0, ?t0 @ ev1)"
      and l1: "list_all startup_event ev1" by blast
  define t1 where "t1 = ?t0 @ ev1"
  note I = I [folded t1_def]
  have x1: "extends startup_event ?t0 t1" using l1 unfolding t1_def extends_def by blast
  obtain ev2 r2 where L: "log_proc_status_uid_lines ?k ''startup'' (log_uids ?k ''startup'' t1) = (r2, t1 @ ev2)"
      and x2: "list_all log_event ev2" by (rule log_stage)
  let ?t2 = "t1 @ ev2"
  have "list_all startup_event ev2" using x2 by (rule list.pred_mono_strong) (rule log_event_startup)
  with x1 have y2: "extends startup_event ?t0 ?t2" by (auto simp: extends_def)
  obtain rc path t3 where R: "resolve_demo_credential_path ?k (zeros PATH_MAX) PATH_MAX ?t2 = (rc, path, t3)"
    by (metis prod_cases3)
  have "case resolve_demo_credential_path ?k (zeros PATH_MAX) PATH_MAX ?t2 of (rc, path', tr') \<Rightarrow>
      rc = 0 \<and> cstr path' = ''/a'' @ ''/'' @ CREDENTIALS_FILE_NAME \<and> length path' = PATH_MAX"
    by (rule resolve_demo_credential_path_sibling [where b = "''build''" and e = "''Backend''"])
      (simp_all add: CREDENTIALS_FILE_NAME_def PATH_MAX_def)
  then have rc: "rc = 0" "cstr path = ''/a/credentials.demo''"
    by (simp_all add: R CREDENTIALS_FILE_NAME_def)
  have x3: "extends startup_event ?t0 t3"
    using extends_trans [OF y2 resolve_demo_credential_path_state(2) [OF R]] by (simp add: PATH_MAX_def)
  obtain lc cred line t4 where D: "load_demo_credential ?k (cstr path) t3 = (lc, cred, line, t4)"
    by (metis prod_cases4)
  have "account_of_lines [''demo_user:demo_password''] = Some (''demo_user'', ''demo_password'')"
    by code_simp
  moreover have "\<forall>l \<in> set [''demo_user:demo_password'']. line_ok l"
    by (simp add: line_ok_def CREDENTIAL_LINE_MAX_def)
  ultimately have cred: "lc = 0" "cstr (cred_username cred) = ''demo_user''" "cstr (cred_password cred) = ''demo_password''"
    using load_demo_credential_meaning [of ?k t3 "cstr path" "[''demo_user:demo_password'']"] D rc(2) by simp_all
  have wf: "wf_credential cred" using load_demo_credential_wf [of ?k "cstr path" t3] D cred(1) by simp
  have x4: "extends startup_event ?t0 t4"
    using extends_trans [OF x3 load_demo_credential_startup [OF D]] .
  have c4: "credentials_after setuid_root t4 = setuid_root"
    using startup_credentials [OF x4, of setuid_root] by (simp add: credentials_after_def)
  obtain dc t5 where P: "drop_privileges_permanently ?k 1000 1000 t4 = (dc, t5)" by fastforce
  have "uids (credentials_after setuid_root t4) = (1000, 0, 0)" "fst (gids (credentials_after setuid_root t4)) = 1000"
    unfolding c4 by (simp_all add: setuid_root_def)
  from drop_privileges_linux_lemma [OF demo_run_kernel_linux this _ _ _ P] have "dc = 0" by simp
  define s0 where "s0 = initial_locals\<lparr>b_credential_path := path, b_credential := cred\<rparr>"
  obtain s1 ev where S: "serve ?k 1000 1000 s0 t5 = Some (s1, t5 @ ev)" "b_exit_code s1 = EXIT_SUCCESS"
      "b_server_fd s1 = 3" "b_client_fd s1 = 4"
      and m: "\<forall>d. bytes_read d ev = (if d = 4 then request_bytes demo_request else []) \<and>
        bytes_written d ev = (if d = 4 then response_bytes (answer cred demo_request) else [])"
    using demo_serve [of s0 t5] wf by (auto simp: s0_def)
  have quiet: "bytes_read d t5 = [] \<and> bytes_written d t5 = []" for d
    using drop_moves_nothing [OF P] startup_moves_nothing [OF x4] by (simp add: bytes_read_def bytes_written_def)
  have run: "backend_run ?k 1000 1000 ?t0 = Some (s1, t5 @ ev)"
    using I L R rc(1) D cred(1) P \<open>dc = 0\<close> S(1)
    by (simp add: backend_run_def s0_def initial_locals_def Let_def)
  obtain s2 t6 where C: "backend_cleanup ?k (s1, t5 @ ev) = (s2, t6)" by fastforce
  then have e: "b_exit_code s2 = EXIT_SUCCESS" and t6: "t6 = (t5 @ ev) @ [Close 4 None, Close 3 None, Unlink AUTH_SOCKET_PATH None]"
    using S(2-4) by (auto simp: backend_cleanup_def close_logged_def unlink_socket_path_def sys_defs Let_def)
  have "backend_main ?k [] = Some (s2, t6)"
    using run C by (simp add: backend_main_def sys_defs Let_def)
  moreover have "bytes_read d t6 = bytes_read d ev" "bytes_written d t6 = bytes_written d ev" for d
    using quiet by (simp_all add: t6 bytes_read_def bytes_written_def)
  ultimately show ?thesis
    using e m cred by (intro exI conjI) (assumption | simp add: talks_on_def)+
qed

subsection \<open>Properties\<close>

text \<open>
  C8: the backend makes no network call before it has given up its privileges for good, and never
  touches its identity afterwards. Every run that returns splits into a part without any call on
  sockets or on the socket path and a part without any call on the identity, and the second part is
  empty unless the first contains the complete, verified drop to the invoking user (who is not root)
  and group.
\<close>

theorem backend_main_network_after_drop:
  assumes "backend_main k [] = Some (s, tr')"
  shows "network_after_drop (k_getuid k []) (k_getgid k [GetUid (k_getuid k [])]) tr'"
  using backend_main_cases [OF assms] startup_only(1) run_result_cleanup(1) by blast

theorem backend_main_network_after_drop_witness:
  "\<exists>s tr'. backend_main demo_run_kernel [] = Some (s, tr') \<and> network_after_drop 1000 1000 tr'"
proof -
  obtain s tr' where "backend_main demo_run_kernel [] = Some (s, tr')"
    using demo_run_kernel_interrupts by (rule backend_main_returns_lemma)
  with backend_main_network_after_drop [OF this] show ?thesis
    by simp
qed



text \<open>
  C6: the backend serves verified peers only. It reads from a client only after the kernel reported,
  in a struct of the full size, a positive process id and the invoking user and group for that very
  connection; and when it exits with 0 it has read exactly one whole request from the client and
  written exactly one whole response, the decision on that request for the account that
  \<^verbatim>\<open>load_demo_credential\<close> delivered.
\<close>

theorem backend_main_serves_verified_peer:
  assumes "backend_main k [] = Some (s, tr')"
  shows "reads_checked (k_getuid k []) (k_getgid k [GetUid (k_getuid k [])]) tr' \<and>
    (b_exit_code s = EXIT_SUCCESS \<longrightarrow>
      (\<exists>path t cred line t' d bs. load_demo_credential k path t = (0, cred, line, t') \<and>
        length bs = sizeof_request \<and> bytes_read d tr' = bs \<and>
        bytes_written d tr' = response_bytes (answer cred (request_of_bytes bs))))"
  by (rule backend_main_result [OF assms])

theorem backend_main_serves_verified_peer_witness:
  "\<exists>s tr'. backend_main demo_run_kernel [] = Some (s, tr') \<and> b_exit_code s = EXIT_SUCCESS \<and>
    reads_checked 1000 1000 tr' \<and> (\<exists>d. length (bytes_read d tr') = sizeof_request)"
proof -
  obtain s tr' where run: "backend_main demo_run_kernel [] = Some (s, tr')" "b_exit_code s = EXIT_SUCCESS"
    using demo_backend_run by blast
  from backend_main_serves_verified_peer [OF run(1)] run show ?thesis
    by auto
qed



end
