(* ===== verification/Auth_System.thy ===== *)
theory Auth_System
  imports Frontend Backend_Main
begin

text \<open>
  The two authentication programs together: a run of the frontend and a run of the backend that are
  the two ends of one connection.
\<close>

text \<open>
  A connection delivers to each end what the other end wrote: the descriptor \<open>df\<close> of the frontend
  and the descriptor \<open>db\<close> of the backend.
\<close>

definition connected :: "fd \<Rightarrow> auth_trace \<Rightarrow> fd \<Rightarrow> auth_trace \<Rightarrow> bool" where
  "connected df tf db tb \<longleftrightarrow>
     bytes_read db tb = bytes_written df tf \<and> bytes_read df tf = bytes_written db tb"

lemma wf_request_typed: "typed f u p \<Longrightarrow> wf_request (request_for u p)"
  by (auto simp: typed_def elim!: input_line_SomeE)

lemma typed_strings:
  assumes "typed f u p"
  shows "cstr (rq_username (request_for u p)) = u" and "cstr (rq_password (request_for u p)) = p"
    and "u \<noteq> []" and "p \<noteq> []"
  using assms by (auto simp: typed_def elim!: input_line_SomeE)

lemma decision_typed:
  assumes "typed f u p"
  shows "fst (decision (request_for u p) u' p') = AUTH_RESULT_SUCCESS \<longleftrightarrow> u = u' \<and> p = p'"
  using typed_strings [OF assms] by (simp add: decision_def)

lemma accepting_answer:
  "accepting (answer c r) \<longleftrightarrow>
     fst (decision r (cstr (cred_username c)) (cstr (cred_password c))) = AUTH_RESULT_SUCCESS"
  using result_code_inject [of _ AUTH_RESULT_SUCCESS]
  by (simp add: accepting_def answer_codes answer_def Let_def del: result_code.simps)


lemma answer_right_account:
  assumes "typed f u p" and "cstr (cred_username c) = u" and "cstr (cred_password c) = p"
  shows "answer c (request_for u p) =
    set_response AUTH_RESULT_SUCCESS AUTH_ERROR_NONE ''authentication successful''"
proof -
  have "decision (request_for u p) u p = (AUTH_RESULT_SUCCESS, AUTH_ERROR_NONE)"
    using typed_strings [OF assms(1)] by (auto simp: decision_def request_for_def AUTH_PROTOCOL_VERSION_def AUTH_REQUEST_VALIDATE_def)
  with assms(2,3) show ?thesis by (simp add: answer_def Let_def)
qed

subsection \<open>Agreement\<close>



end
