(* ===== verification/C_Numbers.thy ===== *)
theory C_Numbers
  imports C_Strings
begin

text \<open>
  Number parsing of the C library on a 64-bit system (\<^verbatim>\<open>strtol\<close>, \<^verbatim>\<open>strtoul\<close>,
  \<^verbatim>\<open>strtoull\<close>, the conversions of \<^verbatim>\<open>sscanf\<close> that the sandbox uses) and
  \<^verbatim>\<open>strtok_r\<close>, on strings without terminators; and addition of unsigned numbers that
  stops at the largest one, as the sandbox writes it out several times.
\<close>

subsection \<open>Integers in text\<close>

definition isspace :: "char \<Rightarrow> bool" where
  "isspace c \<longleftrightarrow> c \<in> {CHR '' '', CHR 0x09, CHR 0x0A, CHR 0x0B, CHR 0x0C, CHR 0x0D}"

definition isdigit :: "char \<Rightarrow> bool" where
  "isdigit c \<longleftrightarrow> 48 \<le> (of_char c :: nat) \<and> (of_char c :: nat) \<le> 57"

definition digits_value :: "string \<Rightarrow> nat" where
  "digits_value ds = foldl (\<lambda>n c. 10 * n + (of_char c - 48)) 0 ds"

text \<open>An optional sign.\<close>

fun scan_sign :: "string \<Rightarrow> bool \<times> string" where
  "scan_sign (c # cs) =
     (if c = CHR ''-'' then (True, cs) else if c = CHR ''+'' then (False, cs) else (False, c # cs))"
| "scan_sign [] = (False, [])"

text \<open>
  White space, a sign and digits: whether the sign is a minus, the digits, and what follows.
  \<open>None\<close> when there are no digits; then nothing is consumed.
\<close>

definition scan_integer :: "string \<Rightarrow> (bool \<times> string \<times> string) option" where
  "scan_integer s =
     (let (neg, t) = scan_sign (dropWhile isspace s); ds = takeWhile isdigit t in
      if ds = [] then None else Some (neg, ds, dropWhile isdigit t))"

definition ULONG_MAX :: u64 where
  "ULONG_MAX = - 1"

definition INT_MAX :: int where
  "INT_MAX = 2147483647"

text \<open>The value, whether \<^verbatim>\<open>errno\<close> becomes \<^verbatim>\<open>ERANGE\<close>, and the rest of the text.\<close>

definition strtoul :: "string \<Rightarrow> u64 \<times> bool \<times> string" where
  "strtoul s =
     (case scan_integer s of
        None \<Rightarrow> (0, False, s)
      | Some (neg, ds, t) \<Rightarrow>
          let n = digits_value ds in
          if 2 ^ 64 \<le> n then (ULONG_MAX, True, t)
          else (if neg then - of_nat n else of_nat n, False, t))"

definition strtoull :: "string \<Rightarrow> u64 \<times> bool \<times> string" where
  "strtoull = strtoul"

definition strtol :: "string \<Rightarrow> int \<times> bool \<times> string" where
  "strtol s =
     (case scan_integer s of
        None \<Rightarrow> (0, False, s)
      | Some (neg, ds, t) \<Rightarrow>
          let n = digits_value ds in
          if neg then (if 2 ^ 63 < n then (- (2 ^ 63), True, t) else (- int n, False, t))
          else (if 2 ^ 63 \<le> n then (2 ^ 63 - 1, True, t) else (int n, False, t)))"

subsection \<open>The conversions of sscanf\<close>

text \<open>Ordinary characters of a format.\<close>

fun scan_literal :: "string \<Rightarrow> string \<Rightarrow> string option" where
  "scan_literal [] s = Some s"
| "scan_literal (c # cs) (d # s) = (if c = d then scan_literal cs s else None)"
| "scan_literal (c # cs) [] = None"

text \<open>\<^verbatim>\<open>%lu\<close>, \<^verbatim>\<open>%d\<close> (which keeps the low 32 bits) and \<^verbatim>\<open>%7s\<close>.\<close>

definition scan_lu :: "string \<Rightarrow> (u64 \<times> string) option" where
  "scan_lu s =
     (case scan_integer s of None \<Rightarrow> None
      | Some _ \<Rightarrow> (case strtoul s of (v, _, t) \<Rightarrow> Some (v, t)))"

definition scan_d :: "string \<Rightarrow> (u32 \<times> string) option" where
  "scan_d s =
     (case scan_integer s of None \<Rightarrow> None
      | Some _ \<Rightarrow> (case strtol s of (v, _, t) \<Rightarrow> Some (of_int v, t)))"

definition scan_word :: "nat \<Rightarrow> string \<Rightarrow> (string \<times> string) option" where
  "scan_word n s =
     (let t = dropWhile isspace s; w = take n (takeWhile (\<lambda>c. \<not> isspace c) t) in
      if w = [] then None else Some (w, drop (length w) t))"

subsection \<open>Tokens\<close>

definition is_delimiter :: "char \<Rightarrow> bool" where
  "is_delimiter c \<longleftrightarrow> c \<in> {CHR '' '', CHR 0x09, CR, LF}"

text \<open>\<^verbatim>\<open>strtok_r\<close> with the delimiters blank, tab, return and newline.\<close>

definition strtok_r :: "string \<Rightarrow> (string \<times> string) option" where
  "strtok_r s =
     (let t = dropWhile is_delimiter s; w = takeWhile (\<lambda>c. \<not> is_delimiter c) t in
      if w = [] then None else Some (w, drop (length w + 1) t))"

subsection \<open>Saturating addition\<close>

text \<open>\<^verbatim>\<open>if (MAX - a < b) a = MAX; else a += b;\<close>\<close>

definition saturating_add :: "u64 \<Rightarrow> u64 \<Rightarrow> u64" where
  "saturating_add a b = (if ULONG_MAX - a < b then ULONG_MAX else a + b)"

lemma unat_ULONG_MAX: "unat ULONG_MAX = 2 ^ 64 - 1"
  by (simp add: ULONG_MAX_def unsigned_minus_1_eq_mask mask_eq_exp_minus_1)

lemma unat_saturating_add:
  "unat (saturating_add a b) = min (unat a + unat b) (2 ^ 64 - 1)"
proof -
  have a: "unat a < 2 ^ 64" and b: "unat b < 2 ^ 64"
    using unsigned_less [of a] unsigned_less [of b] by simp_all
  have "unat (ULONG_MAX - a) = 2 ^ 64 - 1 - unat a"
    using a unat_sub [of a ULONG_MAX] by (simp add: word_le_nat_alt unat_ULONG_MAX)
  then have "ULONG_MAX - a < b \<longleftrightarrow> 2 ^ 64 - 1 < unat a + unat b"
    using a by (simp add: word_less_nat_alt) linarith
  then show ?thesis
    using a b by (auto simp: saturating_add_def unat_ULONG_MAX unat_word_ariths)
qed

lemma saturating_add_0 [simp]: "saturating_add a 0 = a"
  by (simp add: saturating_add_def ULONG_MAX_def)

subsection \<open>Printed numbers are read back\<close>

lemma isdigit_show: "(n :: nat) < 10 \<Longrightarrow> isdigit (char_of (48 + n))"
  by (simp add: isdigit_def)

lemma digits_value_snoc: "digits_value (ds @ [c]) = 10 * digits_value ds + (of_char c - 48)"
  by (simp add: digits_value_def)

lemma show_nat_digits:
  "digits_value (show_nat n) = n \<and> list_all isdigit (show_nat n) \<and> show_nat n \<noteq> []"
proof (induction n rule: show_nat.induct)
  case (1 n)
  show ?case
  proof (cases "n < 10")
    case True
    then show ?thesis
      by (subst (1 2 3) show_nat.simps) (simp add: digits_value_def isdigit_show)
  next
    case False
    with 1 have "digits_value (show_nat (n div 10)) = n div 10" "list_all isdigit (show_nat (n div 10))"
      by auto
    with False show ?thesis
      by (subst (1 2 3) show_nat.simps) (simp add: digits_value_snoc isdigit_show)
  qed
qed

lemma show_nat_not_Nil [simp]: "show_nat n \<noteq> []" "[] \<noteq> show_nat n"
  using show_nat_digits [of n] by auto

lemma isdigit_not_space: "isdigit c \<Longrightarrow> \<not> isspace c \<and> c \<noteq> CHR ''-'' \<and> c \<noteq> CHR ''+''"
  by (auto simp: isdigit_def isspace_def)

lemma scan_integer_digits:
  assumes "list_all isdigit ds" and "ds \<noteq> []" and "t = [] \<or> \<not> isdigit (hd t)"
  shows "scan_integer (ds @ t) = Some (False, ds, t)"
proof -
  obtain c cs where ds: "ds = c # cs"
    using assms(2) by (cases ds) auto
  then have c: "\<not> isspace c" "c \<noteq> CHR ''-''" "c \<noteq> CHR ''+''"
    using assms(1) isdigit_not_space by auto
  have "takeWhile isdigit (ds @ t) = ds" "dropWhile isdigit (ds @ t) = t"
    using assms(1,3) by (cases t; simp add: list_all_iff takeWhile_append dropWhile_append)+
  with c ds show ?thesis
    by (simp add: scan_integer_def Let_def)
qed

lemma unat_of_nat_u64: "n < 2 ^ 64 \<Longrightarrow> unat (of_nat n :: u64) = n"
  by (simp add: unsigned_of_nat take_bit_nat_eq_self_iff)

lemma strtoul_show_nat:
  "n < 2 ^ 64 \<Longrightarrow> t = [] \<or> \<not> isdigit (hd t) \<Longrightarrow> strtoul (show_nat n @ t) = (of_nat n, False, t)"
  using show_nat_digits [of n] scan_integer_digits [of "show_nat n" t] by (simp add: strtoul_def)

lemma scan_literal_append: "scan_literal a (a @ b) = Some b"
  by (induction a) simp_all

lemma scan_integer_blank:
  "isspace c \<Longrightarrow> scan_integer (c # s) = scan_integer s"
  by (simp add: scan_integer_def)

lemma scan_integer_show_nat:
  "t = [] \<or> \<not> isdigit (hd t) \<Longrightarrow> scan_integer (show_nat n @ t) = Some (False, show_nat n, t)"
  using show_nat_digits [of n] by (intro scan_integer_digits) simp_all

lemma LF_no_digit [simp]: "\<not> isdigit LF"
  by (simp add: isdigit_def)

lemma length_show_nat: "n < 10 ^ d \<Longrightarrow> 0 < d \<Longrightarrow> length (show_nat n) \<le> d"
proof (induction d arbitrary: n)
  case (Suc d)
  show ?case
  proof (cases "n < 10")
    case True
    then show ?thesis by (subst show_nat.simps) simp
  next
    case False
    with Suc.prems have "0 < d" and "n div 10 < 10 ^ d"
      by (auto simp: less_mult_imp_div_less mult.commute intro: gr0I)
    with Suc.IH [of "n div 10"] False show ?thesis by (subst show_nat.simps) simp
  qed
qed simp

lemma show_nat_chars: "CHR '')'' \<notin> set (show_nat n)" "NUL \<notin> set (show_nat n)" "LF \<notin> set (show_nat n)"
  using show_nat_digits [of n] by (auto simp: list_all_iff isdigit_def)

text \<open>Evaluation on digits.\<close>

lemma char_of_digits [simp]:
  "char_of (48 :: nat) = CHR ''0''" "char_of (49 :: nat) = CHR ''1''" "char_of (50 :: nat) = CHR ''2''"
  "char_of (51 :: nat) = CHR ''3''" "char_of (52 :: nat) = CHR ''4''" "char_of (53 :: nat) = CHR ''5''"
  "char_of (54 :: nat) = CHR ''6''" "char_of (55 :: nat) = CHR ''7''" "char_of (56 :: nat) = CHR ''8''"
  "char_of (57 :: nat) = CHR ''9''"
  by code_simp+

end
