(* ===== verification/Sandbox_OS.thy ===== *)
theory Sandbox_OS
  imports C_Numbers
begin

text \<open>
  The interface of the sandbox controller, of its threads and of its child to the operating system,
  in the same style as for the authentication programs: a trace of \<open>sandbox_event\<close>s, a record of
  functions from traces to results as the parameter, and one function \<open>os_...\<close> per call that makes
  it and records it. The other threads of the process are part of the parameter.
\<close>

type_synonym pid = int
type_synonym fd = int

record timespec =
  tv_sec :: int
  tv_nsec :: int

text \<open>An open directory: the names that it still delivers, and the error behind the last one.\<close>

record dir_stream =
  names :: "string list"
  dir_fail :: "errno option"

text \<open>Where a line of the log goes.\<close>

datatype log_stream = Stdout | Stderr

datatype disposition = Record_Signal | Ignore | Default

text \<open>An instruction of a filter: \<^verbatim>\<open>struct sock_filter\<close>.\<close>

record sock_filter =
  bpf_code :: nat
  bpf_jt :: nat
  bpf_jf :: nat
  bpf_k :: u32

datatype prctl_call =
    PR_SET_CHILD_SUBREAPER
  | PR_SET_PDEATHSIG signal
  | PR_SET_NO_NEW_PRIVS
  | PR_SET_SECCOMP "sock_filter list"

datatype rlimit_resource = RLIMIT_CORE | RLIMIT_AS

datatype monitor_thread = Timeout_Monitor | Memory_Monitor | Cpu_Monitor

text \<open>\<^verbatim>\<open>O_WRONLY\<close> and \<^verbatim>\<open>O_PATH\<close>, both with \<^verbatim>\<open>O_CLOEXEC\<close>.\<close>

datatype open_mode = O_WRONLY | O_PATH

text \<open>
  The memory that the threads share (\<^verbatim>\<open>monitor.h\<close>). A \<open>SandboxState\<close> is the fields of
  a snapshot; its mutex is in the trace: a lock records the state that is found, an unlock the state
  that is left behind.
\<close>

datatype SandboxTerminationReason =
    SANDBOX_TERMINATION_NONE
  | SANDBOX_TERMINATION_TIMEOUT
  | SANDBOX_TERMINATION_MEMORY_LIMIT
  | SANDBOX_TERMINATION_MONITOR_ERROR
  | SANDBOX_TERMINATION_SUPERVISOR_ERROR
  | SANDBOX_TERMINATION_OPERATOR_SIGNAL

record SandboxStateSnapshot =
  ss_supervisor_pid :: pid
  ss_child_pid :: pid
  ss_child_process_group_id :: pid
  ss_leader_alive :: bool
  ss_workload_alive :: bool
  ss_termination_requested :: bool
  ss_termination_reason :: SandboxTerminationReason

type_synonym SandboxState = SandboxStateSnapshot

text \<open>The result of \<^verbatim>\<open>waitpid(-1, ..., WNOHANG)\<close>: a child with its status, or none ready.\<close>

datatype wait_result = Reaped pid nat | None_Ready

datatype log_event =
    Print log_stream string
  | LogLock "errno option"
  | LogUnlock "errno option"

datatype sync_event =
    MutexInit "errno option"
  | MutexLock "errno + SandboxState"
  | MutexUnlock SandboxState "errno option"
  | MutexDestroy "errno option"
  | ThreadCreate monitor_thread "errno option"
  | ThreadJoin monitor_thread "errno option"
  | ReadSignal int

datatype time_event =
    ClockGettime "errno + timespec"
  | Nanosleep timespec "(errno \<times> timespec) option"
  | Sysconf int

datatype file_event =
    Fopen string "errno option"
  | Fclose "errno option"
  | Opendir "errno option"
  | Closedir "errno option"
  | Alloc bool
  | Open open_mode string "errno + fd"
  | Write fd string "errno + nat"
  | Read fd "errno + string"
  | Close fd "errno option"
  | Mkdir string nat "errno option"
  | Rmdir string "errno option"
  | Realpath string "errno + string"

datatype process_event =
    GetPid pid
  | GetPpid pid
  | Setpgid pid pid "errno option"
  | Pipe "errno + fd \<times> fd"
  | Fork "errno + pid"
  | Kill pid signal "errno option"
  | Waitpid "errno + wait_result"
  | WaitChild pid
  | SigAction signal disposition "errno option"
  | Execve string "string list" "string list" "errno option"
  | Exit int

datatype hardening_event =
    Prctl prctl_call "errno option"
  | Setrlimit rlimit_resource u64 "errno option"
  | LandlockVersion "errno + nat"
  | LandlockCreate u64 "errno + fd"
  | LandlockAdd fd fd u64 "errno option"
  | LandlockRestrict fd "errno option"
  | CloseRange "errno option"

datatype sandbox_event =
    Log log_event | Sync sync_event | Time time_event | File file_event | Proc process_event
  | Harden hardening_event

type_synonym trace = "sandbox_event list"

record kernel_threads =
  o_strerror :: "errno \<Rightarrow> string"
  o_loglock :: "trace \<Rightarrow> errno option"
  o_logunlock :: "trace \<Rightarrow> errno option"
  o_mutex_init :: "trace \<Rightarrow> errno option"
  o_lock :: "trace \<Rightarrow> errno option"
  o_unlock :: "trace \<Rightarrow> errno option"
  o_others :: "trace \<Rightarrow> SandboxState \<Rightarrow> SandboxState"
  o_mutex_destroy :: "trace \<Rightarrow> errno option"
  o_signal :: "trace \<Rightarrow> int"
  o_getpid :: "trace \<Rightarrow> pid"
  o_getppid :: "trace \<Rightarrow> pid"
  o_clock :: "trace \<Rightarrow> errno + timespec"
  o_nanosleep :: "trace \<Rightarrow> timespec \<Rightarrow> (errno \<times> timespec) option"
  o_clk_tck :: "trace \<Rightarrow> int"
  o_open_max :: "trace \<Rightarrow> int"

record kernel_files = kernel_threads +
  o_fopen :: "trace \<Rightarrow> string \<Rightarrow> errno + stream"
  o_fclose :: "trace \<Rightarrow> errno option"
  o_opendir :: "trace \<Rightarrow> errno + dir_stream"
  o_closedir :: "trace \<Rightarrow> errno option"
  o_alloc :: "trace \<Rightarrow> bool"
  o_open :: "trace \<Rightarrow> open_mode \<Rightarrow> string \<Rightarrow> errno + nat"
  o_write :: "trace \<Rightarrow> fd \<Rightarrow> string \<Rightarrow> errno + nat"
  o_read :: "trace \<Rightarrow> fd \<Rightarrow> nat \<Rightarrow> errno + string"
  o_close :: "trace \<Rightarrow> fd \<Rightarrow> errno option"
  o_mkdir :: "trace \<Rightarrow> string \<Rightarrow> errno option"
  o_rmdir :: "trace \<Rightarrow> string \<Rightarrow> errno option"
  o_realpath :: "trace \<Rightarrow> string \<Rightarrow> errno + string"

record kernel = kernel_files +
  o_sigaction :: "trace \<Rightarrow> signal \<Rightarrow> errno option"
  o_prctl :: "trace \<Rightarrow> prctl_call \<Rightarrow> errno option"
  o_setrlimit :: "trace \<Rightarrow> rlimit_resource \<Rightarrow> errno option"
  o_setpgid :: "trace \<Rightarrow> pid \<Rightarrow> pid \<Rightarrow> errno option"
  o_landlock_version :: "trace \<Rightarrow> errno + nat"
  o_landlock_create :: "trace \<Rightarrow> u64 \<Rightarrow> errno + nat"
  o_landlock_add :: "trace \<Rightarrow> fd \<Rightarrow> fd \<Rightarrow> u64 \<Rightarrow> errno option"
  o_landlock_restrict :: "trace \<Rightarrow> fd \<Rightarrow> errno option"
  o_close_range :: "trace \<Rightarrow> errno option"
  o_pipe :: "trace \<Rightarrow> errno + nat \<times> nat"
  o_fork :: "trace \<Rightarrow> errno + nat"
  o_kill :: "trace \<Rightarrow> pid \<Rightarrow> signal \<Rightarrow> errno option"
  o_waitpid :: "trace \<Rightarrow> errno + wait_result"
  o_create :: "trace \<Rightarrow> monitor_thread \<Rightarrow> errno option"
  o_join :: "trace \<Rightarrow> monitor_thread \<Rightarrow> errno option"
  o_execve :: "trace \<Rightarrow> string \<Rightarrow> errno option"

subsection \<open>Calls\<close>

definition os_call :: "('a \<Rightarrow> sandbox_event) \<Rightarrow> 'a \<Rightarrow> trace \<Rightarrow> 'a \<times> trace" where
  "os_call ev r tr = (r, tr @ [ev r])"

definition os_strerror :: "kernel \<Rightarrow> errno \<Rightarrow> string" where
  "os_strerror k e = o_strerror k e"

definition os_clock :: "kernel \<Rightarrow> trace \<Rightarrow> (errno + timespec) \<times> trace" where
  "os_clock k tr = os_call (Time \<circ> ClockGettime) (o_clock k tr) tr"

definition os_nanosleep :: "kernel \<Rightarrow> timespec \<Rightarrow> trace \<Rightarrow> (errno \<times> timespec) option \<times> trace" where
  "os_nanosleep k d tr = os_call (Time \<circ> Nanosleep d) (o_nanosleep k tr d) tr"

definition os_getpid :: "kernel \<Rightarrow> trace \<Rightarrow> pid \<times> trace" where
  "os_getpid k tr = os_call (Proc \<circ> GetPid) (o_getpid k tr) tr"

definition os_fopen :: "kernel \<Rightarrow> string \<Rightarrow> trace \<Rightarrow> (errno + stream) \<times> trace" where
  "os_fopen k p tr =
     (let r = o_fopen k tr p
      in (r, tr @ [File (Fopen p (case r of Inl e \<Rightarrow> Some e | Inr _ \<Rightarrow> None))]))"

definition os_fclose :: "kernel \<Rightarrow> trace \<Rightarrow> errno option \<times> trace" where
  "os_fclose k tr = os_call (File \<circ> Fclose) (o_fclose k tr) tr"

definition os_opendir :: "kernel \<Rightarrow> trace \<Rightarrow> (errno + dir_stream) \<times> trace" where
  "os_opendir k tr =
     (let r = o_opendir k tr
      in (r, tr @ [File (Opendir (case r of Inl e \<Rightarrow> Some e | Inr _ \<Rightarrow> None))]))"

definition os_closedir :: "kernel \<Rightarrow> trace \<Rightarrow> errno option \<times> trace" where
  "os_closedir k tr = os_call (File \<circ> Closedir) (o_closedir k tr) tr"

text \<open>\<^verbatim>\<open>calloc\<close> and \<^verbatim>\<open>realloc\<close>: whether there was memory.\<close>

definition os_alloc :: "kernel \<Rightarrow> trace \<Rightarrow> bool \<times> trace" where
  "os_alloc k tr = os_call (File \<circ> Alloc) (o_alloc k tr) tr"

definition os_open :: "kernel \<Rightarrow> open_mode \<Rightarrow> string \<Rightarrow> trace \<Rightarrow> (errno + fd) \<times> trace" where
  "os_open k m p tr = os_call (File \<circ> Open m p) (map_sum id int (o_open k tr m p)) tr"

definition os_write :: "kernel \<Rightarrow> fd \<Rightarrow> string \<Rightarrow> trace \<Rightarrow> (errno + nat) \<times> trace" where
  "os_write k d bs tr = os_call (File \<circ> Write d bs) (map_sum id (min (length bs)) (o_write k tr d bs)) tr"

definition os_read :: "kernel \<Rightarrow> fd \<Rightarrow> nat \<Rightarrow> trace \<Rightarrow> (errno + string) \<times> trace" where
  "os_read k d n tr = os_call (File \<circ> Read d) (map_sum id (take n) (o_read k tr d n)) tr"

definition os_close :: "kernel \<Rightarrow> fd \<Rightarrow> trace \<Rightarrow> errno option \<times> trace" where
  "os_close k d tr = os_call (File \<circ> Close d) (o_close k tr d) tr"

definition os_kill :: "kernel \<Rightarrow> pid \<Rightarrow> signal \<Rightarrow> trace \<Rightarrow> errno option \<times> trace" where
  "os_kill k p s tr = os_call (Proc \<circ> Kill p s) (o_kill k tr p s) tr"

definition os_waitpid :: "kernel \<Rightarrow> trace \<Rightarrow> (errno + wait_result) \<times> trace" where
  "os_waitpid k tr = os_call (Proc \<circ> Waitpid) (o_waitpid k tr) tr"

definition os_sigaction :: "kernel \<Rightarrow> signal \<Rightarrow> disposition \<Rightarrow> trace \<Rightarrow> errno option \<times> trace" where
  "os_sigaction k s h tr = os_call (Proc \<circ> SigAction s h) (o_sigaction k tr s) tr"

definition os_prctl :: "kernel \<Rightarrow> prctl_call \<Rightarrow> trace \<Rightarrow> errno option \<times> trace" where
  "os_prctl k c tr = os_call (Harden \<circ> Prctl c) (o_prctl k tr c) tr"

definition os_setpgid :: "kernel \<Rightarrow> pid \<Rightarrow> pid \<Rightarrow> trace \<Rightarrow> errno option \<times> trace" where
  "os_setpgid k p g tr = os_call (Proc \<circ> Setpgid p g) (o_setpgid k tr p g) tr"

text \<open>One read of \<^verbatim>\<open>operator_signal_number\<close>.\<close>

definition os_signal :: "kernel \<Rightarrow> trace \<Rightarrow> int \<times> trace" where
  "os_signal k tr = os_call (Sync \<circ> ReadSignal) (o_signal k tr) tr"

text \<open>
  The mutex of the shared state. The other threads may have run before a lock succeeds: \<open>o_others\<close>
  is what they made of the state that this thread saw last.
\<close>

definition os_lock :: "kernel \<Rightarrow> SandboxState \<Rightarrow> trace \<Rightarrow> (errno + SandboxState) \<times> trace" where
  "os_lock k st tr =
     os_call (Sync \<circ> MutexLock)
       (case o_lock k tr of Some e \<Rightarrow> Inl e | None \<Rightarrow> Inr (o_others k tr st)) tr"

definition os_unlock :: "kernel \<Rightarrow> SandboxState \<Rightarrow> trace \<Rightarrow> errno option \<times> trace" where
  "os_unlock k st tr = os_call (Sync \<circ> MutexUnlock st) (o_unlock k tr) tr"

definition os_mutex_init :: "kernel \<Rightarrow> trace \<Rightarrow> errno option \<times> trace" where
  "os_mutex_init k tr = os_call (Sync \<circ> MutexInit) (o_mutex_init k tr) tr"

definition os_mutex_destroy :: "kernel \<Rightarrow> trace \<Rightarrow> errno option \<times> trace" where
  "os_mutex_destroy k tr = os_call (Sync \<circ> MutexDestroy) (o_mutex_destroy k tr) tr"

definition os_create :: "kernel \<Rightarrow> monitor_thread \<Rightarrow> trace \<Rightarrow> errno option \<times> trace" where
  "os_create k t tr = os_call (Sync \<circ> ThreadCreate t) (o_create k tr t) tr"

definition os_join :: "kernel \<Rightarrow> monitor_thread \<Rightarrow> trace \<Rightarrow> errno option \<times> trace" where
  "os_join k t tr = os_call (Sync \<circ> ThreadJoin t) (o_join k tr t) tr"

definition os_clk_tck :: "kernel \<Rightarrow> trace \<Rightarrow> int \<times> trace" where
  "os_clk_tck k tr = os_call (Time \<circ> Sysconf) (o_clk_tck k tr) tr"

definition os_open_max :: "kernel \<Rightarrow> trace \<Rightarrow> int \<times> trace" where
  "os_open_max k tr = os_call (Time \<circ> Sysconf) (o_open_max k tr) tr"

definition os_mkdir :: "kernel \<Rightarrow> string \<Rightarrow> nat \<Rightarrow> trace \<Rightarrow> errno option \<times> trace" where
  "os_mkdir k p m tr = os_call (File \<circ> Mkdir p m) (o_mkdir k tr p) tr"

definition os_rmdir :: "kernel \<Rightarrow> string \<Rightarrow> trace \<Rightarrow> errno option \<times> trace" where
  "os_rmdir k p tr = os_call (File \<circ> Rmdir p) (o_rmdir k tr p) tr"

definition os_realpath :: "kernel \<Rightarrow> string \<Rightarrow> trace \<Rightarrow> (errno + string) \<times> trace" where
  "os_realpath k p tr = os_call (File \<circ> Realpath p) (o_realpath k tr p) tr"

definition os_getppid :: "kernel \<Rightarrow> trace \<Rightarrow> pid \<times> trace" where
  "os_getppid k tr = os_call (Proc \<circ> GetPpid) (o_getppid k tr) tr"

definition os_pipe :: "kernel \<Rightarrow> trace \<Rightarrow> (errno + fd \<times> fd) \<times> trace" where
  "os_pipe k tr = os_call (Proc \<circ> Pipe) (map_sum id (map_prod int int) (o_pipe k tr)) tr"

definition os_fork :: "kernel \<Rightarrow> trace \<Rightarrow> (errno + pid) \<times> trace" where
  "os_fork k tr = os_call (Proc \<circ> Fork) (map_sum id int (o_fork k tr)) tr"

text \<open>\<^verbatim>\<open>waitpid(pid, NULL, 0)\<close>, the result of which the code ignores.\<close>

definition os_wait_child :: "pid \<Rightarrow> trace \<Rightarrow> trace" where
  "os_wait_child p tr = tr @ [Proc (WaitChild p)]"

text \<open>\<open>None\<close>: the program was replaced.\<close>

definition os_execve ::
    "kernel \<Rightarrow> string \<Rightarrow> string list \<Rightarrow> string list \<Rightarrow> trace \<Rightarrow> errno option \<times> trace" where
  "os_execve k p argv envp tr = os_call (Proc \<circ> Execve p argv envp) (o_execve k tr p) tr"

definition os_exit :: "int \<Rightarrow> trace \<Rightarrow> trace" where
  "os_exit c tr = tr @ [Proc (Exit c)]"

definition os_setrlimit :: "kernel \<Rightarrow> rlimit_resource \<Rightarrow> u64 \<Rightarrow> trace \<Rightarrow> errno option \<times> trace" where
  "os_setrlimit k r v tr = os_call (Harden \<circ> Setrlimit r v) (o_setrlimit k tr r) tr"

definition os_landlock_version :: "kernel \<Rightarrow> trace \<Rightarrow> (errno + nat) \<times> trace" where
  "os_landlock_version k tr = os_call (Harden \<circ> LandlockVersion) (o_landlock_version k tr) tr"

definition os_landlock_create :: "kernel \<Rightarrow> u64 \<Rightarrow> trace \<Rightarrow> (errno + fd) \<times> trace" where
  "os_landlock_create k a tr =
     os_call (Harden \<circ> LandlockCreate a) (map_sum id int (o_landlock_create k tr a)) tr"

definition os_landlock_add :: "kernel \<Rightarrow> fd \<Rightarrow> fd \<Rightarrow> u64 \<Rightarrow> trace \<Rightarrow> errno option \<times> trace" where
  "os_landlock_add k d p a tr = os_call (Harden \<circ> LandlockAdd d p a) (o_landlock_add k tr d p a) tr"

definition os_landlock_restrict :: "kernel \<Rightarrow> fd \<Rightarrow> trace \<Rightarrow> errno option \<times> trace" where
  "os_landlock_restrict k d tr = os_call (Harden \<circ> LandlockRestrict d) (o_landlock_restrict k tr d) tr"

definition os_close_range :: "kernel \<Rightarrow> trace \<Rightarrow> errno option \<times> trace" where
  "os_close_range k tr = os_call (Harden \<circ> CloseRange) (o_close_range k tr) tr"

definition eprint :: "string \<Rightarrow> trace \<Rightarrow> trace" where
  "eprint msg tr = tr @ [Log (Print Stderr msg)]"

lemmas os_defs =
  os_call_def os_strerror_def os_clock_def os_nanosleep_def os_getpid_def os_fopen_def os_fclose_def
  os_opendir_def os_closedir_def os_alloc_def os_open_def os_write_def os_read_def os_close_def
  os_kill_def os_waitpid_def os_sigaction_def os_prctl_def os_setpgid_def os_signal_def
  os_lock_def os_unlock_def os_mutex_init_def os_mutex_destroy_def os_create_def os_join_def
  os_clk_tck_def os_open_max_def os_mkdir_def os_rmdir_def os_realpath_def os_getppid_def os_pipe_def
  os_fork_def os_wait_child_def os_execve_def os_exit_def os_setrlimit_def os_landlock_version_def
  os_landlock_create_def os_landlock_add_def os_landlock_restrict_def os_close_range_def eprint_def
  comp_def Let_def

text \<open>
  A kernel for concrete instances: calls succeed, there are no files, no processes and no signals,
  and the clock stands still.
\<close>

definition demo_os :: kernel where
  "demo_os =
     \<lparr>o_strerror = (\<lambda>_. ''error''), o_loglock = (\<lambda>_. None), o_logunlock = (\<lambda>_. None),
      o_mutex_init = (\<lambda>_. None), o_lock = (\<lambda>_. None), o_unlock = (\<lambda>_. None), o_others = (\<lambda>_ st. st),
      o_mutex_destroy = (\<lambda>_. None), o_signal = (\<lambda>_. 0), o_getpid = (\<lambda>_. 100),
      o_getppid = (\<lambda>_. 100), o_clock = (\<lambda>_. Inr \<lparr>tv_sec = 0, tv_nsec = 0\<rparr>),
      o_nanosleep = (\<lambda>_ _. None), o_clk_tck = (\<lambda>_. 100), o_open_max = (\<lambda>_. 1024),
      o_fopen = (\<lambda>_ _. Inl ENOENT), o_fclose = (\<lambda>_. None),
      o_opendir = (\<lambda>_. Inr \<lparr>names = [], dir_fail = None\<rparr>), o_closedir = (\<lambda>_. None),
      o_alloc = (\<lambda>_. True), o_open = (\<lambda>_ _ _. Inr 5), o_write = (\<lambda>_ _ bs. Inr (length bs)),
      o_read = (\<lambda>_ _ _. Inr [CHR 0x01]), o_close = (\<lambda>_ _. None), o_mkdir = (\<lambda>_ _. None),
      o_rmdir = (\<lambda>_ _. None), o_realpath = (\<lambda>_ p. Inr p), o_sigaction = (\<lambda>_ _. None),
      o_prctl = (\<lambda>_ _. None), o_setrlimit = (\<lambda>_ _. None), o_setpgid = (\<lambda>_ _ _. None),
      o_landlock_version = (\<lambda>_. Inr 3), o_landlock_create = (\<lambda>_ _. Inr 6),
      o_landlock_add = (\<lambda>_ _ _ _. None), o_landlock_restrict = (\<lambda>_ _. None),
      o_close_range = (\<lambda>_. None), o_pipe = (\<lambda>_. Inr (3, 4)), o_fork = (\<lambda>_. Inr 200),
      o_kill = (\<lambda>_ _ _. None), o_waitpid = (\<lambda>_. Inl ECHILD), o_create = (\<lambda>_ _. None),
      o_join = (\<lambda>_ _. None), o_execve = (\<lambda>_ _. None)\<rparr>"

text \<open>Events of files, clocks, the log and the own identity: they concern no other process or
  thread, and make or remove no directory.\<close>

definition io_event :: "sandbox_event \<Rightarrow> bool" where
  "io_event e \<longleftrightarrow>
     (case e of Log _ \<Rightarrow> True | Time _ \<Rightarrow> True
      | File f \<Rightarrow> (case f of Mkdir p m r \<Rightarrow> r \<noteq> None | Rmdir p r \<Rightarrow> False | _ \<Rightarrow> True)
      | Proc p \<Rightarrow> (case p of GetPid _ \<Rightarrow> True | _ \<Rightarrow> False) | _ \<Rightarrow> False)"

lemma io_event_simps [simp]:
  "io_event (Log l)" "io_event (Time t)" "io_event (Proc (GetPid p))"
  "io_event (File f) \<longleftrightarrow> (\<forall>p m. f \<noteq> Mkdir p m None) \<and> (\<forall>p r. f \<noteq> Rmdir p r)"
  by (auto simp: io_event_def split: file_event.splits)

text \<open>Of these, the events that open no file for writing.\<close>

definition writes_file :: "sandbox_event \<Rightarrow> bool" where
  "writes_file e \<longleftrightarrow> (\<exists>p r. e = File (Open O_WRONLY p r))"

definition read_event :: "sandbox_event \<Rightarrow> bool" where
  "read_event e \<longleftrightarrow> io_event e \<and> \<not> writes_file e"

lemma read_event_simps [simp]:
  "read_event (Log l)" "read_event (Time t)" "read_event (Proc (GetPid p))" "read_event (File (Fopen path r))"
  "read_event (File (Fclose r))" "read_event (File (Opendir r))" "read_event (File (Closedir r))"
  "read_event (File (Alloc b))"
  by (simp_all add: read_event_def writes_file_def)

lemma read_event_io: "read_event e \<Longrightarrow> io_event e"
  by (simp add: read_event_def)

end
