(* ===== verification/Logger.thy ===== *)
theory Logger
  imports Sandbox_OS
begin

text \<open>
  \<^verbatim>\<open>Sandbox/logger.c\<close>: lines on the log under the logger's own mutex. The format and its
  arguments arrive here as the finished text. Whatever the logger does is in the class \<open>log_only\<close>
  of events; the locale \<open>logging\<close> is the contract that all its callers rely on.
\<close>

definition logger_write :: "kernel \<Rightarrow> log_stream \<Rightarrow> string \<Rightarrow> string \<Rightarrow> trace \<Rightarrow> trace" where
  "logger_write k stream level text_args tr =
     (case os_call (Log \<circ> LogLock) (o_loglock k tr) tr of
        (Some e, tr) \<Rightarrow> eprint (''[sandbox][LOGGER] mutex lock failed: '' @ os_strerror k e) tr
      | (None, tr) \<Rightarrow>
          let tr = tr @ [Log (Print stream (''[sandbox]['' @ level @ ''] '' @ text_args))] in
          case os_call (Log \<circ> LogUnlock) (o_logunlock k tr) tr of
            (Some e, tr) \<Rightarrow> eprint (''[sandbox][LOGGER] mutex unlock failed: '' @ os_strerror k e) tr
          | (None, tr) \<Rightarrow> tr)"

definition logger_info :: "kernel \<Rightarrow> string \<Rightarrow> trace \<Rightarrow> trace" where
  "logger_info k msg tr = logger_write k Stdout ''INFO'' msg tr"

definition logger_warn :: "kernel \<Rightarrow> string \<Rightarrow> trace \<Rightarrow> trace" where
  "logger_warn k msg tr = logger_write k Stderr ''WARN'' msg tr"

definition logger_error :: "kernel \<Rightarrow> string \<Rightarrow> trace \<Rightarrow> trace" where
  "logger_error k msg tr = logger_write k Stderr ''ERROR'' msg tr"

subsection \<open>The contract\<close>

definition log_only :: "sandbox_event \<Rightarrow> bool" where
  "log_only e \<longleftrightarrow> (case e of Log _ \<Rightarrow> True | _ \<Rightarrow> False)"

lemma log_only_simps [simp]:
  "log_only (Log l)" "\<not> log_only (Sync s)" "\<not> log_only (Time t)" "\<not> log_only (File f)"
  "\<not> log_only (Proc p)" "\<not> log_only (Harden h)"
  by (simp_all add: log_only_def)

text \<open>
  The events of a trace that are not the logger's: what all other components look at.
\<close>

definition acts :: "trace \<Rightarrow> trace" where
  "acts tr = filter (\<lambda>e. \<not> log_only e) tr"

lemma acts_simps [simp]:
  "acts [] = []" "acts (tr @ ev) = acts tr @ acts ev"
  "acts (e # tr) = (if log_only e then acts tr else e # acts tr)"
  by (simp_all add: acts_def)

lemma acts_log_only: "list_all log_only ev \<Longrightarrow> acts ev = []"
  by (induction ev) auto

locale logging =
  fixes log :: "kernel \<Rightarrow> string \<Rightarrow> trace \<Rightarrow> trace"
  assumes log_extends: "extends log_only tr (log k msg tr)"
begin

lemma log_appends:
  obtains ev where "log k msg tr = tr @ ev" and "list_all log_only ev"
  using log_extends by (rule extendsE)

lemma acts_log: "acts (log k msg tr) = acts tr"
  using log_appends [of k msg tr] by (metis acts_log_only acts_simps(2) append_Nil2)

lemma extends_log:
  assumes "\<And>e. log_only e \<Longrightarrow> P e" and "extends P tr0 tr"
  shows "extends P tr0 (log k msg tr)"
  using extends_trans [OF assms(2) extends_mono [OF log_extends assms(1)]] .

end

lemma logger_write_extends: "extends log_only tr (logger_write k stream level msg tr)"
  by (simp add: logger_write_def os_defs split: option.splits)

interpretation info: logging logger_info
  by unfold_locales (simp add: logger_info_def logger_write_extends)

interpretation warn: logging logger_warn
  by unfold_locales (simp add: logger_warn_def logger_write_extends)

interpretation error: logging logger_error
  by unfold_locales (simp add: logger_error_def logger_write_extends)

lemmas acts_logger [simp] = info.acts_log warn.acts_log error.acts_log

lemmas logger_extends = info.extends_log warn.extends_log error.extends_log

lemma log_only_io: "log_only e \<Longrightarrow> io_event e"
  by (simp add: log_only_def split: sandbox_event.splits)

lemma log_only_reads: "log_only e \<Longrightarrow> read_event e"
  by (simp add: log_only_def split: sandbox_event.splits)

lemmas io_log = logger_extends [where P = io_event, OF log_only_io]
lemmas reads_log = logger_extends [where P = read_event, OF log_only_reads]

subsection \<open>Properties\<close>

text \<open>
  A line reaches the log only between a successful lock and an unlock of the logger's mutex, on
  the stream of its level, whole and exactly once; when the lock fails the line is dropped and the
  failure is reported instead. Nothing else happens.
\<close>

lemma logger_write_locked:
  "(\<exists>e. logger_write k stream level msg tr =
      tr @ [Log (LogLock (Some e)),
            Log (Print Stderr (''[sandbox][LOGGER] mutex lock failed: '' @ o_strerror k e))]) \<or>
   (\<exists>r rest. logger_write k stream level msg tr =
      tr @ [Log (LogLock None), Log (Print stream (''[sandbox]['' @ level @ ''] '' @ msg)),
            Log (LogUnlock r)] @ rest \<and>
      rest = (case r of None \<Rightarrow> []
        | Some e \<Rightarrow> [Log (Print Stderr (''[sandbox][LOGGER] mutex unlock failed: '' @ o_strerror k e))]))"
  by (cases "o_loglock k tr"; simp add: logger_write_def os_defs split: option.split)

end
