(* ===== verification/Shared_State.thy ===== *)
theory Shared_State
  imports Logger "HOL-Library.Signed_Division"
begin

text \<open>
  The first part of \<^verbatim>\<open>Sandbox/monitor.c\<close>: the state that the supervisor and its monitor
  threads share, its mutex and its operations, and the helpers for time. Every operation is one
  critical section; \<open>disciplined\<close> is the contract about it that the locale \<open>state_operation\<close> states
  for all of them: the mutex is released on every path, nothing else is done under it, and the
  section changes the state only as allowed.
\<close>

subsection \<open>The mutex\<close>

text \<open>The code, the state as it is then, and the trace.\<close>

definition lock_state :: "kernel \<Rightarrow> SandboxState \<Rightarrow> trace \<Rightarrow> int \<times> SandboxState \<times> trace" where
  "lock_state k st tr =
     (case os_lock k st tr of
        (Inl e, tr) \<Rightarrow>
          (-1, st, logger_error k (''shared-state mutex lock failed: '' @ os_strerror k e) tr)
      | (Inr st, tr) \<Rightarrow> (0, st, tr))"

definition unlock_state :: "kernel \<Rightarrow> SandboxState \<Rightarrow> trace \<Rightarrow> int \<times> trace" where
  "unlock_state k st tr =
     (case os_unlock k st tr of
        (Some e, tr) \<Rightarrow>
          (-1, logger_error k (''shared-state mutex unlock failed: '' @ os_strerror k e) tr)
      | (None, tr) \<Rightarrow> (0, tr))"

subsection \<open>Time\<close>

text \<open>The delay for \<^verbatim>\<open>nanosleep\<close>, and its loop; \<open>Some e\<close> is the return of -1.\<close>

definition delay_of :: "u32 \<Rightarrow> timespec" where
  "delay_of milliseconds =
     \<lparr>tv_sec = int (unat (milliseconds div 1000)),
      tv_nsec = int (unat (milliseconds mod 1000)) * 1000000\<rparr>"

partial_function (option) sleep_loop ::
    "kernel \<Rightarrow> timespec \<Rightarrow> trace \<Rightarrow> (errno option \<times> trace) option" where
  "sleep_loop k delay tr =
     (let (r, tr) = os_nanosleep k delay tr in
      case r of
        None \<Rightarrow> Some (None, tr)
      | Some (e, remaining) \<Rightarrow>
          if e \<noteq> EINTR then Some (Some e, tr) else sleep_loop k remaining tr)"

declare sleep_loop.simps [code]

definition sleep_milliseconds :: "kernel \<Rightarrow> u32 \<Rightarrow> trace \<Rightarrow> (errno option \<times> trace) option" where
  "sleep_milliseconds k milliseconds tr = sleep_loop k (delay_of milliseconds) tr"

text \<open>Division as in C, towards zero.\<close>

definition elapsed_milliseconds :: "timespec \<Rightarrow> timespec \<Rightarrow> u64" where
  "elapsed_milliseconds start current =
     (let seconds = tv_sec current - tv_sec start;
          nanoseconds = tv_nsec current - tv_nsec start
      in of_int (seconds * 1000 + nanoseconds sdiv 1000000))"

subsection \<open>The operations\<close>

definition sandbox_state_init :: "kernel \<Rightarrow> trace \<Rightarrow> int \<times> SandboxState \<times> trace" where
  "sandbox_state_init k tr =
     (case os_getpid k tr of (self, tr) \<Rightarrow>
        let st = \<lparr>ss_supervisor_pid = self, ss_child_pid = -1, ss_child_process_group_id = -1,
                  ss_leader_alive = False, ss_workload_alive = False,
                  ss_termination_requested = False,
                  ss_termination_reason = SANDBOX_TERMINATION_NONE\<rparr>
        in case os_mutex_init k tr of
          (Some e, tr) \<Rightarrow>
            (-1, st,
             logger_error k (''shared-state mutex initialization failed: '' @ os_strerror k e) tr)
        | (None, tr) \<Rightarrow> (0, st, tr))"

definition sandbox_state_set_workload ::
    "kernel \<Rightarrow> pid \<Rightarrow> pid \<Rightarrow> SandboxState \<Rightarrow> trace \<Rightarrow> int \<times> SandboxState \<times> trace" where
  "sandbox_state_set_workload k child_pid child_process_group_id st tr =
     (if child_pid \<le> 0 \<or> child_process_group_id \<le> 0 then (-1, st, tr)
      else case lock_state k st tr of
        (rc, st, tr) \<Rightarrow>
          if rc \<noteq> 0 then (-1, st, tr)
          else
            let st = st\<lparr>ss_child_pid := child_pid,
                        ss_child_process_group_id := child_process_group_id,
                        ss_leader_alive := True,
                        ss_workload_alive := True,
                        ss_termination_requested := False,
                        ss_termination_reason := SANDBOX_TERMINATION_NONE\<rparr>
            in case unlock_state k st tr of (rc, tr) \<Rightarrow> (rc, st, tr))"

text \<open>The snapshot is given only with code 0: no caller reads it otherwise.\<close>

definition sandbox_state_snapshot ::
    "kernel \<Rightarrow> SandboxState \<Rightarrow> trace \<Rightarrow> SandboxStateSnapshot option \<times> SandboxState \<times> trace" where
  "sandbox_state_snapshot k st tr =
     (case lock_state k st tr of
        (rc, st, tr) \<Rightarrow>
          if rc \<noteq> 0 then (None, st, tr)
          else
            let snapshot = \<lparr>ss_supervisor_pid = ss_supervisor_pid st,
                            ss_child_pid = ss_child_pid st,
                            ss_child_process_group_id = ss_child_process_group_id st,
                            ss_leader_alive = ss_leader_alive st,
                            ss_workload_alive = ss_workload_alive st,
                            ss_termination_requested = ss_termination_requested st,
                            ss_termination_reason = ss_termination_reason st\<rparr>
            in case unlock_state k st tr of
              (rc, tr) \<Rightarrow> (if rc \<noteq> 0 then None else Some snapshot, st, tr))"

definition sandbox_state_request_termination ::
    "kernel \<Rightarrow> SandboxTerminationReason \<Rightarrow> SandboxState \<Rightarrow> trace \<Rightarrow> int \<times> SandboxState \<times> trace"
    where
  "sandbox_state_request_termination k reason st tr =
     (if reason = SANDBOX_TERMINATION_NONE then (-1, st, tr)
      else case lock_state k st tr of
        (rc, st, tr) \<Rightarrow>
          if rc \<noteq> 0 then (-1, st, tr)
          else
            let (request_created, st) =
                  (if ss_workload_alive st \<and> \<not> ss_termination_requested st
                   then (1, st\<lparr>ss_termination_requested := True, ss_termination_reason := reason\<rparr>)
                   else (0, st))
            in case unlock_state k st tr of
              (rc, tr) \<Rightarrow> (if rc \<noteq> 0 then -1 else request_created, st, tr))"

definition sandbox_state_mark_leader_exited ::
    "kernel \<Rightarrow> SandboxState \<Rightarrow> trace \<Rightarrow> int \<times> SandboxState \<times> trace" where
  "sandbox_state_mark_leader_exited k st tr =
     (case lock_state k st tr of
        (rc, st, tr) \<Rightarrow>
          if rc \<noteq> 0 then (-1, st, tr)
          else
            let st = st\<lparr>ss_leader_alive := False\<rparr>
            in case unlock_state k st tr of (rc, tr) \<Rightarrow> (rc, st, tr))"

definition sandbox_state_mark_workload_exited ::
    "kernel \<Rightarrow> SandboxState \<Rightarrow> trace \<Rightarrow> int \<times> SandboxState \<times> trace" where
  "sandbox_state_mark_workload_exited k st tr =
     (case lock_state k st tr of
        (rc, st, tr) \<Rightarrow>
          if rc \<noteq> 0 then (-1, st, tr)
          else
            let st = st\<lparr>ss_leader_alive := False, ss_workload_alive := False\<rparr>
            in case unlock_state k st tr of (rc, tr) \<Rightarrow> (rc, st, tr))"

definition sandbox_state_destroy :: "kernel \<Rightarrow> trace \<Rightarrow> int \<times> trace" where
  "sandbox_state_destroy k tr =
     (case os_mutex_destroy k tr of
        (Some e, tr) \<Rightarrow>
          (-1, logger_error k (''shared-state mutex destruction failed: '' @ os_strerror k e) tr)
      | (None, tr) \<Rightarrow> (0, tr))"

definition sandbox_termination_reason_name :: "SandboxTerminationReason \<Rightarrow> string" where
  "sandbox_termination_reason_name reason =
     (case reason of
        SANDBOX_TERMINATION_NONE \<Rightarrow> ''none''
      | SANDBOX_TERMINATION_TIMEOUT \<Rightarrow> ''timeout exceeded''
      | SANDBOX_TERMINATION_MEMORY_LIMIT \<Rightarrow> ''memory limit exceeded''
      | SANDBOX_TERMINATION_MONITOR_ERROR \<Rightarrow> ''monitor error''
      | SANDBOX_TERMINATION_SUPERVISOR_ERROR \<Rightarrow> ''supervisor error''
      | SANDBOX_TERMINATION_OPERATOR_SIGNAL \<Rightarrow> ''operator signal'')"

subsection \<open>One critical section\<close>

text \<open>A lock that succeeds, and any unlock.\<close>

definition section_event :: "sandbox_event \<Rightarrow> bool" where
  "section_event e \<longleftrightarrow>
     (case e of
        Sync s \<Rightarrow> (case s of MutexLock r \<Rightarrow> \<not> isl r | MutexUnlock _ _ \<Rightarrow> True | _ \<Rightarrow> False)
      | _ \<Rightarrow> False)"

lemma section_event_simps [simp]:
  "\<not> section_event (Log l)" "\<not> section_event (Time t)" "\<not> section_event (File f)"
  "\<not> section_event (Proc p)" "\<not> section_event (Harden h)"
  "\<not> section_event (Sync (MutexInit r))" "\<not> section_event (Sync (MutexDestroy r))"
  "\<not> section_event (Sync (ThreadCreate m r))" "\<not> section_event (Sync (ThreadJoin m r))"
  "\<not> section_event (Sync (ReadSignal n))" "\<not> section_event (Sync (MutexLock (Inl e)))"
  "section_event (Sync (MutexLock (Inr st)))" "section_event (Sync (MutexUnlock st u))"
  by (simp_all add: section_event_def)

lemma log_only_no_section: "log_only e \<Longrightarrow> \<not> section_event e"
  by (simp add: log_only_def split: sandbox_event.splits)

lemma io_event_no_section: "io_event e \<Longrightarrow> \<not> section_event e"
  by (auto simp: io_event_def section_event_def split: sandbox_event.splits)

text \<open>
  \<open>disciplined P tr tr'\<close>: from \<open>tr\<close> to \<open>tr'\<close> the mutex is taken and released in pairs with nothing
  between them, and each section leads from a state to one that \<open>P\<close> allows.
\<close>

inductive disciplined ::
    "(SandboxState \<Rightarrow> SandboxState \<Rightarrow> bool) \<Rightarrow> trace \<Rightarrow> trace \<Rightarrow> bool" for P tr where
  disciplined_refl [simp]: "disciplined P tr tr"
| disciplined_other: "disciplined P tr tr' \<Longrightarrow> \<not> section_event e \<Longrightarrow> disciplined P tr (tr' @ [e])"
| disciplined_section: "disciplined P tr tr' \<Longrightarrow> P s s' \<Longrightarrow>
    disciplined P tr (tr' @ [Sync (MutexLock (Inr s)), Sync (MutexUnlock s' u)])"

lemma disciplined_trans:
  "disciplined P t2 t3 \<Longrightarrow> disciplined P t1 t2 \<Longrightarrow> disciplined P t1 t3"
  by (induction rule: disciplined.induct) (auto intro: disciplined.intros)

lemma disciplined_mono: "disciplined P t1 t2 \<Longrightarrow> (\<And>s s'. P s s' \<Longrightarrow> Q s s') \<Longrightarrow> disciplined Q t1 t2"
  by (induction rule: disciplined.induct) (auto intro: disciplined.intros)

lemma disciplined_prefix: "disciplined P tr tr' \<Longrightarrow> \<exists>ev. tr' = tr @ ev"
  by (induction rule: disciplined.induct) auto

lemma disciplined_events: "list_all (\<lambda>e. \<not> section_event e) ev \<Longrightarrow> disciplined P tr (tr @ ev)"
proof (induction ev rule: rev_induct)
  case (snoc e ev)
  then have "disciplined P tr ((tr @ ev) @ [e])"
    by (intro disciplined_other) auto
  then show ?case by simp
qed simp

lemma disciplined_extends: "extends (\<lambda>e. \<not> section_event e) tr tr' \<Longrightarrow> disciplined P tr tr'"
  by (auto elim!: extendsE intro: disciplined_events)

context logging
begin

lemma disciplined_log:
  assumes "disciplined P tr tr'"
  shows "disciplined P tr (log k msg tr')"
proof -
  have "extends (\<lambda>e. \<not> section_event e) tr' (log k msg tr')"
    using log_extends log_only_no_section by (rule extends_mono)
  from disciplined_trans [OF disciplined_extends [OF this] assms] show ?thesis .
qed

lemma no_section_log: "extends (\<lambda>e. \<not> section_event e) tr tr' \<Longrightarrow>
    extends (\<lambda>e. \<not> section_event e) tr (log k msg tr')"
  using log_only_no_section by (rule extends_log)

end

lemmas disciplined_log = info.disciplined_log warn.disciplined_log error.disciplined_log
lemmas no_section_log = info.no_section_log warn.no_section_log error.no_section_log

text \<open>
  What the other threads do between two sections of this one: steps of \<open>R\<close>.
\<close>

definition rely :: "(SandboxState \<Rightarrow> SandboxState \<Rightarrow> bool) \<Rightarrow> kernel \<Rightarrow> bool" where
  "rely R k \<longleftrightarrow> (\<forall>tr st. R\<^sup>*\<^sup>* st (o_others k tr st))"

lemma relyD: "rely R k \<Longrightarrow> R\<^sup>*\<^sup>* st (o_others k tr st)"
  by (simp add: rely_def)

text \<open>What an operation leaves behind that did not get the mutex.\<close>

definition lock_noise :: "sandbox_event \<Rightarrow> bool" where
  "lock_noise e \<longleftrightarrow> log_only e \<or> (\<exists>err. e = Sync (MutexLock (Inl err)))"

lemma lock_noise_simps [simp]: "lock_noise (Log l)" "lock_noise (Sync (MutexLock (Inl e)))"
  by (simp_all add: lock_noise_def)

lemma log_only_noise: "log_only e \<Longrightarrow> lock_noise e"
  by (simp add: lock_noise_def)

lemma lock_noise_no_section: "lock_noise e \<Longrightarrow> \<not> section_event e"
  by (auto simp: lock_noise_def log_only_no_section)

text \<open>
  The contract of an operation: without the mutex it does nothing to the state; with it, it makes
  one section with the effect \<open>step\<close> on whatever state it found.
\<close>

locale state_operation =
  fixes operation :: "kernel \<Rightarrow> SandboxState \<Rightarrow> trace \<Rightarrow> 'r \<times> SandboxState \<times> trace"
    and step :: "SandboxState \<Rightarrow> SandboxState"
  assumes one_section: "operation k st tr = (r, st', tr') \<Longrightarrow>
    st' = st \<and> extends lock_noise tr tr' \<or>
    (\<exists>u t. st' = step (o_others k tr st) \<and>
      t = tr @ [Sync (MutexLock (Inr (o_others k tr st))), Sync (MutexUnlock st' u)] \<and>
      extends log_only t tr')"
begin

lemma section_cases:
  assumes "operation k st tr = (r, st', tr')"
  obtains (no_lock) "st' = st" and "extends lock_noise tr tr'"
  | (locked) u where "st' = step (o_others k tr st)"
    and "extends log_only
      (tr @ [Sync (MutexLock (Inr (o_others k tr st))), Sync (MutexUnlock st' u)]) tr'"
  using one_section [OF assms] by blast

lemma guarantee:
  assumes "operation k st tr = (r, st', tr')" and "\<And>s. P s (step s)"
  shows "disciplined P tr tr'"
  using assms(1)
proof (cases rule: section_cases)
  case no_lock
  from extends_mono [OF no_lock(2) lock_noise_no_section] show ?thesis
    by (rule disciplined_extends)
next
  case (locked u)
  have "disciplined P tr (tr @ [Sync (MutexLock (Inr (o_others k tr st))), Sync (MutexUnlock st' u)])"
    unfolding locked(1) using assms(2) by (intro disciplined_section disciplined_refl)
  moreover have "disciplined P
      (tr @ [Sync (MutexLock (Inr (o_others k tr st))), Sync (MutexUnlock st' u)]) tr'"
    using extends_mono [OF locked(2) log_only_no_section] by (rule disciplined_extends)
  ultimately show ?thesis by (rule disciplined_trans [rotated])
qed

lemma effect:
  assumes "operation k st tr = (r, st', tr')" and "rely R k" and "\<And>s. R s (step s)"
  shows "R\<^sup>*\<^sup>* st st'"
  using assms(1)
proof (cases rule: section_cases)
  case no_lock
  then show ?thesis by simp
next
  case (locked u)
  have "R\<^sup>*\<^sup>* st (o_others k tr st)"
    using assms(2) by (rule relyD)
  then show ?thesis
    using locked(1) assms(3) by (auto intro: rtranclp.rtrancl_into_rtrancl)
qed

end

subsection \<open>The effects of the sections\<close>

definition request_step :: "SandboxTerminationReason \<Rightarrow> SandboxState \<Rightarrow> SandboxState" where
  "request_step reason st =
     (if ss_workload_alive st \<and> \<not> ss_termination_requested st
      then st\<lparr>ss_termination_requested := True, ss_termination_reason := reason\<rparr> else st)"

definition leader_step :: "SandboxState \<Rightarrow> SandboxState" where
  "leader_step st = st\<lparr>ss_leader_alive := False\<rparr>"

definition workload_step :: "SandboxState \<Rightarrow> SandboxState" where
  "workload_step st = st\<lparr>ss_leader_alive := False, ss_workload_alive := False\<rparr>"

definition start_step :: "pid \<Rightarrow> pid \<Rightarrow> SandboxState \<Rightarrow> SandboxState" where
  "start_step child_pid pgid st =
     st\<lparr>ss_child_pid := child_pid, ss_child_process_group_id := pgid, ss_leader_alive := True,
        ss_workload_alive := True, ss_termination_requested := False,
        ss_termination_reason := SANDBOX_TERMINATION_NONE\<rparr>"

lemma lock_state_cases:
  assumes "lock_state k st tr = (rc, st', tr')"
  obtains (failed) "rc = -1" and "st' = st" and "extends lock_noise tr tr'"
  | (locked) "rc = 0" and "st' = o_others k tr st" and "tr' = tr @ [Sync (MutexLock (Inr st'))]"
proof (cases "o_lock k tr")
  case None
  with assms have "rc = 0" "st' = o_others k tr st" "tr' = tr @ [Sync (MutexLock (Inr st'))]"
    by (auto simp: lock_state_def os_lock_def os_call_def)
  then show ?thesis by (rule locked)
next
  case (Some e)
  with assms have "rc = -1" "st' = st" and tr': "\<exists>msg. tr' = logger_error k msg (tr @ [Sync (MutexLock (Inl e))])"
    by (auto simp: lock_state_def os_lock_def os_call_def)
  moreover have "extends lock_noise tr tr'"
    using tr' logger_extends(3) [where P = lock_noise, OF log_only_noise, of tr "tr @ [Sync (MutexLock (Inl e))]"] by auto
  ultimately show ?thesis by (intro failed)
qed

lemma unlock_state_cases:
  assumes "unlock_state k st tr = (rc, tr')"
  obtains u where "extends log_only (tr @ [Sync (MutexUnlock st u)]) tr'"
    and "rc = (if u = None then 0 else -1)" and "u = None \<Longrightarrow> tr' = tr @ [Sync (MutexUnlock st None)]"
proof (cases "o_unlock k tr")
  case None
  with assms have "rc = 0" "tr' = tr @ [Sync (MutexUnlock st None)]"
    by (auto simp: unlock_state_def os_unlock_def os_call_def)
  then show ?thesis by (intro that [of None]) simp_all
next
  case (Some e)
  with assms have "rc = -1"
      and tr': "\<exists>msg. tr' = logger_error k msg (tr @ [Sync (MutexUnlock st (Some e))])"
    by (auto simp: unlock_state_def os_unlock_def os_call_def)
  moreover have "extends log_only (tr @ [Sync (MutexUnlock st (Some e))]) tr'"
    using tr' error.log_extends by blast
  ultimately show ?thesis by (intro that [of "Some e"]) simp_all
qed

text \<open>The shape that all operations share.\<close>

lemma one_sectionI:
  assumes "lock_state k st tr = (rc, s1, t1)"
    and "rc \<noteq> 0 \<Longrightarrow> st' = s1 \<and> tr' = t1"
    and "rc = 0 \<Longrightarrow> st' = step s1 \<and> tr' = snd (unlock_state k (step s1) t1)"
  shows "st' = st \<and> extends lock_noise tr tr' \<or>
    (\<exists>u t. st' = step (o_others k tr st) \<and>
      t = tr @ [Sync (MutexLock (Inr (o_others k tr st))), Sync (MutexUnlock st' u)] \<and>
      extends log_only t tr')"
  using assms(1)
proof (cases rule: lock_state_cases)
  case failed
  with assms(2) show ?thesis by simp
next
  case locked
  with assms(3) have st': "st' = step (o_others k tr st)" by simp
  obtain rc' where "unlock_state k (step s1) t1 = (rc', tr')"
    using assms(3) locked(1) by (metis prod.collapse)
  then obtain u where "extends log_only (t1 @ [Sync (MutexUnlock (step s1) u)]) tr'"
    by (rule unlock_state_cases)
  with locked st' show ?thesis by auto
qed

lemma snapshot_section:
  assumes "sandbox_state_snapshot k st tr = (r, st', tr')"
  shows "st' = st \<and> extends lock_noise tr tr' \<or>
    (\<exists>u t. st' = o_others k tr st \<and>
      t = tr @ [Sync (MutexLock (Inr (o_others k tr st))), Sync (MutexUnlock st' u)] \<and>
      extends log_only t tr')"
proof -
  obtain rc s1 t1 where L: "lock_state k st tr = (rc, s1, t1)"
    by (metis prod_cases3)
  show ?thesis
    using assms L by (intro one_sectionI [OF L])
      (auto simp: sandbox_state_snapshot_def Let_def split: prod.splits if_splits)
qed

interpretation snapshot: state_operation sandbox_state_snapshot "\<lambda>s. s"
  by unfold_locales (rule snapshot_section)

lemma request_section:
  assumes "sandbox_state_request_termination k reason st tr = (r, st', tr')"
  shows "st' = st \<and> extends lock_noise tr tr' \<or>
    (\<exists>u t. st' = request_step reason (o_others k tr st) \<and>
      t = tr @ [Sync (MutexLock (Inr (o_others k tr st))), Sync (MutexUnlock st' u)] \<and>
      extends log_only t tr')"
proof (cases "reason = SANDBOX_TERMINATION_NONE")
  case True
  with assms show ?thesis by (simp add: sandbox_state_request_termination_def)
next
  case False
  obtain rc s1 t1 where L: "lock_state k st tr = (rc, s1, t1)"
    by (metis prod_cases3)
  show ?thesis
    using assms L False by (intro one_sectionI [OF L])
      (auto simp: sandbox_state_request_termination_def request_step_def Let_def
        split: prod.splits if_splits)
qed

interpretation request: state_operation "\<lambda>k. sandbox_state_request_termination k reason"
    "request_step reason" for reason
  by unfold_locales (rule request_section)

lemma mark_leader_section:
  assumes "sandbox_state_mark_leader_exited k st tr = (r, st', tr')"
  shows "st' = st \<and> extends lock_noise tr tr' \<or>
    (\<exists>u t. st' = leader_step (o_others k tr st) \<and>
      t = tr @ [Sync (MutexLock (Inr (o_others k tr st))), Sync (MutexUnlock st' u)] \<and>
      extends log_only t tr')"
proof -
  obtain rc s1 t1 where L: "lock_state k st tr = (rc, s1, t1)"
    by (metis prod_cases3)
  show ?thesis
    using assms L by (intro one_sectionI [OF L])
      (auto simp: sandbox_state_mark_leader_exited_def leader_step_def Let_def
        split: prod.splits if_splits)
qed

interpretation mark_leader: state_operation sandbox_state_mark_leader_exited leader_step
  by unfold_locales (rule mark_leader_section)

lemma mark_workload_section:
  assumes "sandbox_state_mark_workload_exited k st tr = (r, st', tr')"
  shows "st' = st \<and> extends lock_noise tr tr' \<or>
    (\<exists>u t. st' = workload_step (o_others k tr st) \<and>
      t = tr @ [Sync (MutexLock (Inr (o_others k tr st))), Sync (MutexUnlock st' u)] \<and>
      extends log_only t tr')"
proof -
  obtain rc s1 t1 where L: "lock_state k st tr = (rc, s1, t1)"
    by (metis prod_cases3)
  show ?thesis
    using assms L by (intro one_sectionI [OF L])
      (auto simp: sandbox_state_mark_workload_exited_def workload_step_def Let_def
        split: prod.splits if_splits)
qed

interpretation mark_workload: state_operation sandbox_state_mark_workload_exited workload_step
  by unfold_locales (rule mark_workload_section)

lemma set_workload_section:
  assumes "sandbox_state_set_workload k p g st tr = (r, st', tr')"
  shows "st' = st \<and> extends lock_noise tr tr' \<or>
    (\<exists>u t. st' = start_step p g (o_others k tr st) \<and>
      t = tr @ [Sync (MutexLock (Inr (o_others k tr st))), Sync (MutexUnlock st' u)] \<and>
      extends log_only t tr')"
proof (cases "p \<le> 0 \<or> g \<le> 0")
  case True
  with assms show ?thesis by (simp add: sandbox_state_set_workload_def)
next
  case False
  obtain rc s1 t1 where L: "lock_state k st tr = (rc, s1, t1)"
    by (metis prod_cases3)
  show ?thesis
    using assms L False by (intro one_sectionI [OF L])
      (auto simp: sandbox_state_set_workload_def start_step_def Let_def
        split: prod.splits if_splits)
qed

interpretation set_workload: state_operation "\<lambda>k. sandbox_state_set_workload k p g" "start_step p g"
    for p g
  by unfold_locales (rule set_workload_section)

lemma snapshot_Some:
  assumes "sandbox_state_snapshot k st tr = (Some snapshot, st', tr')"
  shows "snapshot = st'" and "st' = o_others k tr st"
    and "tr' = tr @ [Sync (MutexLock (Inr st')), Sync (MutexUnlock st' None)]"
proof -
  obtain rc s1 t1 where L: "lock_state k st tr = (rc, s1, t1)"
    by (metis prod_cases3)
  obtain rc' t2 where U: "unlock_state k s1 t1 = (rc', t2)"
    by fastforce
  have "rc = 0" "rc' = 0" "snapshot = s1" "st' = s1" "tr' = t2"
    using assms L U by (auto simp: sandbox_state_snapshot_def Let_def split: if_splits)
  with L U show "snapshot = st'" "st' = o_others k tr st"
      "tr' = tr @ [Sync (MutexLock (Inr st')), Sync (MutexUnlock st' None)]"
    by (auto elim!: lock_state_cases unlock_state_cases split: if_splits)
qed

subsection \<open>The system of threads\<close>

text \<open>
  The sections of all threads once the workload has started: \<open>monitor_step\<close> is what a monitor
  thread may do, \<open>system_step\<close> what any thread may do.
\<close>

definition monitor_reasons :: "SandboxTerminationReason set" where
  "monitor_reasons = {SANDBOX_TERMINATION_TIMEOUT, SANDBOX_TERMINATION_MEMORY_LIMIT,
     SANDBOX_TERMINATION_MONITOR_ERROR}"

inductive monitor_step :: "SandboxState \<Rightarrow> SandboxState \<Rightarrow> bool" where
  monitor_looks: "monitor_step s s"
| monitor_requests: "reason \<in> monitor_reasons \<Longrightarrow> monitor_step s (request_step reason s)"

inductive system_step :: "SandboxState \<Rightarrow> SandboxState \<Rightarrow> bool" where
  system_monitor: "monitor_step s s' \<Longrightarrow> system_step s s'"
| operator_request: "system_step s (request_step SANDBOX_TERMINATION_OPERATOR_SIGNAL s)"
| leader_exits: "system_step s (leader_step s)"
| workload_exits: "system_step s (workload_step s)"

inductive_cases monitor_stepE: "monitor_step s s'"
inductive_cases system_stepE: "system_step s s'"

lemma NONE_no_monitor_reason [simp]: "SANDBOX_TERMINATION_NONE \<notin> monitor_reasons"
  by (simp add: monitor_reasons_def)

text \<open>The invariant of the state, and what no thread ever takes back.\<close>

definition state_ok :: "SandboxState \<Rightarrow> bool" where
  "state_ok s \<longleftrightarrow>
     (ss_leader_alive s \<longrightarrow> ss_workload_alive s) \<and>
     (ss_termination_requested s \<longleftrightarrow> ss_termination_reason s \<noteq> SANDBOX_TERMINATION_NONE)"

definition settled :: "SandboxState \<Rightarrow> SandboxState \<Rightarrow> bool" where
  "settled s s' \<longleftrightarrow>
     ss_supervisor_pid s' = ss_supervisor_pid s \<and> ss_child_pid s' = ss_child_pid s \<and>
     ss_child_process_group_id s' = ss_child_process_group_id s \<and>
     (\<not> ss_leader_alive s \<longrightarrow> \<not> ss_leader_alive s') \<and>
     (\<not> ss_workload_alive s \<longrightarrow>
        \<not> ss_workload_alive s' \<and> ss_termination_requested s' = ss_termination_requested s) \<and>
     (ss_termination_requested s \<longrightarrow>
        ss_termination_requested s' \<and> ss_termination_reason s' = ss_termination_reason s)"

lemma settled_refl [simp]: "settled s s"
  by (simp add: settled_def)

lemma settled_trans: "settled s1 s2 \<Longrightarrow> settled s2 s3 \<Longrightarrow> settled s1 s3"
  by (auto simp: settled_def)

lemma steps_settled:
  "settled s (request_step reason s)" "settled s (leader_step s)" "settled s (workload_step s)"
  by (simp_all add: settled_def request_step_def leader_step_def workload_step_def)

lemma steps_ok:
  "state_ok s \<Longrightarrow> reason \<noteq> SANDBOX_TERMINATION_NONE \<Longrightarrow> state_ok (request_step reason s)"
  "state_ok s \<Longrightarrow> state_ok (leader_step s)" "state_ok s \<Longrightarrow> state_ok (workload_step s)"
  by (simp_all add: state_ok_def request_step_def leader_step_def workload_step_def)

lemma system_step_ok:
  assumes "system_step s s'"
  shows "settled s s'" and "state_ok s \<Longrightarrow> state_ok s'"
  using assms
  by (auto elim!: system_stepE monitor_stepE intro: steps_settled steps_ok simp: monitor_reasons_def)

lemma system_steps_ok:
  assumes "system_step\<^sup>*\<^sup>* s s'"
  shows "settled s s' \<and> (state_ok s \<longrightarrow> state_ok s')"
  using assms by (induction rule: rtranclp_induct) (auto dest: system_step_ok intro: settled_trans)

lemma monitor_steps: "monitor_step\<^sup>*\<^sup>* s s' \<Longrightarrow> system_step\<^sup>*\<^sup>* s s'"
  using mono_rtranclp [of monitor_step system_step] system_monitor by blast

lemma rely_system: "rely monitor_step k \<Longrightarrow> rely system_step k"
  by (simp add: rely_def monitor_steps)

lemma start_step_ok [simp]: "state_ok (start_step p g s)"
  by (simp add: start_step_def state_ok_def)

subsection \<open>Time\<close>

text \<open>Nanoseconds on a clock.\<close>

definition ns_of :: "timespec \<Rightarrow> int" where
  "ns_of t = tv_sec t * 1000000000 + tv_nsec t"

definition timespec_ok :: "timespec \<Rightarrow> bool" where
  "timespec_ok t \<longleftrightarrow> 0 \<le> tv_sec t \<and> tv_sec t < 2 ^ 33 \<and> 0 \<le> tv_nsec t \<and> tv_nsec t < 1000000000"

lemma sdiv_million:
  "(n :: int) sdiv 1000000 * 1000000 \<le> n + 999999 \<and> n - 999999 \<le> n sdiv 1000000 * 1000000"
proof -
  have d: "m div 1000000 * 1000000 + m mod 1000000 = m" "0 \<le> m mod 1000000" "m mod 1000000 < 1000000"
    for m :: int
    by simp_all
  show ?thesis
  proof (cases "0 \<le> n")
    case True
    then have "n sdiv 1000000 = n div 1000000"
      by (cases "n = 0") (simp_all add: signed_divide_int_def)
    then show ?thesis using d [of n] by linarith
  next
    case False
    then have "n sdiv 1000000 = - (- n div 1000000)"
      by (simp add: signed_divide_int_def)
    then show ?thesis using d [of "- n"] by linarith
  qed
qed

lemma unat_of_int: "0 \<le> m \<Longrightarrow> m < 2 ^ 64 \<Longrightarrow> int (unat (of_int m :: u64)) = m"
  by (simp add: unsigned_of_int take_bit_int_eq_self_iff)

lemma elapsed_exact:
  assumes "timespec_ok start" "timespec_ok current" "ns_of start \<le> ns_of current"
  shows "int (unat (elapsed_milliseconds start current)) =
    (tv_sec current - tv_sec start) * 1000 + (tv_nsec current - tv_nsec start) sdiv 1000000"
proof -
  let ?n = "(tv_nsec current - tv_nsec start) sdiv 1000000"
  let ?m = "(tv_sec current - tv_sec start) * 1000 + ?n"
  have n: "?n * 1000000 \<le> tv_nsec current - tv_nsec start + 999999"
      "tv_nsec current - tv_nsec start - 999999 \<le> ?n * 1000000"
    using sdiv_million [of "tv_nsec current - tv_nsec start"] by auto
  have "0 \<le> ?m" and "?m < 2 ^ 64"
    using assms n by (auto simp: timespec_ok_def ns_of_def)
  then show ?thesis
    unfolding elapsed_milliseconds_def Let_def by (rule unat_of_int)
qed

lemma elapsed_bounds:
  assumes "timespec_ok start" "timespec_ok current" "ns_of start \<le> ns_of current"
  shows "int (unat (elapsed_milliseconds start current)) * 1000000 < ns_of current - ns_of start + 1000000"
    and "ns_of current - ns_of start - 1000000 < int (unat (elapsed_milliseconds start current)) * 1000000"
  using elapsed_exact [OF assms] sdiv_million [of "tv_nsec current - tv_nsec start"]
  by (auto simp: ns_of_def algebra_simps)

subsection \<open>Sleeping\<close>

text \<open>
  The calls after which a loop goes round again although nothing else has changed: those that a
  signal interrupted, and a child that was reaped. There are at most \<open>b\<close> of them.
\<close>

definition retry_event :: "sandbox_event \<Rightarrow> bool" where
  "retry_event e \<longleftrightarrow>
     (case e of
        Time t \<Rightarrow> (case t of Nanosleep d r \<Rightarrow> (case r of Some (e, _) \<Rightarrow> e = EINTR | None \<Rightarrow> False) | _ \<Rightarrow> False)
      | File f \<Rightarrow> (case f of Write d bs r \<Rightarrow> r = Inl EINTR | Read d r \<Rightarrow> r = Inl EINTR | _ \<Rightarrow> False)
      | Proc p \<Rightarrow>
          (case p of
             Waitpid r \<Rightarrow> r = Inl EINTR \<or> (case r of Inr w \<Rightarrow> w \<noteq> None_Ready | Inl _ \<Rightarrow> False)
           | _ \<Rightarrow> False)
      | _ \<Rightarrow> False)"

definition retries :: "trace \<Rightarrow> nat" where
  "retries tr = length (filter retry_event tr)"

definition finite_retries :: "nat \<Rightarrow> kernel \<Rightarrow> bool" where
  "finite_retries b k \<longleftrightarrow>
     (\<forall>tr d r. o_nanosleep k tr d = Some (EINTR, r) \<longrightarrow> retries tr < b) \<and>
     (\<forall>tr. o_waitpid k tr = Inl EINTR \<longrightarrow> retries tr < b) \<and>
     (\<forall>tr p s. o_waitpid k tr = Inr (Reaped p s) \<longrightarrow> retries tr < b) \<and>
     (\<forall>tr d n. o_read k tr d n = Inl EINTR \<longrightarrow> retries tr < b) \<and>
     (\<forall>tr d bs. o_write k tr d bs = Inl EINTR \<longrightarrow> retries tr < b)"

lemma retries_simps [simp]:
  "retries [] = 0" "retries (tr @ ev) = retries tr + retries ev"
  "retries (e # tr) = (if retry_event e then Suc (retries tr) else retries tr)"
  by (simp_all add: retries_def)

lemma retry_event_simps [simp]:
  "retry_event (Time (Nanosleep d (Some (EINTR, r))))"
  "retry_event (Proc (Waitpid (Inl EINTR)))" "retry_event (Proc (Waitpid (Inr (Reaped p s))))"
  "retry_event (File (Read d' (Inl EINTR)))" "retry_event (File (Write d' bs (Inl EINTR)))"
  by (simp_all add: retry_event_def)

lemma sleep_loop_result:
  assumes "sleep_loop k d tr = Some res"
  shows "case res of (r, tr') \<Rightarrow> extends (\<lambda>e. \<exists>d r. e = Time (Nanosleep d r)) tr tr' \<and> r \<noteq> Some EINTR"
proof (rule sleep_loop.raw_induct [where P = "\<lambda>k d tr (r, tr').
      extends (\<lambda>e. \<exists>d r. e = Time (Nanosleep d r)) tr tr' \<and> r \<noteq> Some EINTR", OF _ assms], goal_cases)
  case (1 f k d tr res)
  note IH = 1(1) and eq = 1(2)
  show ?case
  proof (cases "o_nanosleep k tr d")
    case None
    with eq show ?thesis by (auto simp: os_nanosleep_def os_call_def)
  next
    case (Some a)
    obtain e r where a: "a = (e, r)" by fastforce
    with Some eq IH [of k r "tr @ [Time (Nanosleep d (Some (e, r)))]" res] show ?thesis
      by (auto simp: os_nanosleep_def os_call_def intro: extends_step split: if_splits)
  qed
qed

lemma sleep_loop_returns:
  assumes "finite_retries b k"
  shows "sleep_loop k d tr \<noteq> None"
proof (induction "b - retries tr" arbitrary: d tr rule: less_induct)
  case less
  have lt: "o_nanosleep k tr d = Some (EINTR, r) \<Longrightarrow> retries tr < b" for r
    using assms unfolding finite_retries_def by blast
  show ?case
  proof (cases "o_nanosleep k tr d")
    case None
    then show ?thesis by (subst sleep_loop.simps) (simp add: os_nanosleep_def os_call_def)
  next
    case (Some a)
    obtain e r where a: "a = (e, r)" by fastforce
    show ?thesis
    proof (cases "e = EINTR")
      case True
      with lt [of r] Some a less [of "tr @ [Time (Nanosleep d (Some (EINTR, r)))]" r] show ?thesis
        by (subst sleep_loop.simps) (simp add: os_nanosleep_def os_call_def)
    next
      case False
      with Some a show ?thesis by (subst sleep_loop.simps) (simp add: os_nanosleep_def os_call_def)
    qed
  qed
qed

lemma sleep_milliseconds_result:
  "sleep_milliseconds k ms tr = Some (r, tr') \<Longrightarrow>
    extends (\<lambda>e. \<exists>d r. e = Time (Nanosleep d r)) tr tr' \<and> r \<noteq> Some EINTR"
  using sleep_loop_result [of k "delay_of ms" tr "(r, tr')"] by (simp add: sleep_milliseconds_def)

lemma sleep_milliseconds_total: "finite_retries b k \<Longrightarrow> total (sleep_milliseconds k ms tr)"
  unfolding sleep_milliseconds_def by (intro totalI sleep_loop_returns)

subsection \<open>Requests\<close>

lemma request_result:
  assumes "sandbox_state_request_termination k reason st tr = (rc, st', tr')"
  shows "rc = 1 \<Longrightarrow> reason \<noteq> SANDBOX_TERMINATION_NONE \<and> ss_workload_alive (o_others k tr st) \<and>
      \<not> ss_termination_requested (o_others k tr st) \<and> st' = request_step reason (o_others k tr st)"
    and "rc = 0 \<Longrightarrow> st' = o_others k tr st \<and> (ss_termination_requested st' \<or> \<not> ss_workload_alive st')"
proof -
  obtain rc1 s1 t1 where L: "lock_state k st tr = (rc1, s1, t1)"
    by (metis prod_cases3)
  obtain rc2 t2 where U: "unlock_state k (request_step reason s1) t1 = (rc2, t2)"
    by fastforce
  obtain rc3 t3 where U3: "unlock_state k s1 t1 = (rc3, t3)"
    by fastforce
  show "rc = 1 \<Longrightarrow> reason \<noteq> SANDBOX_TERMINATION_NONE \<and> ss_workload_alive (o_others k tr st) \<and>
      \<not> ss_termination_requested (o_others k tr st) \<and> st' = request_step reason (o_others k tr st)"
    using L
  proof (cases rule: lock_state_cases)
    case locked
    then show "rc = 1 \<Longrightarrow> ?thesis"
      using assms L U U3
      by (auto simp: sandbox_state_request_termination_def request_step_def Let_def split: if_splits)
  qed (use assms L in \<open>auto simp: sandbox_state_request_termination_def split: if_splits\<close>)
  show "rc = 0 \<Longrightarrow> st' = o_others k tr st \<and> (ss_termination_requested st' \<or> \<not> ss_workload_alive st')"
    using L
  proof (cases rule: lock_state_cases)
    case locked
    then show "rc = 0 \<Longrightarrow> ?thesis"
      using assms L U U3
      by (auto simp: sandbox_state_request_termination_def request_step_def Let_def split: if_splits)
  qed (use assms L in \<open>auto simp: sandbox_state_request_termination_def split: if_splits\<close>)
qed

lemma set_workload_result:
  assumes "sandbox_state_set_workload k p g st tr = (rc, st', tr')"
  shows "rc = 0 \<Longrightarrow> st' = start_step p g (o_others k tr st)"
  using assms
  by (auto simp: sandbox_state_set_workload_def start_step_def Let_def
      split: if_splits prod.splits elim!: lock_state_cases)

subsection \<open>Properties\<close>

lemma system_request:
  assumes "reason \<noteq> SANDBOX_TERMINATION_NONE" and "reason \<noteq> SANDBOX_TERMINATION_SUPERVISOR_ERROR"
  shows "system_step s (request_step reason s)"
proof (cases "reason \<in> monitor_reasons")
  case True
  then show ?thesis by (intro system_monitor monitor_requests)
next
  case False
  with assms have "reason = SANDBOX_TERMINATION_OPERATOR_SIGNAL"
    by (cases reason) (auto simp: monitor_reasons_def)
  then show ?thesis by (simp add: operator_request)
qed

text \<open>
  C31: the first reason wins. When a request for termination returns 1, the workload was alive and
  nobody had requested anything before; from then on, whatever sections any thread executes, the
  request stands with exactly this reason, and no later request changes anything.
\<close>

theorem request_termination_first_wins:
  assumes "sandbox_state_request_termination k reason st tr = (1, st', tr')"
    and "system_step\<^sup>*\<^sup>* st' later"
  shows "reason \<noteq> SANDBOX_TERMINATION_NONE \<and> ss_workload_alive (o_others k tr st) \<and>
    \<not> ss_termination_requested (o_others k tr st) \<and>
    ss_termination_requested later \<and> ss_termination_reason later = reason \<and>
    (\<forall>reason2. request_step reason2 later = later)"
  using request_result(1) [OF assms(1) refl] system_steps_ok [OF assms(2)]
  by (auto simp: settled_def request_step_def)

definition demo_running :: SandboxState where
  "demo_running = \<lparr>ss_supervisor_pid = 100, ss_child_pid = 200, ss_child_process_group_id = 200,
     ss_leader_alive = True, ss_workload_alive = True, ss_termination_requested = False,
     ss_termination_reason = SANDBOX_TERMINATION_NONE\<rparr>"

lemma request_termination_first_wins_witness:
  "case sandbox_state_request_termination demo_os SANDBOX_TERMINATION_TIMEOUT demo_running [] of
     (rc, st', tr') \<Rightarrow> rc = 1 \<and> ss_termination_reason (workload_step st') = SANDBOX_TERMINATION_TIMEOUT"
proof -
  obtain st' tr' where R: "sandbox_state_request_termination demo_os SANDBOX_TERMINATION_TIMEOUT
      demo_running [] = (1, st', tr')"
    by (simp add: sandbox_state_request_termination_def lock_state_def unlock_state_def os_lock_def
        os_unlock_def os_call_def demo_os_def demo_running_def)
  have "system_step\<^sup>*\<^sup>* st' (workload_step st')"
    by (blast intro: workload_exits)
  from request_termination_first_wins [OF R this] R show ?thesis by simp
qed

text \<open>
  \<open>atomic_with step ok\<close>: the code \<open>ok\<close> tells whether both calls of the mutex succeeded. Without the
  mutex, nothing happens but a line on the log; with it, there is exactly one section, it starts on
  the state as the other threads left it, and ends with \<open>step\<close> of it.
\<close>

definition atomic_with ::
    "(SandboxState \<Rightarrow> SandboxState) \<Rightarrow> bool \<Rightarrow> kernel \<Rightarrow> SandboxState \<Rightarrow> trace \<Rightarrow> SandboxState \<Rightarrow> trace \<Rightarrow> bool"
    where
  "atomic_with step ok k st tr st' tr' \<longleftrightarrow>
     (case o_lock k tr of
        Some e \<Rightarrow> \<not> ok \<and> st' = st \<and> extends log_only (tr @ [Sync (MutexLock (Inl e))]) tr'
      | None \<Rightarrow>
          \<exists>u. st' = step (o_others k tr st) \<and> (ok \<longleftrightarrow> u = None) \<and>
            extends log_only
              (tr @ [Sync (MutexLock (Inr (o_others k tr st))), Sync (MutexUnlock st' u)]) tr')"

lemma atomic_withI:
  assumes "lock_state k st tr = (rc, s1, t1)"
    and "rc \<noteq> 0 \<Longrightarrow> \<not> ok \<and> st' = s1 \<and> tr' = t1"
    and "rc = 0 \<Longrightarrow> st' = step s1 \<and> unlock_state k (step s1) t1 = (rc', tr') \<and> (ok \<longleftrightarrow> rc' = 0)"
  shows "atomic_with step ok k st tr st' tr'"
proof (cases "o_lock k tr")
  case (Some e)
  then have "rc = -1" "s1 = st" "extends log_only (tr @ [Sync (MutexLock (Inl e))]) t1"
    using assms(1) error.log_extends by (auto simp: lock_state_def os_lock_def os_call_def)
  with Some assms(2) show ?thesis by (simp add: atomic_with_def)
next
  case None
  then have L: "rc = 0" "s1 = o_others k tr st" "t1 = tr @ [Sync (MutexLock (Inr s1))]"
    using assms(1) by (auto simp: lock_state_def os_lock_def os_call_def)
  note S = assms(3) [OF L(1)]
  obtain u where "extends log_only (t1 @ [Sync (MutexUnlock (step s1) u)]) tr'"
      and "rc' = (if u = None then 0 else -1)"
    using S unlock_state_cases by metis
  with None L(2,3) S show ?thesis by (auto simp: atomic_with_def split: if_splits)
qed

lemma snapshot_atomic:
  assumes "sandbox_state_snapshot k st tr = (r, st', tr')"
  shows "atomic_with (\<lambda>s. s) (r \<noteq> None) k st tr st' tr' \<and> (r \<noteq> None \<longrightarrow> r = Some st')"
proof
  obtain rc s1 t1 where L: "lock_state k st tr = (rc, s1, t1)"
    by (metis prod_cases3)
  obtain rc' t2 where U: "unlock_state k s1 t1 = (rc', t2)"
    by fastforce
  show "atomic_with (\<lambda>s. s) (r \<noteq> None) k st tr st' tr'"
    using assms L U by (intro atomic_withI [OF L, where rc' = rc'])
      (auto simp: sandbox_state_snapshot_def Let_def split: if_splits)
  show "r \<noteq> None \<longrightarrow> r = Some st'"
    using assms snapshot_Some(1) by (cases r) auto
qed

lemma request_atomic:
  assumes "sandbox_state_request_termination k reason st tr = (rc, st', tr')"
    and "reason \<noteq> SANDBOX_TERMINATION_NONE"
  shows "atomic_with (request_step reason) (0 \<le> rc) k st tr st' tr'"
proof -
  obtain rc1 s1 t1 where L: "lock_state k st tr = (rc1, s1, t1)"
    by (metis prod_cases3)
  obtain rc' t2 where U: "unlock_state k (request_step reason s1) t1 = (rc', t2)"
    by fastforce
  have "rc' \<noteq> 0 \<Longrightarrow> \<not> 0 \<le> rc'"
    using U by (elim unlock_state_cases) (simp split: if_splits)
  with assms L U show ?thesis
    by (intro atomic_withI [OF L, where rc' = rc'])
      (auto simp: sandbox_state_request_termination_def request_step_def Let_def split: if_splits prod.splits)
qed

lemma mark_atomic:
  "sandbox_state_mark_leader_exited k st tr = (rc, st', tr') \<Longrightarrow>
     atomic_with leader_step (rc = 0) k st tr st' tr'"
  "sandbox_state_mark_workload_exited k st tr = (rc, st', tr') \<Longrightarrow>
     atomic_with workload_step (rc = 0) k st tr st' tr'"
proof -
  obtain rc1 s1 t1 where L: "lock_state k st tr = (rc1, s1, t1)"
    by (metis prod_cases3)
  show "sandbox_state_mark_leader_exited k st tr = (rc, st', tr') \<Longrightarrow>
      atomic_with leader_step (rc = 0) k st tr st' tr'"
    using L by (intro atomic_withI [OF L, where rc' = rc])
      (auto simp: sandbox_state_mark_leader_exited_def leader_step_def Let_def split: if_splits prod.splits)
  show "sandbox_state_mark_workload_exited k st tr = (rc, st', tr') \<Longrightarrow>
      atomic_with workload_step (rc = 0) k st tr st' tr'"
    using L by (intro atomic_withI [OF L, where rc' = rc])
      (auto simp: sandbox_state_mark_workload_exited_def workload_step_def Let_def split: if_splits prod.splits)
qed

lemma set_workload_atomic:
  assumes "sandbox_state_set_workload k p g st tr = (rc, st', tr')" and "0 < p" and "0 < g"
  shows "atomic_with (start_step p g) (rc = 0) k st tr st' tr'"
proof -
  obtain rc1 s1 t1 where L: "lock_state k st tr = (rc1, s1, t1)"
    by (metis prod_cases3)
  with assms show ?thesis
    by (intro atomic_withI [OF L, where rc' = rc])
      (auto simp: sandbox_state_set_workload_def start_step_def Let_def split: if_splits prod.splits)
qed

lemma atomic_system:
  assumes "atomic_with step ok k st tr st' tr'" and "rely monitor_step k" and "state_ok st"
    and "\<And>s. system_step s (step s)"
  shows "system_step\<^sup>*\<^sup>* st st' \<and> state_ok st' \<and> settled st st'"
proof -
  have "system_step\<^sup>*\<^sup>* st (o_others k tr st)"
    using assms(2) by (intro monitor_steps relyD)
  then have "system_step\<^sup>*\<^sup>* st st'"
    using assms(1,4) by (auto simp: atomic_with_def split: option.splits intro: rtranclp.rtrancl_into_rtrancl)
  with system_steps_ok assms(3) show ?thesis by blast
qed

lemma monitor_looks_system: "system_step s s"
  by (intro system_monitor monitor_looks)

lemma snapshot_contract: "case sandbox_state_snapshot k st tr of (r, st', tr') \<Rightarrow>
     atomic_with (\<lambda>s. s) (r \<noteq> None) k st tr st' tr' \<and> (r \<noteq> None \<longrightarrow> r = Some st') \<and>
     (rely monitor_step k \<and> state_ok st \<longrightarrow> system_step\<^sup>*\<^sup>* st st' \<and> state_ok st' \<and> settled st st')"
  by (auto split: prod.splits dest!: snapshot_atomic dest: atomic_system [OF _ _ _ monitor_looks_system])

lemma request_contract: "case sandbox_state_request_termination k reason st tr of (rc, st', tr') \<Rightarrow>
     (if reason = SANDBOX_TERMINATION_NONE then rc = -1 \<and> st' = st \<and> tr' = tr
      else atomic_with (request_step reason) (0 \<le> rc) k st tr st' tr') \<and>
     (rely monitor_step k \<and> state_ok st \<and> reason \<noteq> SANDBOX_TERMINATION_SUPERVISOR_ERROR \<longrightarrow>
        system_step\<^sup>*\<^sup>* st st' \<and> state_ok st' \<and> settled st st')"
proof (cases "reason = SANDBOX_TERMINATION_NONE")
  case True
  then show ?thesis by (simp add: sandbox_state_request_termination_def)
next
  case False
  then show ?thesis
    by (auto split: prod.splits dest!: request_atomic [OF _ False]
        dest: atomic_system [OF _ _ _ system_request [OF False]])
qed

lemma leader_contract: "case sandbox_state_mark_leader_exited k st tr of (rc, st', tr') \<Rightarrow>
     atomic_with leader_step (rc = 0) k st tr st' tr' \<and>
     (rely monitor_step k \<and> state_ok st \<longrightarrow> system_step\<^sup>*\<^sup>* st st' \<and> state_ok st' \<and> settled st st')"
  by (auto split: prod.splits dest!: mark_atomic(1) dest: atomic_system [OF _ _ _ leader_exits])

lemma workload_contract: "case sandbox_state_mark_workload_exited k st tr of (rc, st', tr') \<Rightarrow>
     atomic_with workload_step (rc = 0) k st tr st' tr' \<and>
     (rely monitor_step k \<and> state_ok st \<longrightarrow> system_step\<^sup>*\<^sup>* st st' \<and> state_ok st' \<and> settled st st')"
  by (auto split: prod.splits dest!: mark_atomic(2) dest: atomic_system [OF _ _ _ workload_exits])

lemma set_workload_contract: "case sandbox_state_set_workload k p g st tr of (rc, st', tr') \<Rightarrow>
     (if p \<le> 0 \<or> g \<le> 0 then rc = -1 \<and> st' = st \<and> tr' = tr
      else atomic_with (start_step p g) (rc = 0) k st tr st' tr' \<and> (rc = 0 \<longrightarrow> state_ok st'))"
proof (cases "p \<le> 0 \<or> g \<le> 0")
  case True
  then show ?thesis by (simp add: sandbox_state_set_workload_def)
next
  case False
  obtain rc st' tr' where S: "sandbox_state_set_workload k p g st tr = (rc, st', tr')"
    by (metis prod_cases3)
  with False have "atomic_with (start_step p g) (rc = 0) k st tr st' tr'"
    by (intro set_workload_atomic) simp_all
  moreover have "rc = 0 \<longrightarrow> state_ok st'"
    using set_workload_result [OF S] by auto
  ultimately show ?thesis using S False by simp
qed

text \<open>
  C32: the operations implement atomic steps. Each operation is one critical section with exactly
  its own effect on the state that it found: none for a snapshot, which returns that state; the
  request, if it is the first one, for \<open>request_termination\<close>; the end of the leader, or of leader and
  workload, for the two marks; the start of a new workload without request for \<open>set_workload\<close>. The
  code reports success exactly when lock and unlock succeeded; without the lock the state stays as it
  is, and a request without reason or a workload without pid is refused before any call. While the
  other threads keep to the steps of monitors, all of them but \<open>set_workload\<close>, which starts the
  system, move the state by steps of the system, keep its invariant (a living leader means a living
  workload, a request means a reason) and take nothing back.
\<close>

theorem state_operations_atomic:
  "(case sandbox_state_snapshot k st tr of (r, st', tr') \<Rightarrow>
      atomic_with (\<lambda>s. s) (r \<noteq> None) k st tr st' tr' \<and> (r \<noteq> None \<longrightarrow> r = Some st') \<and>
      (rely monitor_step k \<and> state_ok st \<longrightarrow> system_step\<^sup>*\<^sup>* st st' \<and> state_ok st' \<and> settled st st')) \<and>
   (case sandbox_state_request_termination k reason st tr of (rc, st', tr') \<Rightarrow>
      (if reason = SANDBOX_TERMINATION_NONE then rc = -1 \<and> st' = st \<and> tr' = tr
       else atomic_with (request_step reason) (0 \<le> rc) k st tr st' tr') \<and>
      (rely monitor_step k \<and> state_ok st \<and> reason \<noteq> SANDBOX_TERMINATION_SUPERVISOR_ERROR \<longrightarrow>
         system_step\<^sup>*\<^sup>* st st' \<and> state_ok st' \<and> settled st st')) \<and>
   (case sandbox_state_mark_leader_exited k st tr of (rc, st', tr') \<Rightarrow>
      atomic_with leader_step (rc = 0) k st tr st' tr' \<and>
      (rely monitor_step k \<and> state_ok st \<longrightarrow> system_step\<^sup>*\<^sup>* st st' \<and> state_ok st' \<and> settled st st')) \<and>
   (case sandbox_state_mark_workload_exited k st tr of (rc, st', tr') \<Rightarrow>
      atomic_with workload_step (rc = 0) k st tr st' tr' \<and>
      (rely monitor_step k \<and> state_ok st \<longrightarrow> system_step\<^sup>*\<^sup>* st st' \<and> state_ok st' \<and> settled st st')) \<and>
   (case sandbox_state_set_workload k p g st tr of (rc, st', tr') \<Rightarrow>
      (if p \<le> 0 \<or> g \<le> 0 then rc = -1 \<and> st' = st \<and> tr' = tr
       else atomic_with (start_step p g) (rc = 0) k st tr st' tr' \<and> (rc = 0 \<longrightarrow> state_ok st')))"
  by (intro conjI snapshot_contract request_contract leader_contract workload_contract
      set_workload_contract)

lemma state_operations_atomic_witness:
  "\<exists>rc st' tr'. sandbox_state_mark_leader_exited demo_os demo_running [] = (rc, st', tr') \<and>
     atomic_with leader_step (rc = 0) demo_os demo_running [] st' tr' \<and> settled demo_running st'"
proof -
  have "rely monitor_step demo_os" "state_ok demo_running"
    by (simp_all add: rely_def demo_os_def state_ok_def demo_running_def)
  moreover obtain rc st' tr' where "sandbox_state_mark_leader_exited demo_os demo_running [] = (rc, st', tr')"
    by (metis prod_cases3)
  ultimately show ?thesis
    using state_operations_atomic [of demo_os demo_running "[]"] by auto
qed

text \<open>
  \<^verbatim>\<open>elapsed_milliseconds\<close> is right to less than a millisecond. For two readings of a clock that
  does not go backwards, the result in 64 bits does not wrap around, and differs by less than one
  millisecond from the time that has passed, even when the nanoseconds are borrowed from a second.
\<close>

lemma elapsed_milliseconds_precise:
  assumes "timespec_ok start" "timespec_ok current" "ns_of start \<le> ns_of current"
  shows "\<bar>int (unat (elapsed_milliseconds start current)) * 1000000 - (ns_of current - ns_of start)\<bar> < 1000000"
  using elapsed_bounds [OF assms] by linarith

lemma elapsed_milliseconds_precise_witness:
  "\<bar>int (unat (elapsed_milliseconds \<lparr>tv_sec = 7, tv_nsec = 999999999\<rparr> \<lparr>tv_sec = 9, tv_nsec = 1\<rparr>)) * 1000000
    - 1000000002\<bar> < 1000000"
  using elapsed_milliseconds_precise [of "\<lparr>tv_sec = 7, tv_nsec = 999999999\<rparr>" "\<lparr>tv_sec = 9, tv_nsec = 1\<rparr>"]
  by (simp add: timespec_ok_def ns_of_def)

end
