(* ===== verification/Child_Hardening.thy ===== *)
theory Child_Hardening
  imports Shared_State
begin

unbundle bit_operations_syntax

text \<open>
  The second part of \<^verbatim>\<open>Sandbox/security.c\<close>: what the child does to itself before it becomes
  the target. Results are \<open>None\<close> for the code 0 and \<open>Some e\<close> for -1 with \<^verbatim>\<open>errno\<close> \<open>e\<close>. The
  numbers of system calls and the audit architecture come from the kernel headers of the build; they
  are a parameter, and a call whose number the headers do not define is \<open>None\<close> there.
\<close>

subsection \<open>Parent and limits\<close>

definition sandbox_child_set_parent_death_signal ::
    "kernel \<Rightarrow> pid \<Rightarrow> trace \<Rightarrow> errno option \<times> trace" where
  "sandbox_child_set_parent_death_signal k expected_parent tr =
     (case os_prctl k (PR_SET_PDEATHSIG SIGKILL) tr of
        (Some e, tr) \<Rightarrow> (Some e, tr)
      | (None, tr) \<Rightarrow>
          case os_getppid k tr of (parent, tr) \<Rightarrow>
            (if parent \<noteq> expected_parent then Some ESRCH else None, tr))"

definition sandbox_child_set_resource_limits ::
    "kernel \<Rightarrow> u64 \<Rightarrow> trace \<Rightarrow> errno option \<times> trace" where
  "sandbox_child_set_resource_limits k memory_limit_kilobytes tr =
     (case os_setrlimit k RLIMIT_CORE 0 tr of
        (Some e, tr) \<Rightarrow> (Some e, tr)
      | (None, tr) \<Rightarrow>
          if 0 < memory_limit_kilobytes
          then
            let bytes = memory_limit_kilobytes * 1024; rlim_cur = bytes in
            if rlim_cur \<noteq> bytes then (Some EOVERFLOW, tr)
            else os_setrlimit k RLIMIT_AS rlim_cur tr
          else (None, tr))"

subsection \<open>The file system\<close>

definition LANDLOCK_ACCESS_FS_EXECUTE :: u64 where "LANDLOCK_ACCESS_FS_EXECUTE = push_bit 0 1"
definition LANDLOCK_ACCESS_FS_WRITE_FILE :: u64 where "LANDLOCK_ACCESS_FS_WRITE_FILE = push_bit 1 1"
definition LANDLOCK_ACCESS_FS_READ_FILE :: u64 where "LANDLOCK_ACCESS_FS_READ_FILE = push_bit 2 1"
definition LANDLOCK_ACCESS_FS_READ_DIR :: u64 where "LANDLOCK_ACCESS_FS_READ_DIR = push_bit 3 1"
definition LANDLOCK_ACCESS_FS_REMOVE_DIR :: u64 where "LANDLOCK_ACCESS_FS_REMOVE_DIR = push_bit 4 1"
definition LANDLOCK_ACCESS_FS_REMOVE_FILE :: u64 where "LANDLOCK_ACCESS_FS_REMOVE_FILE = push_bit 5 1"
definition LANDLOCK_ACCESS_FS_MAKE_CHAR :: u64 where "LANDLOCK_ACCESS_FS_MAKE_CHAR = push_bit 6 1"
definition LANDLOCK_ACCESS_FS_MAKE_DIR :: u64 where "LANDLOCK_ACCESS_FS_MAKE_DIR = push_bit 7 1"
definition LANDLOCK_ACCESS_FS_MAKE_REG :: u64 where "LANDLOCK_ACCESS_FS_MAKE_REG = push_bit 8 1"
definition LANDLOCK_ACCESS_FS_MAKE_SOCK :: u64 where "LANDLOCK_ACCESS_FS_MAKE_SOCK = push_bit 9 1"
definition LANDLOCK_ACCESS_FS_MAKE_FIFO :: u64 where "LANDLOCK_ACCESS_FS_MAKE_FIFO = push_bit 10 1"
definition LANDLOCK_ACCESS_FS_MAKE_BLOCK :: u64 where "LANDLOCK_ACCESS_FS_MAKE_BLOCK = push_bit 11 1"
definition LANDLOCK_ACCESS_FS_MAKE_SYM :: u64 where "LANDLOCK_ACCESS_FS_MAKE_SYM = push_bit 12 1"
definition LANDLOCK_ACCESS_FS_REFER :: u64 where "LANDLOCK_ACCESS_FS_REFER = push_bit 13 1"
definition LANDLOCK_ACCESS_FS_TRUNCATE :: u64 where "LANDLOCK_ACCESS_FS_TRUNCATE = push_bit 14 1"

lemmas landlock_bits =
  LANDLOCK_ACCESS_FS_EXECUTE_def LANDLOCK_ACCESS_FS_WRITE_FILE_def LANDLOCK_ACCESS_FS_READ_FILE_def
  LANDLOCK_ACCESS_FS_READ_DIR_def LANDLOCK_ACCESS_FS_REMOVE_DIR_def LANDLOCK_ACCESS_FS_REMOVE_FILE_def
  LANDLOCK_ACCESS_FS_MAKE_CHAR_def LANDLOCK_ACCESS_FS_MAKE_DIR_def LANDLOCK_ACCESS_FS_MAKE_REG_def
  LANDLOCK_ACCESS_FS_MAKE_SOCK_def LANDLOCK_ACCESS_FS_MAKE_FIFO_def LANDLOCK_ACCESS_FS_MAKE_BLOCK_def
  LANDLOCK_ACCESS_FS_MAKE_SYM_def LANDLOCK_ACCESS_FS_REFER_def LANDLOCK_ACCESS_FS_TRUNCATE_def

definition add_landlock_path_rule ::
    "kernel \<Rightarrow> fd \<Rightarrow> string \<Rightarrow> u64 \<Rightarrow> bool \<Rightarrow> trace \<Rightarrow> errno option \<times> trace" where
  "add_landlock_path_rule k ruleset_descriptor path allowed_access required tr =
     (case os_open k O_PATH path tr of
        (Inl e, tr) \<Rightarrow> (if required then Some e else None, tr)
      | (Inr path_descriptor, tr) \<Rightarrow>
          case os_landlock_add k ruleset_descriptor path_descriptor allowed_access tr of
            (result, tr) \<Rightarrow> case os_close k path_descriptor tr of (_, tr) \<Rightarrow> (result, tr))"

definition resolve_target_directory :: "kernel \<Rightarrow> string \<Rightarrow> trace \<Rightarrow> (errno + string) \<times> trace" where
  "resolve_target_directory k target_path tr =
     (case os_realpath k target_path tr of
        (Inl e, tr) \<Rightarrow> (Inl e, tr)
      | (Inr resolved, tr) \<Rightarrow>
          case strrchr resolved CHR ''/'' of
            None \<Rightarrow> (Inl EINVAL, tr)
          | Some separator \<Rightarrow>
              let resolved = (if separator = 0 then take 1 resolved else take separator resolved) in
              if 4096 \<le> length resolved then (Inl ENAMETOOLONG, tr) else (Inr resolved, tr))"

definition handled_access :: "nat \<Rightarrow> u64" where
  "handled_access abi =
     (LANDLOCK_ACCESS_FS_EXECUTE OR LANDLOCK_ACCESS_FS_WRITE_FILE OR
      LANDLOCK_ACCESS_FS_READ_FILE OR LANDLOCK_ACCESS_FS_READ_DIR OR
      LANDLOCK_ACCESS_FS_REMOVE_DIR OR LANDLOCK_ACCESS_FS_REMOVE_FILE OR
      LANDLOCK_ACCESS_FS_MAKE_CHAR OR LANDLOCK_ACCESS_FS_MAKE_DIR OR
      LANDLOCK_ACCESS_FS_MAKE_REG OR LANDLOCK_ACCESS_FS_MAKE_SOCK OR
      LANDLOCK_ACCESS_FS_MAKE_FIFO OR LANDLOCK_ACCESS_FS_MAKE_BLOCK OR
      LANDLOCK_ACCESS_FS_MAKE_SYM) OR
     (if 2 \<le> abi then LANDLOCK_ACCESS_FS_REFER else 0) OR
     (if 3 \<le> abi then LANDLOCK_ACCESS_FS_TRUNCATE else 0)"

definition runtime_directory_access :: u64 where
  "runtime_directory_access =
     LANDLOCK_ACCESS_FS_EXECUTE OR LANDLOCK_ACCESS_FS_READ_FILE OR LANDLOCK_ACCESS_FS_READ_DIR"

definition runtime_file_access :: u64 where
  "runtime_file_access = LANDLOCK_ACCESS_FS_EXECUTE OR LANDLOCK_ACCESS_FS_READ_FILE"

text \<open>The rules in the order of the calls: path, access, whether the path must exist.\<close>

definition landlock_rules :: "string \<Rightarrow> string \<Rightarrow> (string \<times> u64 \<times> bool) list" where
  "landlock_rules target_path target_directory =
     [(target_path, runtime_file_access, True),
      (target_directory, runtime_directory_access, True),
      (''/usr'', runtime_directory_access, True),
      (''/lib'', runtime_directory_access, False),
      (''/lib64'', runtime_directory_access, False),
      (''/etc/ld.so.cache'', LANDLOCK_ACCESS_FS_READ_FILE, False),
      (''/etc/ld.so.preload'', LANDLOCK_ACCESS_FS_READ_FILE, False),
      (''/dev/null'', LANDLOCK_ACCESS_FS_READ_FILE OR LANDLOCK_ACCESS_FS_WRITE_FILE, False),
      (''/dev/urandom'', LANDLOCK_ACCESS_FS_READ_FILE, False),
      (''/dev/random'', LANDLOCK_ACCESS_FS_READ_FILE, False)]"

fun add_landlock_rules ::
    "kernel \<Rightarrow> fd \<Rightarrow> (string \<times> u64 \<times> bool) list \<Rightarrow> trace \<Rightarrow> errno option \<times> trace" where
  "add_landlock_rules k ruleset_descriptor [] tr = (None, tr)"
| "add_landlock_rules k ruleset_descriptor ((path, access, required) # rules) tr =
     (case add_landlock_path_rule k ruleset_descriptor path access required tr of
        (Some e, tr) \<Rightarrow> (Some e, tr)
      | (None, tr) \<Rightarrow> add_landlock_rules k ruleset_descriptor rules tr)"

definition sandbox_child_restrict_filesystem ::
    "kernel \<Rightarrow> string \<Rightarrow> trace \<Rightarrow> errno option \<times> trace" where
  "sandbox_child_restrict_filesystem k target_path tr =
     (case resolve_target_directory k target_path tr of
        (Inl e, tr) \<Rightarrow> (Some e, tr)
      | (Inr target_directory, tr) \<Rightarrow>
          case os_landlock_version k tr of
            (Inl e, tr) \<Rightarrow> (Some e, tr)
          | (Inr abi, tr) \<Rightarrow>
              if abi < 1 then (Some ENOTSUP, tr)
              else case os_landlock_create k (handled_access abi) tr of
                (Inl e, tr) \<Rightarrow> (Some e, tr)
              | (Inr ruleset_descriptor, tr) \<Rightarrow>
                  case add_landlock_rules k ruleset_descriptor
                         (landlock_rules target_path target_directory) tr of
                    (Some e, tr) \<Rightarrow> (case os_close k ruleset_descriptor tr of (_, tr) \<Rightarrow> (Some e, tr))
                  | (None, tr) \<Rightarrow>
                      case os_prctl k PR_SET_NO_NEW_PRIVS tr of
                        (Some e, tr) \<Rightarrow>
                          (case os_close k ruleset_descriptor tr of (_, tr) \<Rightarrow> (Some e, tr))
                      | (None, tr) \<Rightarrow>
                          case os_landlock_restrict k ruleset_descriptor tr of
                            (Some e, tr) \<Rightarrow>
                              (case os_close k ruleset_descriptor tr of (_, tr) \<Rightarrow> (Some e, tr))
                          | (None, tr) \<Rightarrow> os_close k ruleset_descriptor tr)"

subsection \<open>The network\<close>

datatype network_call =
    NR_socket | NR_socketpair | NR_connect | NR_bind | NR_listen | NR_accept | NR_accept4
  | NR_sendto | NR_sendmsg | NR_sendmmsg | NR_recvfrom | NR_recvmsg | NR_recvmmsg | NR_shutdown
  | NR_setsockopt | NR_getsockopt

record headers =
  audit_arch :: u32
  call_number :: "network_call \<Rightarrow> u32 option"

definition blocked_network_syscalls :: "headers \<Rightarrow> u32 list" where
  "blocked_network_syscalls h =
     List.map_filter (call_number h)
       [NR_socket, NR_socketpair, NR_connect, NR_bind, NR_listen, NR_accept, NR_accept4, NR_sendto,
        NR_sendmsg, NR_sendmmsg, NR_recvfrom, NR_recvmsg, NR_recvmmsg, NR_shutdown, NR_setsockopt,
        NR_getsockopt]"

text \<open>Codes of instructions, return values and offsets as in the kernel's interface.\<close>

definition BPF_LD_W_ABS :: nat where "BPF_LD_W_ABS = 0x20"
definition BPF_JMP_JEQ_K :: nat where "BPF_JMP_JEQ_K = 0x15"
definition BPF_RET_K :: nat where "BPF_RET_K = 0x06"
definition offset_nr :: u32 where "offset_nr = 0"
definition offset_arch :: u32 where "offset_arch = 4"
definition SECCOMP_RET_KILL_PROCESS :: u32 where "SECCOMP_RET_KILL_PROCESS = 0x80000000"
definition SECCOMP_RET_ERRNO :: u32 where "SECCOMP_RET_ERRNO = 0x00050000"
definition SECCOMP_RET_ALLOW :: u32 where "SECCOMP_RET_ALLOW = 0x7fff0000"
definition EPERM_number :: u32 where "EPERM_number = 1"

definition BPF_STMT :: "nat \<Rightarrow> u32 \<Rightarrow> sock_filter" where
  "BPF_STMT code operand = \<lparr>bpf_code = code, bpf_jt = 0, bpf_jf = 0, bpf_k = operand\<rparr>"

definition BPF_JUMP :: "nat \<Rightarrow> u32 \<Rightarrow> nat \<Rightarrow> nat \<Rightarrow> sock_filter" where
  "BPF_JUMP code operand jt jf = \<lparr>bpf_code = code, bpf_jt = jt, bpf_jf = jf, bpf_k = operand\<rparr>"

definition network_filter :: "headers \<Rightarrow> sock_filter list" where
  "network_filter h =
     [BPF_STMT BPF_LD_W_ABS offset_arch,
      BPF_JUMP BPF_JMP_JEQ_K (audit_arch h) 1 0,
      BPF_STMT BPF_RET_K SECCOMP_RET_KILL_PROCESS,
      BPF_STMT BPF_LD_W_ABS offset_nr] @
     concat (map (\<lambda>n. [BPF_JUMP BPF_JMP_JEQ_K n 0 1,
                       BPF_STMT BPF_RET_K (SECCOMP_RET_ERRNO OR EPERM_number)])
               (blocked_network_syscalls h)) @
     [BPF_STMT BPF_RET_K SECCOMP_RET_ALLOW]"

definition sandbox_child_install_network_filter ::
    "kernel \<Rightarrow> headers \<Rightarrow> trace \<Rightarrow> errno option \<times> trace" where
  "sandbox_child_install_network_filter k h tr =
     (case os_prctl k PR_SET_NO_NEW_PRIVS tr of
        (Some e, tr) \<Rightarrow> (Some e, tr)
      | (None, tr) \<Rightarrow> os_prctl k (PR_SET_SECCOMP (network_filter h)) tr)"

subsection \<open>Descriptors and environment\<close>

text \<open>The closing loop over \<open>n\<close> descriptors from \<open>d\<close>.\<close>

fun close_from :: "kernel \<Rightarrow> fd \<Rightarrow> nat \<Rightarrow> trace \<Rightarrow> trace" where
  "close_from k d 0 tr = tr"
| "close_from k d (Suc n) tr = (case os_close k d tr of (_, tr) \<Rightarrow> close_from k (d + 1) n tr)"

definition sandbox_child_close_descriptors :: "kernel \<Rightarrow> trace \<Rightarrow> errno option \<times> trace" where
  "sandbox_child_close_descriptors k tr =
     (case os_close_range k tr of
        (None, tr) \<Rightarrow> (None, tr)
      | (Some e, tr) \<Rightarrow>
          if e \<noteq> ENOSYS \<and> e \<noteq> EINVAL then (Some e, tr)
          else
            case os_open_max k tr of (maximum, tr) \<Rightarrow>
              let maximum = (if maximum < 0 \<or> 1048576 < maximum then 1048576 else maximum)
              in (None, close_from k 3 (nat (maximum - 3)) tr))"

definition sandbox_child_environment :: "string list" where
  "sandbox_child_environment =
     [''PATH=/usr/bin:/bin'', ''LANG=C'', ''LC_ALL=C'', ''HOME=/nonexistent'', ''TMPDIR=/tmp'']"

subsection \<open>What the filter decides\<close>

text \<open>
  The kernel runs a filter on the number and the architecture of a system call: the three kinds of
  instructions in use load a word of that data, skip some of the following instructions, or return.
  \<open>None\<close> is a filter that the kernel would refuse.
\<close>

record seccomp_data =
  sd_nr :: u32
  sd_arch :: u32

definition load_word :: "seccomp_data \<Rightarrow> u32 \<Rightarrow> u32 option" where
  "load_word d off =
     (if off = offset_nr then Some (sd_nr d) else if off = offset_arch then Some (sd_arch d) else None)"

function bpf_run :: "sock_filter list \<Rightarrow> seccomp_data \<Rightarrow> u32 \<Rightarrow> u32 option" where
  "bpf_run [] d accumulator = None"
| "bpf_run (i # prog) d accumulator =
     (if bpf_code i = BPF_LD_W_ABS
      then (case load_word d (bpf_k i) of None \<Rightarrow> None | Some v \<Rightarrow> bpf_run prog d v)
      else if bpf_code i = BPF_JMP_JEQ_K
      then bpf_run (drop (if accumulator = bpf_k i then bpf_jt i else bpf_jf i) prog) d accumulator
      else if bpf_code i = BPF_RET_K then Some (bpf_k i)
      else None)"
  by pat_completeness auto
termination
  by (relation "measure (\<lambda>(is, _, _). length is)") auto

lemmas bpf_codes = BPF_LD_W_ABS_def BPF_JMP_JEQ_K_def BPF_RET_K_def

lemma bpf_load [simp]:
  "bpf_run (BPF_STMT BPF_LD_W_ABS off # prog) d a =
    (case load_word d off of None \<Rightarrow> None | Some v \<Rightarrow> bpf_run prog d v)"
  and bpf_jump [simp]:
  "bpf_run (BPF_JUMP BPF_JMP_JEQ_K x jt jf # prog) d a =
    bpf_run (drop (if a = x then jt else jf) prog) d a"
  and bpf_return [simp]: "bpf_run (BPF_STMT BPF_RET_K v # prog) d a = Some v"
  by (simp_all add: BPF_STMT_def BPF_JUMP_def bpf_codes)

declare bpf_run.simps(2) [simp del]

lemma load_word_simps [simp]:
  "load_word d offset_nr = Some (sd_nr d)" "load_word d offset_arch = Some (sd_arch d)"
  by (simp_all add: load_word_def offset_nr_def offset_arch_def)

lemma bpf_blocked:
  "bpf_run (concat (map (\<lambda>n. [BPF_JUMP BPF_JMP_JEQ_K n 0 1, BPF_STMT BPF_RET_K v]) ns) @ prog) d a =
    (if a \<in> set ns then Some v else bpf_run prog d a)"
  by (induction ns) auto

definition filter_decision :: "headers \<Rightarrow> seccomp_data \<Rightarrow> u32" where
  "filter_decision h d =
     (if sd_arch d \<noteq> audit_arch h then SECCOMP_RET_KILL_PROCESS
      else if \<exists>call. call_number h call = Some (sd_nr d) then SECCOMP_RET_ERRNO OR EPERM_number
      else SECCOMP_RET_ALLOW)"

lemma in_map_filter: "y \<in> set (List.map_filter f xs) \<longleftrightarrow> (\<exists>x \<in> set xs. f x = Some y)"
  by (induction xs) (auto split: option.splits)

lemma every_network_call:
  "call \<in> set [NR_socket, NR_socketpair, NR_connect, NR_bind, NR_listen, NR_accept, NR_accept4,
     NR_sendto, NR_sendmsg, NR_sendmmsg, NR_recvfrom, NR_recvmsg, NR_recvmmsg, NR_shutdown,
     NR_setsockopt, NR_getsockopt]"
  by (cases call) simp_all

lemma in_blocked: "n \<in> set (blocked_network_syscalls h) \<longleftrightarrow> (\<exists>call. call_number h call = Some n)"
  unfolding blocked_network_syscalls_def in_map_filter using every_network_call by blast

lemma network_filter_decides: "bpf_run (network_filter h) d a = Some (filter_decision h d)"
  by (simp add: network_filter_def filter_decision_def bpf_blocked [unfolded One_nat_def] in_blocked)

lemma length_blocked: "length (blocked_network_syscalls h) \<le> 16"
  unfolding blocked_network_syscalls_def List.map_filter_def length_map
  by (rule order_trans [OF length_filter_le]) simp

lemma length_network_filter: "length (network_filter h) = 5 + 2 * length (blocked_network_syscalls h)"
proof -
  have "length (concat (map (\<lambda>n. [BPF_JUMP BPF_JMP_JEQ_K n 0 1, BPF_STMT BPF_RET_K v]) ns)) = 2 * length ns"
    for ns v
    by (induction ns) simp_all
  then show ?thesis by (simp add: network_filter_def)
qed

subsection \<open>What the rules allow\<close>

fun rules_added ::
    "fd \<Rightarrow> (string \<times> u64 \<times> bool) list \<Rightarrow> trace \<Rightarrow> trace \<Rightarrow> bool" where
  "rules_added rd [] tr tr' \<longleftrightarrow> tr' = tr"
| "rules_added rd ((path, access, required) # rules) tr tr' \<longleftrightarrow>
     (\<exists>d c. rules_added rd rules
        (tr @ [File (Open O_PATH path (Inr d)), Harden (LandlockAdd rd d access None), File (Close d c)]) tr') \<or>
     \<not> required \<and> (\<exists>e. rules_added rd rules (tr @ [File (Open O_PATH path (Inl e))]) tr')"

lemma add_landlock_rules_added:
  "add_landlock_rules k rd rules tr = (None, tr') \<Longrightarrow> rules_added rd rules tr tr'"
proof (induction rules arbitrary: tr)
  case (Cons rule rules)
  obtain path access required where rule: "rule = (path, access, required)"
    by (metis prod_cases3)
  show ?case
  proof (cases "o_open k tr O_PATH path")
    case (Inl e)
    with Cons.prems rule have "\<not> required"
      and "add_landlock_rules k rd rules (tr @ [File (Open O_PATH path (Inl e))]) = (None, tr')"
      by (auto simp: add_landlock_path_rule_def os_open_def os_call_def split: if_splits)
    with Cons.IH rule show ?thesis by auto
  next
    case (Inr d)
    with Cons.prems rule obtain c
      where "add_landlock_rules k rd rules (tr @ [File (Open O_PATH path (Inr (int d))),
        Harden (LandlockAdd rd (int d) access None), File (Close (int d) c)]) = (None, tr')"
      by (auto simp: add_landlock_path_rule_def os_open_def os_landlock_add_def os_close_def
          os_call_def split: option.splits)
    with Cons.IH rule show ?thesis by auto
  qed
qed simp

text \<open>Only \<^verbatim>\<open>/dev/null\<close> is given more than reading and executing, and nothing that is not handled.\<close>

lemma landlock_rules_access:
  assumes "(path, access, required) \<in> set (landlock_rules target directory)"
  shows "access AND NOT runtime_directory_access \<noteq> 0 \<Longrightarrow>
      path = ''/dev/null'' \<and> access = LANDLOCK_ACCESS_FS_READ_FILE OR LANDLOCK_ACCESS_FS_WRITE_FILE"
    and "access AND NOT (handled_access abi) = 0"
  using assms
  by (auto simp: landlock_rules_def runtime_directory_access_def runtime_file_access_def
      handled_access_def landlock_bits)

lemma handled_access_all: "3 \<le> abi \<Longrightarrow> handled_access abi = mask 15"
  by (simp add: handled_access_def landlock_bits mask_eq_exp_minus_1)

text \<open>
  A child that is confined to the file system it needs: the events of a successful run, from the
  version query to the closed ruleset.
\<close>

definition filesystem_restricted :: "string \<Rightarrow> trace \<Rightarrow> trace \<Rightarrow> bool" where
  "filesystem_restricted target_path tr tr' \<longleftrightarrow>
     (\<exists>resolved directory abi rd t1 t2.
        t1 = tr @ [File (Realpath target_path (Inr resolved)), Harden (LandlockVersion (Inr abi)),
                   Harden (LandlockCreate (handled_access abi) (Inr rd))] \<and>
        1 \<le> abi \<and> rules_added rd (landlock_rules target_path directory) t1 t2 \<and>
        (\<exists>n. strrchr resolved CHR ''/'' = Some n \<and>
           directory = take (if n = 0 then 1 else n) resolved) \<and>
        tr' = t2 @ [Harden (Prctl PR_SET_NO_NEW_PRIVS None), Harden (LandlockRestrict rd None),
                    File (Close rd None)])"

lemma resolve_target_directory_result:
  assumes "resolve_target_directory k target tr = (Inr directory, tr')"
  obtains resolved n where "tr' = tr @ [File (Realpath target (Inr resolved))]"
    and "strrchr resolved CHR ''/'' = Some n" and "directory = take (if n = 0 then 1 else n) resolved"
  using assms
  by (auto simp: resolve_target_directory_def os_realpath_def os_call_def Let_def
      split: sum.splits option.splits if_splits)

lemma restrict_filesystem_result:
  assumes "sandbox_child_restrict_filesystem k target tr = (None, tr')"
  shows "filesystem_restricted target tr tr'"
proof -
  obtain r t where R: "resolve_target_directory k target tr = (r, t)"
    by fastforce
  with assms obtain directory where r: "r = Inr directory"
    by (auto simp: sandbox_child_restrict_filesystem_def split: sum.splits)
  obtain resolved n where dir: "t = tr @ [File (Realpath target (Inr resolved))]"
      "strrchr resolved CHR ''/'' = Some n" "directory = take (if n = 0 then 1 else n) resolved"
    using R [unfolded r] by (rule resolve_target_directory_result)
  obtain abi where abi: "o_landlock_version k t = Inr abi" "1 \<le> abi"
    using assms R r
    by (cases "o_landlock_version k t")
      (auto simp: sandbox_child_restrict_filesystem_def os_landlock_version_def os_call_def split: if_splits)
  let ?t1 = "t @ [Harden (LandlockVersion (Inr abi))]"
  obtain rd where rd: "o_landlock_create k ?t1 (handled_access abi) = Inr rd"
    using assms R r abi
    by (cases "o_landlock_create k ?t1 (handled_access abi)")
      (auto simp: sandbox_child_restrict_filesystem_def os_landlock_version_def os_landlock_create_def
        os_call_def split: if_splits)
  let ?t2 = "?t1 @ [Harden (LandlockCreate (handled_access abi) (Inr (int rd)))]"
  obtain e t3 where A: "add_landlock_rules k (int rd) (landlock_rules target directory) ?t2 = (e, t3)"
    by fastforce
  have rest: "e = None \<and> tr' = t3 @ [Harden (Prctl PR_SET_NO_NEW_PRIVS None),
      Harden (LandlockRestrict (int rd) None), File (Close (int rd) None)]"
    using assms R r abi rd A
    by (auto simp: sandbox_child_restrict_filesystem_def os_landlock_version_def os_landlock_create_def
        os_prctl_def os_landlock_restrict_def os_close_def os_call_def split: if_splits option.splits)
  then have "rules_added (int rd) (landlock_rules target directory) ?t2 t3"
    using A add_landlock_rules_added by simp
  then show ?thesis
    unfolding filesystem_restricted_def using rest dir abi(2)
    by (intro exI [of _ resolved] exI [of _ directory] exI [of _ abi] exI [of _ "int rd"] exI [of _ ?t2]
        exI [of _ t3]) simp
qed

subsection \<open>Properties\<close>

text \<open>
  C36: the network filter decides exactly as meant. Run on any system call, the program that
  \<^verbatim>\<open>sandbox_child_install_network_filter\<close> installs kills the process when the architecture is not
  the one it was built for, answers \<^verbatim>\<open>EPERM\<close> to every network call whose number the headers
  define, and allows everything else. It has at most 37 instructions, so it fits the array of 64.
\<close>

theorem network_filter_exact:
  "bpf_run (network_filter h) d accumulator =
     Some (if sd_arch d \<noteq> audit_arch h then SECCOMP_RET_KILL_PROCESS
       else if \<exists>call. call_number h call = Some (sd_nr d) then SECCOMP_RET_ERRNO OR EPERM_number
       else SECCOMP_RET_ALLOW) \<and>
   length (network_filter h) \<le> 37"
  using network_filter_decides [of h d accumulator] length_blocked [of h]
  by (simp add: filter_decision_def length_network_filter)

text \<open>
  The headers of a 64-bit x86 build, and the finding that the filter overlooks the second numbering
  of system calls that this architecture has: with bit 30 set, the call to \<^verbatim>\<open>socket\<close> is allowed.
\<close>

definition x86_64 :: headers where
  "x86_64 = \<lparr>audit_arch = 0xC000003E, call_number = (\<lambda>call. Some (case call of
     NR_socket \<Rightarrow> 41 | NR_connect \<Rightarrow> 42 | NR_accept \<Rightarrow> 43 | NR_sendto \<Rightarrow> 44 | NR_recvfrom \<Rightarrow> 45
   | NR_sendmsg \<Rightarrow> 46 | NR_recvmsg \<Rightarrow> 47 | NR_shutdown \<Rightarrow> 48 | NR_bind \<Rightarrow> 49 | NR_listen \<Rightarrow> 50
   | NR_socketpair \<Rightarrow> 53 | NR_setsockopt \<Rightarrow> 54 | NR_getsockopt \<Rightarrow> 55 | NR_accept4 \<Rightarrow> 288
   | NR_recvmmsg \<Rightarrow> 299 | NR_sendmmsg \<Rightarrow> 307))\<rparr>"

lemma x32_socket_allowed:
  "bpf_run (network_filter x86_64) \<lparr>sd_nr = 41, sd_arch = 0xC000003E\<rparr> 0 =
     Some (SECCOMP_RET_ERRNO OR EPERM_number) \<and>
   bpf_run (network_filter x86_64) \<lparr>sd_nr = 41 OR push_bit 30 1, sd_arch = 0xC000003E\<rparr> 0 =
     Some SECCOMP_RET_ALLOW"
proof -
  have "\<not> (\<exists>call. call_number x86_64 call = Some (41 OR push_bit 30 1))"
    by (auto simp: x86_64_def split: network_call.splits)
  moreover have "call_number x86_64 NR_socket = Some 41"
    by (simp add: x86_64_def)
  then have "\<exists>call. call_number x86_64 call = Some 41" by blast
  moreover have "audit_arch x86_64 = 0xC000003E"
    by (simp add: x86_64_def)
  ultimately show ?thesis
    unfolding network_filter_decides filter_decision_def by simp
qed

text \<open>
  C37: the target sees read-only files and its own directory. When
  \<^verbatim>\<open>sandbox_child_restrict_filesystem\<close> succeeds, the kernel has accepted a ruleset that handles
  the access rights that the code names for the kernel's Landlock version (from version 3 on the 15
  rights of that version; the later one for \<^verbatim>\<open>ioctl\<close> is not among them), the rules of the table and
  no others (an optional rule may be missing when its path is), then the no-new-privileges flag and the
  restriction, in this order. Each rule stays within the handled rights, and only the one for \<^verbatim>\<open>/dev/null\<close> allows more
  than reading and executing.
\<close>

theorem sandbox_child_restrict_filesystem_confines:
  assumes "sandbox_child_restrict_filesystem k target tr = (None, tr')"
  shows "filesystem_restricted target tr tr' \<and>
    (\<forall>directory abi. \<forall>(path, access, required) \<in> set (landlock_rules target directory).
       access AND NOT (handled_access abi) = 0 \<and>
       (access AND NOT runtime_directory_access \<noteq> 0 \<longrightarrow> path = ''/dev/null'')) \<and>
    (\<forall>abi \<ge> 3. handled_access abi = mask 15)"
  using restrict_filesystem_result [OF assms] landlock_rules_access handled_access_all by fast

lemma demo_restricted: "\<exists>tr'. sandbox_child_restrict_filesystem demo_os ''/bin/true'' [] = (None, tr')"
proof -
  have A: "\<exists>tr'. add_landlock_rules demo_os rd rules tr = (None, tr')" for rd rules tr
    by (induction rules arbitrary: tr)
      (auto simp: add_landlock_path_rule_def os_open_def os_landlock_add_def os_close_def os_call_def
        demo_os_def)
  have "strrchr ''/bin/true'' CHR ''/'' = Some 4"
    by code_simp
  moreover have "fst (add_landlock_rules demo_os rd rules tr) = None" for rd rules tr
    using A [of rd rules tr] by auto
  ultimately show ?thesis
    by (simp add: sandbox_child_restrict_filesystem_def resolve_target_directory_def os_realpath_def
        os_landlock_version_def os_landlock_create_def os_call_def os_prctl_def os_landlock_restrict_def
        os_close_def demo_os_def Let_def split: prod.split option.split) (metis fst_conv option.distinct(1))
qed

lemma sandbox_child_restrict_filesystem_confines_witness:
  "\<exists>tr'. filesystem_restricted ''/bin/true'' [] tr'"
proof -
  obtain tr' where "sandbox_child_restrict_filesystem demo_os ''/bin/true'' [] = (None, tr')"
    using demo_restricted by blast
  from sandbox_child_restrict_filesystem_confines [OF this] show ?thesis by blast
qed

end
