(* ===== verification/Cgroup.thy ===== *)
theory Cgroup
  imports Shared_State
begin

text \<open>
  The first part of \<^verbatim>\<open>Sandbox/security.c\<close>: the dedicated cgroup of the workload, made of a
  directory and a few control files.
\<close>

definition SANDBOX_CGROUP_PATH_CAPACITY :: nat where
  "SANDBOX_CGROUP_PATH_CAPACITY = 4096"

record SandboxCgroup =
  cg_path :: string
  cg_active :: bool

text \<open>\<^verbatim>\<open>snprintf(path, sizeof(path), "%s/%s", ...)\<close>; \<open>None\<close> when it does not fit.\<close>

definition cgroup_file :: "string \<Rightarrow> string \<Rightarrow> string option" where
  "cgroup_file directory name =
     (let path = directory @ ''/'' @ name
      in if SANDBOX_CGROUP_PATH_CAPACITY \<le> length path then None else Some path)"

partial_function (option) write_retry ::
    "kernel \<Rightarrow> fd \<Rightarrow> string \<Rightarrow> trace \<Rightarrow> ((errno + nat) \<times> trace) option" where
  "write_retry k descriptor bs tr =
     (let (written, tr) = os_write k descriptor bs tr in
      if written = Inl EINTR then write_retry k descriptor bs tr else Some (written, tr))"

declare write_retry.simps [code]

text \<open>\<open>None\<close> is the code 0, \<open>Some e\<close> the code -1 with \<^verbatim>\<open>errno\<close> \<open>e\<close>.\<close>

definition write_text_file ::
    "kernel \<Rightarrow> string \<Rightarrow> string \<Rightarrow> string \<Rightarrow> trace \<Rightarrow> (errno option \<times> trace) option" where
  "write_text_file k directory name text tr =
     (case cgroup_file directory name of
        None \<Rightarrow> Some (Some ENAMETOOLONG, tr)
      | Some path \<Rightarrow>
          case os_open k O_WRONLY path tr of
            (Inl e, tr) \<Rightarrow> Some (Some e, tr)
          | (Inr descriptor, tr) \<Rightarrow> do {
              (written, tr) \<leftarrow> write_retry k descriptor text tr;
              if written \<noteq> Inr (length text)
              then
                let saved_errno = (case written of Inl e \<Rightarrow> e | Inr _ \<Rightarrow> EIO);
                    (_, tr) = os_close k descriptor tr
                in Some (Some saved_errno, tr)
              else Some (os_close k descriptor tr)
            })"

definition read_unsigned_file ::
    "kernel \<Rightarrow> string \<Rightarrow> string \<Rightarrow> trace \<Rightarrow> (errno + u64) \<times> trace" where
  "read_unsigned_file k directory name tr =
     (case cgroup_file directory name of
        None \<Rightarrow> (Inl ENAMETOOLONG, tr)
      | Some path \<Rightarrow>
          case os_fopen k path tr of
            (Inl e, tr) \<Rightarrow> (Inl e, tr)
          | (Inr file, tr) \<Rightarrow>
              case fgets (zeros 128) 128 file of
                (None, file) \<Rightarrow>
                  let saved_errno =
                        (if ferror file then (case fail file of Some e \<Rightarrow> e | None \<Rightarrow> EIO) else EIO);
                      (_, tr) = os_fclose k tr
                  in (Inl saved_errno, tr)
              | (Some buffer, file) \<Rightarrow>
                  case os_fclose k tr of
                    (Some e, tr) \<Rightarrow> (Inl e, tr)
                  | (None, tr) \<Rightarrow>
                      case strtoull (cstr buffer) of
                        (parsed, overflow, end_pointer) \<Rightarrow>
                          if overflow \<or> end_pointer = cstr buffer \<or>
                             (end_pointer \<noteq> [] \<and> hd end_pointer \<noteq> LF)
                          then (Inl EINVAL, tr)
                          else (Inr parsed, tr))"

text \<open>
  The loop over the lines of \<^verbatim>\<open>/proc/self/cgroup\<close>: the unified hierarchy is the line that
  starts with \<^verbatim>\<open>0::\<close>.
\<close>

definition unified_directory :: "buffer \<Rightarrow> errno + string" where
  "unified_directory line =
     (let path = drop 3 line;
          path = path[strcspn path [CR, LF] := NUL]
      in
      if path ! 0 \<noteq> CHR ''/'' then Inl EINVAL
      else
        let directory = ''/sys/fs/cgroup'' @ cstr path in
        if SANDBOX_CGROUP_PATH_CAPACITY \<le> length directory then Inl ENAMETOOLONG
        else Inr directory)"

function cgroup_lines :: "stream \<Rightarrow> buffer \<Rightarrow> errno + string" where
  "cgroup_lines f line =
     (case fgets line SANDBOX_CGROUP_PATH_CAPACITY f of
        (None, f) \<Rightarrow> Inl ENOTSUP
      | (Some line, f) \<Rightarrow>
          if take 3 (cstr line) \<noteq> ''0::'' then cgroup_lines f line else unified_directory line)"
  by pat_completeness auto
termination
  by (relation "measure (\<lambda>(f, line). length (rest f))") (auto dest: fgets_rest_less [OF sym])

declare cgroup_lines.simps [simp del]

definition current_cgroup_directory :: "kernel \<Rightarrow> trace \<Rightarrow> (errno + string) \<times> trace" where
  "current_cgroup_directory k tr =
     (case os_fopen k ''/proc/self/cgroup'' tr of
        (Inl e, tr) \<Rightarrow> (Inl e, tr)
      | (Inr file, tr) \<Rightarrow>
          let result = cgroup_lines file (zeros SANDBOX_CGROUP_PATH_CAPACITY);
              (_, tr) = os_fclose k tr
          in (result, tr))"

text \<open>The writes for the memory limit; \<open>True\<close> when the limit is in force.\<close>

definition limit_cgroup :: "kernel \<Rightarrow> string \<Rightarrow> u64 \<Rightarrow> trace \<Rightarrow> (bool \<times> trace) option" where
  "limit_cgroup k path memory_limit_kilobytes tr = do {
     let memory_bytes = memory_limit_kilobytes * 1024;
     (r, tr) \<leftarrow> write_text_file k path ''memory.max'' (show_nat (unat memory_bytes)) tr;
     case r of
       Some e \<Rightarrow>
         let tr = logger_warn k (''cgroup memory controller unavailable: '' @ os_strerror k e) tr;
             (_, tr) = os_rmdir k path tr
         in Some (False, tr)
     | None \<Rightarrow> do {
         (r, tr) \<leftarrow> write_text_file k path ''memory.oom.group'' ''1'' tr;
         let tr = (case r of
             Some e \<Rightarrow>
               logger_warn k (''could not enable cgroup OOM group handling: '' @ os_strerror k e) tr
           | None \<Rightarrow> tr);
         (r, tr) \<leftarrow> write_text_file k path ''memory.swap.max'' ''0'' tr;
         let tr = (case r of
             Some e \<Rightarrow>
               if e \<noteq> ENOENT
               then logger_warn k (''could not disable cgroup swap: '' @ os_strerror k e) tr
               else tr
           | None \<Rightarrow> tr);
         Some (True, tr)
       }
   }"

definition no_cgroup :: SandboxCgroup where
  "no_cgroup = \<lparr>cg_path = [], cg_active = False\<rparr>"

definition own_cgroup_path :: "string \<Rightarrow> pid \<Rightarrow> string" where
  "own_cgroup_path parent self = parent @ ''/st5039cmd-'' @ show_int self"

definition sandbox_cgroup_prepare ::
    "kernel \<Rightarrow> u64 \<Rightarrow> trace \<Rightarrow> (int \<times> SandboxCgroup \<times> trace) option" where
  "sandbox_cgroup_prepare k memory_limit_kilobytes tr =
     (case current_cgroup_directory k tr of
        (Inl e, tr) \<Rightarrow>
          Some (0, no_cgroup, logger_warn k (''cgroup v2 unavailable: '' @ os_strerror k e) tr)
      | (Inr parent, tr) \<Rightarrow>
          let (self, tr) = os_getpid k tr; path = own_cgroup_path parent self in
          if SANDBOX_CGROUP_PATH_CAPACITY \<le> length path
          then Some (0, no_cgroup,
                     logger_warn k ''cgroup path is too long; using process-tree fallback'' tr)
          else case os_mkdir k path 448 tr of
            (Some e, tr) \<Rightarrow>
              Some (0, no_cgroup,
                    logger_warn k (''cgroup delegation unavailable at '' @ parent @ '': '' @
                                   os_strerror k e) tr)
          | (None, tr) \<Rightarrow> do {
              (limited, tr) \<leftarrow>
                (if 0 < memory_limit_kilobytes
                 then limit_cgroup k path memory_limit_kilobytes tr else Some (True, tr));
              if \<not> limited then Some (0, no_cgroup, tr)
              else Some (1, \<lparr>cg_path = path, cg_active = True\<rparr>,
                         logger_info k (''dedicated cgroup v2 prepared: '' @ path) tr)
            })"

definition sandbox_cgroup_attach ::
    "kernel \<Rightarrow> SandboxCgroup \<Rightarrow> pid \<Rightarrow> trace \<Rightarrow> (errno option \<times> trace) option" where
  "sandbox_cgroup_attach k cgroup child_pid tr =
     (if \<not> cg_active cgroup then Some (None, tr)
      else write_text_file k (cg_path cgroup) ''cgroup.procs'' (show_int child_pid) tr)"

text \<open>An inactive cgroup leaves \<^verbatim>\<open>errno\<close> as it was; no caller asks one.\<close>

definition sandbox_cgroup_read_memory_kilobytes ::
    "kernel \<Rightarrow> SandboxCgroup \<Rightarrow> trace \<Rightarrow> (errno + u64) \<times> trace" where
  "sandbox_cgroup_read_memory_kilobytes k cgroup tr =
     (if \<not> cg_active cgroup then (Inl (EOther 0), tr)
      else case read_unsigned_file k (cg_path cgroup) ''memory.current'' tr of
        (Inl e, tr) \<Rightarrow> (Inl e, tr)
      | (Inr memory_bytes, tr) \<Rightarrow>
          if ULONG_MAX < memory_bytes div 1024 then (Inr ULONG_MAX, tr)
          else (Inr (memory_bytes div 1024), tr))"

text \<open>\<^verbatim>\<open>sscanf(line, "populated %d", &populated) == 1\<close>.\<close>

definition scan_populated :: "string \<Rightarrow> bool option" where
  "scan_populated line =
     (case scan_literal ''populated'' line of
        None \<Rightarrow> None
      | Some s \<Rightarrow> map_option (\<lambda>(populated, _). populated \<noteq> 0) (scan_d s))"

function populated_lines :: "stream \<Rightarrow> buffer \<Rightarrow> errno + bool" where
  "populated_lines f line =
     (case fgets line 128 f of
        (None, f) \<Rightarrow> Inl EIO
      | (Some line, f) \<Rightarrow>
          case scan_populated (cstr line) of
            Some populated \<Rightarrow> Inr populated
          | None \<Rightarrow> populated_lines f line)"
  by pat_completeness auto
termination
  by (relation "measure (\<lambda>(f, line). length (rest f))") (auto dest: fgets_rest_less [OF sym])

declare populated_lines.simps [simp del]

definition sandbox_cgroup_is_populated ::
    "kernel \<Rightarrow> SandboxCgroup \<Rightarrow> trace \<Rightarrow> (errno + bool) \<times> trace" where
  "sandbox_cgroup_is_populated k cgroup tr =
     (if \<not> cg_active cgroup then (Inr False, tr)
      else case cgroup_file (cg_path cgroup) ''cgroup.events'' of
        None \<Rightarrow> (Inl ENAMETOOLONG, tr)
      | Some path \<Rightarrow>
          case os_fopen k path tr of
            (Inl e, tr) \<Rightarrow> (Inl e, tr)
          | (Inr file, tr) \<Rightarrow>
              let result = populated_lines file (zeros 128); (_, tr) = os_fclose k tr
              in (result, tr))"

definition sandbox_cgroup_kill ::
    "kernel \<Rightarrow> SandboxCgroup \<Rightarrow> trace \<Rightarrow> (errno option \<times> trace) option" where
  "sandbox_cgroup_kill k cgroup tr =
     (if \<not> cg_active cgroup then Some (None, tr)
      else write_text_file k (cg_path cgroup) ''cgroup.kill'' ''1'' tr)"

definition sandbox_cgroup_destroy ::
    "kernel \<Rightarrow> SandboxCgroup \<Rightarrow> trace \<Rightarrow> int \<times> SandboxCgroup \<times> trace" where
  "sandbox_cgroup_destroy k cgroup tr =
     (if \<not> cg_active cgroup then (0, cgroup, tr)
      else case os_rmdir k (cg_path cgroup) tr of
        (Some e, tr) \<Rightarrow>
          (-1, cgroup,
           logger_warn k (''could not remove sandbox cgroup '' @ cg_path cgroup @ '': '' @
                          os_strerror k e) tr)
      | (None, tr) \<Rightarrow> (0, no_cgroup, tr))"

subsection \<open>Writing\<close>

lemma write_retry_result:
  assumes "write_retry k d bs tr = Some res"
  shows "\<exists>ev. list_all (\<lambda>e. e = File (Write d bs (Inl EINTR))) ev \<and> fst res \<noteq> Inl EINTR \<and>
    snd res = tr @ ev @ [File (Write d bs (fst res))]"
proof (rule write_retry.raw_induct [where P = "\<lambda>k d bs tr res.
      \<exists>ev. list_all (\<lambda>e. e = File (Write d bs (Inl EINTR))) ev \<and> fst res \<noteq> Inl EINTR \<and>
        snd res = tr @ ev @ [File (Write d bs (fst res))]", OF _ assms], goal_cases)
  case (1 f k d bs tr res)
  note IH = 1(1) and eq = 1(2)
  let ?r = "map_sum id (min (length bs)) (o_write k tr d bs)"
  show ?case
  proof (cases "?r = Inl EINTR")
    case True
    with eq have "f k d bs (tr @ [File (Write d bs (Inl EINTR))]) = Some res"
      by (simp add: os_write_def os_call_def)
    from IH [OF this] obtain ev where "list_all (\<lambda>e. e = File (Write d bs (Inl EINTR))) ev"
        "fst res \<noteq> Inl EINTR"
        "snd res = (tr @ [File (Write d bs (Inl EINTR))]) @ ev @ [File (Write d bs (fst res))]"
      by blast
    then show ?thesis
      by (intro exI [of _ "File (Write d bs (Inl EINTR)) # ev"]) simp
  next
    case False
    with eq have "res = (?r, tr @ [File (Write d bs ?r)])"
      by (simp add: os_write_def os_call_def)
    with False show ?thesis
      by (intro exI [of _ "[]"]) simp
  qed
qed

lemma write_retry_returns:
  assumes "finite_retries b k"
  shows "write_retry k d bs tr \<noteq> None"
proof (induction "b - retries tr" arbitrary: tr rule: less_induct)
  case less
  have lt: "o_write k tr d bs = Inl EINTR \<Longrightarrow> retries tr < b"
    using assms unfolding finite_retries_def by blast
  show ?case
  proof (cases "o_write k tr d bs = Inl EINTR")
    case True
    with lt less [of "tr @ [File (Write d bs (Inl EINTR))]"] show ?thesis
      by (subst write_retry.simps) (simp add: os_write_def os_call_def)
  next
    case False
    then have "map_sum id (min (length bs)) (o_write k tr d bs) \<noteq> Inl EINTR"
      by (cases "o_write k tr d bs") simp_all
    then show ?thesis
      by (subst write_retry.simps) (simp add: os_write_def os_call_def)
  qed
qed

text \<open>A file was opened, got the text in one write, and was closed.\<close>

definition wrote_file :: "string \<Rightarrow> string \<Rightarrow> trace \<Rightarrow> trace \<Rightarrow> bool" where
  "wrote_file path text tr tr' \<longleftrightarrow>
     (\<exists>d ev. list_all (\<lambda>e. e = File (Write d text (Inl EINTR))) ev \<and>
        tr' = tr @ File (Open O_WRONLY path (Inr d)) # ev @
          [File (Write d text (Inr (length text))), File (Close d None)])"

lemma write_text_file_result:
  assumes "write_text_file k directory name text tr = Some (r, tr')"
  shows "extends io_event tr tr'"
    and "r = None \<Longrightarrow> \<exists>path. cgroup_file directory name = Some path \<and> wrote_file path text tr tr'"
proof -
  have "extends io_event tr tr' \<and>
    (r = None \<longrightarrow> (\<exists>path. cgroup_file directory name = Some path \<and> wrote_file path text tr tr'))"
  proof (cases "cgroup_file directory name")
    case None
    with assms show ?thesis by (auto simp: write_text_file_def)
  next
    case path: (Some path)
    show ?thesis
    proof (cases "o_open k tr O_WRONLY path")
      case (Inl e)
      with path assms show ?thesis by (auto simp: write_text_file_def os_open_def os_call_def)
    next
      case (Inr d)
      let ?t = "tr @ [File (Open O_WRONLY path (Inr (int d)))]"
      obtain w t where W: "write_retry k (int d) text ?t = Some (w, t)"
        using path Inr assms
        by (auto simp: write_text_file_def os_open_def os_call_def Option.bind_eq_Some_conv)
      obtain ev where ev: "list_all (\<lambda>e. e = File (Write (int d) text (Inl EINTR))) ev"
          "t = ?t @ ev @ [File (Write (int d) text w)]"
        using write_retry_result [OF W] by auto
      have io: "list_all io_event ev"
        using ev(1) by (auto simp: list_all_iff)
      have r: "(if w \<noteq> Inr (length text) then r \<noteq> None else r = o_close k t (int d))"
          "\<exists>c. tr' = t @ [File (Close (int d) c)] \<and> (w = Inr (length text) \<longrightarrow> c = r)"
        using path Inr assms W
        by (auto simp: write_text_file_def os_open_def os_close_def os_call_def split: if_splits)
      then obtain c where c: "tr' = t @ [File (Close (int d) c)]" "w = Inr (length text) \<longrightarrow> c = r"
        by blast
      have "extends io_event tr tr'"
        using c(1) ev(2) io by simp
      moreover have "wrote_file path text tr tr'" if "r = None"
        using that r(1) c ev unfolding wrote_file_def
        by (intro exI [of _ "int d"] exI [of _ ev]) (auto split: if_splits)
      ultimately show ?thesis using path by blast
    qed
  qed
  then show "extends io_event tr tr'"
    and "r = None \<Longrightarrow> \<exists>path. cgroup_file directory name = Some path \<and> wrote_file path text tr tr'"
    by auto
qed

text \<open>
  A file that was not written, with the error: its path is too long, it cannot be opened, the kernel
  fails to take the text or takes only a part of it, or the close fails.
\<close>

definition refused_file :: "string \<Rightarrow> string \<Rightarrow> string \<Rightarrow> errno \<Rightarrow> trace \<Rightarrow> trace \<Rightarrow> bool" where
  "refused_file directory name text e tr tr' \<longleftrightarrow>
     cgroup_file directory name = None \<and> e = ENAMETOOLONG \<and> tr' = tr \<or>
     (\<exists>path. cgroup_file directory name = Some path \<and>
        (tr' = tr @ [File (Open O_WRONLY path (Inl e))] \<or>
         (\<exists>d ev w c. list_all (\<lambda>x. x = File (Write d text (Inl EINTR))) ev \<and>
            tr' = tr @ File (Open O_WRONLY path (Inr d)) # ev @
              [File (Write d text w), File (Close d c)] \<and>
            (w = Inl e \<or> (\<exists>n. w = Inr n \<and> n \<noteq> length text) \<and> e = EIO \<or>
             w = Inr (length text) \<and> c = Some e))))"

lemma write_text_file_refused:
  assumes "write_text_file k directory name text tr = Some (Some e, tr')"
  shows "refused_file directory name text e tr tr'"
proof (cases "cgroup_file directory name")
  case None
  with assms show ?thesis by (simp add: write_text_file_def refused_file_def)
next
  case path: (Some path)
  show ?thesis
  proof (cases "o_open k tr O_WRONLY path")
    case (Inl err)
    with path assms have "tr' = tr @ [File (Open O_WRONLY path (Inl e))]"
      by (auto simp: write_text_file_def os_open_def os_call_def)
    with path show ?thesis by (simp add: refused_file_def)
  next
    case (Inr d)
    let ?t = "tr @ [File (Open O_WRONLY path (Inr (int d)))]"
    obtain w t where W: "write_retry k (int d) text ?t = Some (w, t)"
      using path Inr assms
      by (auto simp: write_text_file_def os_open_def os_call_def Option.bind_eq_Some_conv)
    obtain ev where ev: "list_all (\<lambda>e. e = File (Write (int d) text (Inl EINTR))) ev"
        "t = ?t @ ev @ [File (Write (int d) text w)]"
      using write_retry_result [OF W] by auto
    have "\<exists>c. tr' = t @ [File (Close (int d) c)] \<and>
        (w = Inl e \<or> (\<exists>n. w = Inr n \<and> n \<noteq> length text) \<and> e = EIO \<or> w = Inr (length text) \<and> c = Some e)"
      using path Inr assms W
      by (cases w) (auto simp: write_text_file_def os_open_def os_close_def os_call_def split: if_splits)
    then obtain c where c: "tr' = t @ [File (Close (int d) c)]"
        "w = Inl e \<or> (\<exists>n. w = Inr n \<and> n \<noteq> length text) \<and> e = EIO \<or> w = Inr (length text) \<and> c = Some e"
      by blast
    have "tr' = tr @ File (Open O_WRONLY path (Inr (int d))) # ev @
        [File (Write (int d) text w), File (Close (int d) c)]"
      unfolding c(1) ev(2) by simp
    with path ev(1) c(2) show ?thesis
      unfolding refused_file_def by blast
  qed
qed

text \<open>
  A setting that the kernel may refuse: it is written, or the refusal is on the log, if \<open>warns\<close> asks
  for that.
\<close>

definition set_or_warned ::
    "kernel \<Rightarrow> string \<Rightarrow> string \<Rightarrow> string \<Rightarrow> string \<Rightarrow> (errno \<Rightarrow> bool) \<Rightarrow> trace \<Rightarrow> trace \<Rightarrow> bool" where
  "set_or_warned k directory name text warning warns tr tr' \<longleftrightarrow>
     (\<exists>path. cgroup_file directory name = Some path \<and> wrote_file path text tr tr') \<or>
     (\<exists>e t. refused_file directory name text e tr t \<and>
        tr' = (if warns e then logger_warn k (warning @ os_strerror k e) t else t))"

lemma set_or_warnedI:
  assumes "write_text_file k directory name text tr = Some (r, t)"
    and "tr' = (case r of Some e \<Rightarrow> if warns e then logger_warn k (warning @ os_strerror k e) t else t | None \<Rightarrow> t)"
  shows "set_or_warned k directory name text warning warns tr tr'"
proof (cases r)
  case None
  with write_text_file_result(2) [OF assms(1)] assms(2) show ?thesis
    by (simp add: set_or_warned_def)
next
  case (Some e)
  from write_text_file_refused [OF assms(1) [unfolded Some]] assms(2) [unfolded Some option.case]
  show ?thesis unfolding set_or_warned_def by blast
qed

lemma write_text_file_total:
  "finite_retries b k \<Longrightarrow> total (write_text_file k directory name text tr)"
  unfolding write_text_file_def
  by (intro total_rules totalI [OF write_retry_returns])

text \<open>
  The settings for a limit: the limit itself in bytes is necessary, to kill the group as a whole and
  to forbid swapping are wishes. Or the limit is refused.
\<close>

definition limits_set :: "kernel \<Rightarrow> string \<Rightarrow> u64 \<Rightarrow> trace \<Rightarrow> trace \<Rightarrow> bool" where
  "limits_set k directory limit tr tr' \<longleftrightarrow>
     (\<exists>path t1 t2. cgroup_file directory ''memory.max'' = Some path \<and>
        wrote_file path (show_nat (unat (limit * 1024))) tr t1 \<and>
        set_or_warned k directory ''memory.oom.group'' ''1''
          ''could not enable cgroup OOM group handling: '' (\<lambda>_. True) t1 t2 \<and>
        set_or_warned k directory ''memory.swap.max'' ''0''
          ''could not disable cgroup swap: '' (\<lambda>e. e \<noteq> ENOENT) t2 tr')"

definition limit_refused :: "kernel \<Rightarrow> string \<Rightarrow> u64 \<Rightarrow> trace \<Rightarrow> trace \<Rightarrow> bool" where
  "limit_refused k directory limit tr tr' \<longleftrightarrow>
     (\<exists>e t r. refused_file directory ''memory.max'' (show_nat (unat (limit * 1024))) e tr t \<and>
        tr' = logger_warn k (''cgroup memory controller unavailable: '' @ os_strerror k e) t @
          [File (Rmdir directory r)])"

lemma limit_cgroup_result:
  assumes "limit_cgroup k path limit tr = Some (b, tr')"
  shows "b \<Longrightarrow> extends io_event tr tr'" and "b \<Longrightarrow> limits_set k path limit tr tr'"
    and "\<not> b \<Longrightarrow> limit_refused k path limit tr tr'"
    and "\<not> b \<Longrightarrow> \<exists>r t. tr' = t @ [File (Rmdir path r)] \<and> extends io_event tr t"
proof -
  obtain r1 t1 where 1: "write_text_file k path ''memory.max'' (show_nat (unat (limit * 1024))) tr = Some (r1, t1)"
    using assms by (auto simp: limit_cgroup_def Let_def Option.bind_eq_Some_conv)
  note R1 = write_text_file_result [OF 1]
  have "(b \<longrightarrow> extends io_event tr tr' \<and> limits_set k path limit tr tr') \<and>
    (\<not> b \<longrightarrow> limit_refused k path limit tr tr' \<and> (\<exists>r t. tr' = t @ [File (Rmdir path r)] \<and> extends io_event tr t))"
  proof (cases r1)
    case (Some e)
    let ?t2 = "logger_warn k (''cgroup memory controller unavailable: '' @ os_strerror k e) t1"
    from assms 1 Some have "\<not> b" and tr': "\<exists>r. tr' = ?t2 @ [File (Rmdir path r)]"
      by (auto simp: limit_cgroup_def os_rmdir_def os_call_def Let_def)
    from tr' have "limit_refused k path limit tr tr'"
      using write_text_file_refused [OF 1 [unfolded Some]] unfolding limit_refused_def by blast
    moreover have "extends io_event tr ?t2" using R1(1) by (intro io_log)
    ultimately show ?thesis
      using \<open>\<not> b\<close> tr' by blast
  next
    case None
    obtain r2 t2 where 2: "write_text_file k path ''memory.oom.group'' ''1'' t1 = Some (r2, t2)"
      using assms 1 None by (auto simp: limit_cgroup_def Let_def Option.bind_eq_Some_conv)
    let ?t2 = "case r2 of Some e \<Rightarrow>
        logger_warn k (''could not enable cgroup OOM group handling: '' @ os_strerror k e) t2
      | None \<Rightarrow> t2"
    obtain r3 t3 where 3: "write_text_file k path ''memory.swap.max'' ''0'' ?t2 = Some (r3, t3)"
      using assms 1 None 2 by (auto simp: limit_cgroup_def Let_def Option.bind_eq_Some_conv)
    let ?t3 = "case r3 of Some e \<Rightarrow>
        if e \<noteq> ENOENT then logger_warn k (''could not disable cgroup swap: '' @ os_strerror k e) t3 else t3
      | None \<Rightarrow> t3"
    have b: "b" and t3: "tr' = ?t3"
      using assms 1 None 2 3 by (auto simp: limit_cgroup_def Let_def split: option.splits)
    have "extends io_event t2 ?t2" "extends io_event t3 tr'"
      unfolding t3 by (auto split: option.split intro: io_log)
    then have rest: "extends io_event t1 tr'"
      using write_text_file_result(1) [OF 2] write_text_file_result(1) [OF 3]
      by (blast intro: extends_trans)
    have "set_or_warned k path ''memory.oom.group'' ''1''
        ''could not enable cgroup OOM group handling: '' (\<lambda>_. True) t1 ?t2"
      by (rule set_or_warnedI [OF 2]) (simp split: option.split)
    moreover have "set_or_warned k path ''memory.swap.max'' ''0''
        ''could not disable cgroup swap: '' (\<lambda>e. e \<noteq> ENOENT) ?t2 tr'"
      unfolding t3 by (rule set_or_warnedI [OF 3]) (simp split: option.split)
    ultimately have "limits_set k path limit tr tr'"
      using R1(2) [OF None] unfolding limits_set_def by blast
    then show ?thesis
      using R1(1) b rest by (blast intro: extends_trans)
  qed
  then show "b \<Longrightarrow> extends io_event tr tr'" and "b \<Longrightarrow> limits_set k path limit tr tr'"
    and "\<not> b \<Longrightarrow> limit_refused k path limit tr tr'"
    and "\<not> b \<Longrightarrow> \<exists>r t. tr' = t @ [File (Rmdir path r)] \<and> extends io_event tr t"
    by auto
qed

lemma limit_cgroup_total: "finite_retries b k \<Longrightarrow> total (limit_cgroup k path limit tr)"
  unfolding limit_cgroup_def by (intro total_rules write_text_file_total)

lemma extends_app: "extends P tr t \<Longrightarrow> list_all P ev \<Longrightarrow> extends P tr (t @ ev)"
  by (auto simp: extends_def)

lemma current_cgroup_directory_io:
  "current_cgroup_directory k tr = (r, tr') \<Longrightarrow> extends io_event tr tr'"
  by (auto simp: current_cgroup_directory_def os_fopen_def os_fclose_def os_call_def Let_def
      split: sum.splits prod.splits)

text \<open>
  What is there after \<^verbatim>\<open>sandbox_cgroup_prepare\<close>: an own directory below the cgroup of the controller
  with all settings for the limit, or no active cgroup: no directory was made (an \<open>io_event\<close> makes
  or removes none), or the limit was refused in the new one, and its removal was the last call.
\<close>

definition cgroup_prepared :: "kernel \<Rightarrow> u64 \<Rightarrow> trace \<Rightarrow> int \<times> SandboxCgroup \<times> trace \<Rightarrow> bool" where
  "cgroup_prepared k limit tr res \<longleftrightarrow>
     (case res of (rc, cg, tr') \<Rightarrow>
        rc = 0 \<and> cg = no_cgroup \<and> extends io_event tr tr' \<or>
        (\<exists>parent self t1 t2 t3. current_cgroup_directory k tr = (Inr parent, t1) \<and>
           t2 = t1 @ [Proc (GetPid self), File (Mkdir (own_cgroup_path parent self) 448 None)] \<and>
           (rc = 1 \<and> cg = \<lparr>cg_path = own_cgroup_path parent self, cg_active = True\<rparr> \<and>
              (if 0 < limit then limits_set k (cg_path cg) limit t2 t3 else t3 = t2) \<and>
              tr' = logger_info k (''dedicated cgroup v2 prepared: '' @ cg_path cg) t3 \<or>
            rc = 0 \<and> cg = no_cgroup \<and> 0 < limit \<and>
              limit_refused k (own_cgroup_path parent self) limit t2 tr')))"

text \<open>The same, as far as directories are concerned.\<close>

definition cgroup_made :: "kernel \<Rightarrow> trace \<Rightarrow> SandboxCgroup \<Rightarrow> trace \<Rightarrow> bool" where
  "cgroup_made k tr cg tr' \<longleftrightarrow>
     cg = no_cgroup \<and> extends io_event tr tr' \<or>
     (\<exists>path t1 t2. extends io_event tr t1 \<and> t2 = t1 @ [File (Mkdir path 448 None)] \<and>
        (cg = \<lparr>cg_path = path, cg_active = True\<rparr> \<and> extends io_event t2 tr' \<or>
         cg = no_cgroup \<and> (\<exists>limit t r. limit_refused k path limit t2 tr' \<and>
           extends io_event t2 t \<and> tr' = t @ [File (Rmdir path r)])))"

lemma sandbox_cgroup_prepare_result:
  assumes "sandbox_cgroup_prepare k limit tr = Some (rc, cg, tr')"
  shows "cgroup_prepared k limit tr (rc, cg, tr')" and "cgroup_made k tr cg tr'"
proof -
  obtain r t where C: "current_cgroup_directory k tr = (r, t)"
    by fastforce
  note c = current_cgroup_directory_io [OF C]
  have "cgroup_prepared k limit tr (rc, cg, tr') \<and> cgroup_made k tr cg tr'"
  proof (cases r)
    case (Inl e)
    with assms C c have "rc = 0" "cg = no_cgroup" "extends io_event tr tr'"
      by (auto simp: sandbox_cgroup_prepare_def intro!: io_log)
    then show ?thesis by (simp add: cgroup_prepared_def cgroup_made_def)
  next
    case (Inr parent)
    let ?self = "o_getpid k t"
    let ?t1 = "t @ [Proc (GetPid ?self)]"
    let ?path = "own_cgroup_path parent ?self"
    have t1: "extends io_event tr ?t1"
      using c by (rule extends_snoc) simp
    show ?thesis
    proof (cases "SANDBOX_CGROUP_PATH_CAPACITY \<le> length ?path \<or> o_mkdir k ?t1 ?path \<noteq> None")
      case True
      with assms C Inr c have "rc = 0" "cg = no_cgroup" "extends io_event tr tr'"
        by (auto simp: sandbox_cgroup_prepare_def os_getpid_def os_mkdir_def os_call_def
            Let_def split: if_splits intro!: io_log extends_app)
      then show ?thesis by (simp add: cgroup_prepared_def cgroup_made_def)
    next
      case False
      let ?t2 = "t @ [Proc (GetPid ?self), File (Mkdir ?path 448 None)]"
      let ?limit = "if 0 < limit then limit_cgroup k ?path limit ?t2 else Some (True, ?t2)"
      have "?limit \<bind> (\<lambda>(limited, tr). if \<not> limited then Some (0, no_cgroup, tr)
          else Some (1, \<lparr>cg_path = ?path, cg_active = True\<rparr>,
            logger_info k (''dedicated cgroup v2 prepared: '' @ ?path) tr)) = Some (rc, cg, tr')"
        using assms C Inr False
        by (cases "0 < limit")
          (simp_all add: sandbox_cgroup_prepare_def os_getpid_def os_mkdir_def os_call_def Let_def)
      then obtain x where x: "?limit = Some x"
        and res_x: "(case x of (limited, tr) \<Rightarrow> if \<not> limited then Some (0, no_cgroup, tr)
          else Some (1, \<lparr>cg_path = ?path, cg_active = True\<rparr>,
            logger_info k (''dedicated cgroup v2 prepared: '' @ ?path) tr)) = Some (rc, cg, tr')"
        unfolding Option.bind_eq_Some_conv by blast
      obtain limited t3 where pair: "x = (limited, t3)" by fastforce
      note L = x [unfolded pair]
      have t2: "?t2 = ?t1 @ [File (Mkdir ?path 448 None)]" by simp
      show ?thesis
      proof (cases limited)
        case True
        have eq: "rc = 1" "cg = \<lparr>cg_path = ?path, cg_active = True\<rparr>"
            "tr' = logger_info k (''dedicated cgroup v2 prepared: '' @ ?path) t3"
          using res_x True unfolding pair by simp_all
        have set: "if 0 < limit then limits_set k (cg_path cg) limit ?t2 t3 else t3 = ?t2"
          using L True limit_cgroup_result(2) eq(2) by (auto split: if_splits)
        have io: "extends io_event ?t2 t3"
          using L limit_cgroup_result(1) True by (auto split: if_splits)
        have "cgroup_prepared k limit tr (rc, cg, tr')"
          unfolding cgroup_prepared_def prod.case
          by (intro disjI2 exI [of _ parent] exI [of _ ?self] exI [of _ t] exI [of _ ?t2] exI [of _ t3] conjI
              C [unfolded Inr] refl disjI1 eq(1,2) set) (simp add: eq(2,3))
        moreover have "cgroup_made k tr cg tr'"
          unfolding cgroup_made_def
          by (intro disjI2 exI [of _ ?path] exI [of _ ?t1] exI [of _ ?t2] conjI t1 t2 disjI1 eq(2))
            (use io in \<open>simp only: eq(3) io_log\<close>)
        ultimately show ?thesis by blast
      next
        case False
        have eq: "rc = 0" "cg = no_cgroup" "tr' = t3"
          using res_x False unfolding pair by simp_all
        have L': "limit_cgroup k ?path limit ?t2 = Some (False, t3)" "0 < limit"
          using L False by (auto split: if_splits)
        note l = limit_cgroup_result(3,4) [OF L'(1)]
        have "cgroup_prepared k limit tr (rc, cg, tr')"
          unfolding cgroup_prepared_def prod.case
          by (intro disjI2 exI [of _ parent] exI [of _ ?self] exI [of _ t] exI [of _ ?t2] exI [of _ t3] conjI
              C [unfolded Inr] refl disjI2 eq(1,2) L'(2)) (simp add: eq(3) l(1))
        moreover obtain r t4 where "t3 = t4 @ [File (Rmdir ?path r)]" "extends io_event ?t2 t4"
          using l(2) by auto
        then have "\<exists>l u r. limit_refused k ?path l ?t2 tr' \<and> extends io_event ?t2 u \<and> tr' = u @ [File (Rmdir ?path r)]"
          using l(1) eq(3) by blast
        with t1 t2 eq(2) have "cgroup_made k tr cg tr'"
          unfolding cgroup_made_def by blast
        ultimately show ?thesis by blast
      qed
    qed
  qed
  then show "cgroup_prepared k limit tr (rc, cg, tr')" and "cgroup_made k tr cg tr'" by auto
qed

lemma sandbox_cgroup_prepare_total:
  "finite_retries b k \<Longrightarrow> total (sandbox_cgroup_prepare k limit tr)"
  unfolding sandbox_cgroup_prepare_def by (intro total_rules limit_cgroup_total)

lemma sandbox_cgroup_attach_result:
  "sandbox_cgroup_attach k cg p tr = Some (r, tr') \<Longrightarrow> extends io_event tr tr'"
  by (auto simp: sandbox_cgroup_attach_def dest: write_text_file_result(1) split: if_splits)

lemma sandbox_cgroup_attach_total: "finite_retries b k \<Longrightarrow> total (sandbox_cgroup_attach k cg p tr)"
  unfolding sandbox_cgroup_attach_def by (intro total_rules write_text_file_total)

lemma sandbox_cgroup_kill_result:
  "sandbox_cgroup_kill k cg tr = Some (r, tr') \<Longrightarrow> extends io_event tr tr'"
  by (auto simp: sandbox_cgroup_kill_def dest: write_text_file_result(1) split: if_splits)

lemma sandbox_cgroup_kill_total: "finite_retries b k \<Longrightarrow> total (sandbox_cgroup_kill k cg tr)"
  unfolding sandbox_cgroup_kill_def by (intro total_rules write_text_file_total)

lemma read_unsigned_file_io: "read_unsigned_file k dir name tr = (r, tr') \<Longrightarrow> extends io_event tr tr'"
  by (auto simp: read_unsigned_file_def os_fopen_def os_fclose_def os_call_def Let_def
      split: sum.splits option.splits prod.splits if_splits)

lemma read_memory_io:
  "sandbox_cgroup_read_memory_kilobytes k cg tr = (r, tr') \<Longrightarrow> extends io_event tr tr'"
  by (auto simp: sandbox_cgroup_read_memory_kilobytes_def dest: read_unsigned_file_io
      split: sum.splits prod.splits if_splits)

lemma is_populated_reads: "sandbox_cgroup_is_populated k cg tr = (r, tr') \<Longrightarrow> extends read_event tr tr'"
  by (auto simp: sandbox_cgroup_is_populated_def os_fopen_def os_fclose_def os_call_def Let_def
      split: sum.splits option.splits prod.splits if_splits)

lemma is_populated_io: "sandbox_cgroup_is_populated k cg tr = (r, tr') \<Longrightarrow> extends io_event tr tr'"
  by (erule extends_mono [OF is_populated_reads]) (rule read_event_io)

subsection \<open>Reading back what the kernel writes\<close>

lemma scan_d_show_nat:
  assumes "n < 2 ^ 31"
  shows "scan_d (CHR '' '' # show_nat n @ [LF]) = Some (of_nat n, [LF])"
proof -
  have "scan_integer (CHR '' '' # show_nat n @ [LF]) = Some (False, show_nat n, [LF])"
    by (simp add: scan_integer_blank scan_integer_show_nat isspace_def)
  then show ?thesis
    using assms show_nat_digits [of n] by (simp add: scan_d_def strtol_def Let_def)
qed

lemma of_nat_u32_zero:
  assumes "n < 2 ^ 31"
  shows "(of_nat n :: u32) = 0 \<longleftrightarrow> n = 0"
proof -
  have "take_bit 32 n = n"
    using assms by (simp add: take_bit_nat_eq_self_iff)
  then show ?thesis
    using unat_eq_zero [of "of_nat n :: u32"] by (simp add: unsigned_of_nat)
qed

lemma scan_populated_show:
  assumes "n < 2 ^ 31"
  shows "scan_populated (''populated '' @ show_nat n @ [LF]) = Some (n \<noteq> 0)"
proof -
  have "scan_literal ''populated'' (''populated '' @ show_nat n @ [LF]) = Some (CHR '' '' # show_nat n @ [LF])"
    using scan_literal_append [of "''populated''" "CHR '' '' # show_nat n @ [LF]"] by simp
  then show ?thesis
    using assms by (simp add: scan_populated_def scan_d_show_nat of_nat_u32_zero)
qed

text \<open>A file of complete lines that fit the line buffer of 128 bytes.\<close>

definition short_lines :: "string list \<Rightarrow> bool" where
  "short_lines ls \<longleftrightarrow> (\<forall>l \<in> set ls. LF \<notin> set l \<and> NUL \<notin> set l \<and> length l + 2 \<le> 128)"

definition file_of :: "string list \<Rightarrow> stream" where
  "file_of ls = open_stream (concat (map (\<lambda>l. l @ [LF]) ls)) None"

fun first_populated :: "string list \<Rightarrow> errno + bool" where
  "first_populated [] = Inl EIO"
| "first_populated (l # ls) =
     (case scan_populated (l @ [LF]) of Some b \<Rightarrow> Inr b | None \<Rightarrow> first_populated ls)"

lemma fgets_first_line:
  assumes "short_lines (l # ls)"
  shows "fgets buf 128 (file_of (l # ls)) = (Some (l @ LF # NUL # drop (length l + 2) buf), file_of ls)"
  using fgets_line [of "file_of (l # ls)" l "concat (map (\<lambda>l. l @ [LF]) ls)" 128 buf] assms
  by (simp add: short_lines_def file_of_def)

lemma populated_lines_first:
  "short_lines ls \<Longrightarrow> populated_lines (file_of ls) buf = first_populated ls"
proof (induction ls arbitrary: buf)
  case Nil
  then show ?case
    by (subst populated_lines.simps) (simp add: file_of_def fgets_empty)
next
  case (Cons l ls)
  have "cstr (l @ LF # NUL # junk) = l @ [LF]" for junk
    using cstr_terminated [of "l @ [LF]" junk] Cons.prems by (simp add: short_lines_def)
  moreover have "short_lines ls"
    using Cons.prems by (simp add: short_lines_def)
  ultimately show ?case
    using Cons.IH
    by (subst populated_lines.simps) (simp add: fgets_first_line [OF Cons.prems] split: option.split)
qed

lemma read_unsigned_file_show:
  assumes "cgroup_file dir name = Some path" and "o_fopen k tr path = Inr (open_stream (show_nat n @ LF # more_lines) err)"
    and "n < 2 ^ 64" and "o_fclose k (tr @ [File (Fopen path None)]) = None"
  shows "read_unsigned_file k dir name tr =
    (Inr (of_nat n), tr @ [File (Fopen path None), File (Fclose None)])"
proof -
  have digits: "length (show_nat n) + 2 \<le> 128"
    using length_show_nat [of n 20] assms(3) by simp
  have "LF \<notin> set (show_nat n)" and "NUL \<notin> set (show_nat n)"
    using show_nat_digits [of n] by (auto simp: list_all_iff isdigit_def)
  then have F: "fgets (zeros 128) 128 (open_stream (show_nat n @ LF # more_lines) err) =
      (Some (show_nat n @ LF # NUL # drop (length (show_nat n) + 2) (zeros 128)), open_stream more_lines err)"
    and C: "cstr (show_nat n @ LF # NUL # junk) = show_nat n @ [LF]" for junk
    using digits fgets_line [of "open_stream (show_nat n @ LF # more_lines) err" "show_nat n" more_lines 128 "zeros 128"]
      cstr_terminated [of "show_nat n @ [LF]" junk] by simp_all
  have "strtoull (show_nat n @ [LF]) = (of_nat n, False, [LF])"
    using assms(3) strtoul_show_nat [of n "[LF]"] by (simp add: strtoull_def)
  then show ?thesis
    using assms(1,2,4) by (simp add: read_unsigned_file_def os_fopen_def os_fclose_def os_call_def F C)
qed

subsection \<open>Properties\<close>



text \<open>
  C39: what the kernel reports is what the controller reads. From a \<^verbatim>\<open>memory.current\<close> file with a
  number of bytes it gets that number divided by 1024, whatever the number; and from a
  \<^verbatim>\<open>cgroup.events\<close> file, whatever its other lines, the value of its first \<^verbatim>\<open>populated\<close> line, or
  \<^verbatim>\<open>EIO\<close> when there is none.
\<close>

theorem sandbox_cgroup_reads_back:
  assumes "cg_active cgroup" and "n < 2 ^ 64" and "short_lines ls"
    and "cgroup_file (cg_path cgroup) ''memory.current'' = Some current"
    and "o_fopen k tr current = Inr (open_stream (show_nat n @ LF # more_lines) err)"
    and "o_fclose k (tr @ [File (Fopen current None)]) = None"
    and "cgroup_file (cg_path cgroup) ''cgroup.events'' = Some events"
    and "o_fopen k tr events = Inr (file_of ls)"
  shows "(\<exists>tr'. sandbox_cgroup_read_memory_kilobytes k cgroup tr = (Inr (of_nat (n div 1024)), tr')) \<and>
    (\<exists>tr'. sandbox_cgroup_is_populated k cgroup tr = (first_populated ls, tr')) \<and>
    (\<forall>m < 2 ^ 31. first_populated ((''populated '' @ show_nat m) # ls) = Inr (m \<noteq> 0))"
proof -
  have "of_nat n div 1024 = (of_nat (n div 1024) :: u64)"
    using assms(2) by (intro unsigned_word_eqI [where ?'a = nat]) (simp add: unat_div unat_of_nat_u64)
  then have "sandbox_cgroup_read_memory_kilobytes k cgroup tr =
      (Inr (of_nat (n div 1024)), tr @ [File (Fopen current None), File (Fclose None)])"
    using assms(1) read_unsigned_file_show [OF assms(4,5,2,6)]
    by (simp add: sandbox_cgroup_read_memory_kilobytes_def ULONG_MAX_def)
  moreover have "\<exists>tr'. sandbox_cgroup_is_populated k cgroup tr = (first_populated ls, tr')"
    using assms(1,3,7,8)
    by (simp add: sandbox_cgroup_is_populated_def os_fopen_def os_fclose_def os_call_def Let_def
        populated_lines_first)
  ultimately show ?thesis
    using scan_populated_show by simp
qed

definition demo_cg :: kernel where
  "demo_cg = demo_os
     \<lparr>o_fopen := (\<lambda>_ path.
        if path = ''/c/memory.current'' then Inr (open_stream (show_nat 4096 @ LF # []) None)
        else Inr (file_of [''frozen 0'', ''populated 1'']))\<rparr>"

lemma sandbox_cgroup_reads_back_witness:
  "\<exists>tr'. sandbox_cgroup_read_memory_kilobytes demo_cg \<lparr>cg_path = ''/c'', cg_active = True\<rparr> [] = (Inr 4, tr')"
  using sandbox_cgroup_reads_back [of "\<lparr>cg_path = ''/c'', cg_active = True\<rparr>" 4096
      "[''frozen 0'', ''populated 1'']" "''/c/memory.current''" demo_cg "[]" "[]" None "''/c/cgroup.events''"]
  by (simp add: cgroup_file_def SANDBOX_CGROUP_PATH_CAPACITY_def demo_cg_def demo_os_def short_lines_def)

end
