(* ===== verification/Sandbox_Options.thy ===== *)
theory Sandbox_Options
  imports Sandbox_OS
begin

text \<open>
  The command line in \<^verbatim>\<open>Sandbox/Sandbox.c\<close>: limits as numbers and the target with its arguments.
\<close>

definition DEFAULT_TIMEOUT_SECONDS :: u32 where
  "DEFAULT_TIMEOUT_SECONDS = 5"

definition MAXIMUM_TIMEOUT_SECONDS :: u64 where
  "MAXIMUM_TIMEOUT_SECONDS = 86400"

definition MAXIMUM_MEMORY_LIMIT_KILOBYTES :: u64 where
  "MAXIMUM_MEMORY_LIMIT_KILOBYTES = 4 * 1024 * 1024"

record SandboxOptions =
  target_path :: string
  target_argv :: "string list"
  timeout_seconds :: u32
  memory_limit_kilobytes :: u64

definition print_usage :: "string \<Rightarrow> trace \<Rightarrow> trace" where
  "print_usage program_name tr =
     eprint (''Usage: '' @ program_name @ '' [--timeout SECONDS] [--memory-kb KILOBYTES] '' @
             ''<target-binary> [args...]'') tr"

definition parse_unsigned_limit :: "string \<Rightarrow> u64 \<Rightarrow> u64 option" where
  "parse_unsigned_limit text maximum =
     (case strtoul text of (parsed, overflow, end_pointer) \<Rightarrow>
        if overflow \<or> end_pointer = text \<or> end_pointer \<noteq> [] \<or> parsed = 0 \<or> maximum < parsed
        then None else Some parsed)"

text \<open>The part behind the loop, on the arguments that are left.\<close>

definition take_target :: "string list \<Rightarrow> u32 \<Rightarrow> u64 \<Rightarrow> SandboxOptions option" where
  "take_target arguments timeout memory =
     (case arguments of
        [] \<Rightarrow> None
      | target # _ \<Rightarrow>
          if target = [] then None
          else Some \<lparr>target_path = target, target_argv = arguments, timeout_seconds = timeout,
                     memory_limit_kilobytes = memory\<rparr>)"

fun parse_arguments ::
    "string list \<Rightarrow> u32 \<Rightarrow> u64 \<Rightarrow> trace \<Rightarrow> SandboxOptions option \<times> trace" where
  "parse_arguments [] timeout memory tr = (None, tr)"
| "parse_arguments (argument # arguments) timeout memory tr =
     (if argument = ''--timeout''
      then
        case arguments of
          [] \<Rightarrow> (None, eprint ''Invalid timeout. Use an integer from 1 to 86400 seconds.'' tr)
        | text # arguments \<Rightarrow>
            case parse_unsigned_limit text MAXIMUM_TIMEOUT_SECONDS of
              None \<Rightarrow> (None, eprint ''Invalid timeout. Use an integer from 1 to 86400 seconds.'' tr)
            | Some seconds \<Rightarrow> parse_arguments arguments (ucast seconds) memory tr
      else if argument = ''--memory-kb''
      then
        case arguments of
          [] \<Rightarrow> (None, eprint ''Invalid memory limit. Use an integer from 1 to 4194304 kilobytes.'' tr)
        | text # arguments \<Rightarrow>
            case parse_unsigned_limit text MAXIMUM_MEMORY_LIMIT_KILOBYTES of
              None \<Rightarrow>
                (None, eprint ''Invalid memory limit. Use an integer from 1 to 4194304 kilobytes.'' tr)
            | Some kilobytes \<Rightarrow> parse_arguments arguments timeout kilobytes tr
      else if argument = ''--'' then (take_target arguments timeout memory, tr)
      else if argument \<noteq> [] \<and> hd argument = CHR ''-''
      then (None, eprint (''Unknown sandbox option: '' @ argument) tr)
      else (take_target (argument # arguments) timeout memory, tr))"

definition parse_options :: "string list \<Rightarrow> trace \<Rightarrow> SandboxOptions option \<times> trace" where
  "parse_options argv tr = parse_arguments (drop 1 argv) DEFAULT_TIMEOUT_SECONDS 0 tr"

subsection \<open>Facts\<close>

lemma parse_unsigned_limit_Some:
  assumes "parse_unsigned_limit text m = Some n"
  shows "0 < n \<and> n \<le> m"
proof -
  obtain v overflow t where S: "strtoul text = (v, overflow, t)"
    by (metis prod_cases3)
  with assms have "n = v" "v \<noteq> 0" "\<not> m < v"
    by (auto simp: parse_unsigned_limit_def split: if_splits)
  then show ?thesis by (simp add: word_neq_0_conv not_less)
qed

lemma parse_unsigned_limit_show:
  assumes "0 < n" and "n \<le> unat m"
  shows "parse_unsigned_limit (show_nat n) m = Some (of_nat n)"
proof -
  have n: "n < 2 ^ 64"
    using assms(2) unsigned_less [of m, where ?'a = nat] by simp
  then have u: "unat (of_nat n :: u64) = n"
    by (rule unat_of_nat_u64)
  have "(of_nat n :: u64) \<noteq> 0"
    using assms(1) u unat_eq_zero [of "of_nat n :: u64"] by simp
  moreover have "\<not> m < of_nat n"
    using assms(2) u by (simp add: word_less_nat_alt)
  ultimately show ?thesis
    using strtoul_show_nat [OF n, of "[]"] by (simp add: parse_unsigned_limit_def)
qed

text \<open>A wrapped negative number is accepted.\<close>

lemma parse_unsigned_limit_negative:
  "parse_unsigned_limit ''-18446744073709551615'' MAXIMUM_TIMEOUT_SECONDS = Some 1"
  by (simp add: parse_unsigned_limit_def strtoul_def scan_integer_def isspace_def isdigit_def
      digits_value_def MAXIMUM_TIMEOUT_SECONDS_def)

definition options_ok :: "string list \<Rightarrow> SandboxOptions \<Rightarrow> bool" where
  "options_ok argv opts \<longleftrightarrow>
     1 \<le> unat (timeout_seconds opts) \<and> unat (timeout_seconds opts) \<le> 86400 \<and>
     unat (memory_limit_kilobytes opts) \<le> 4194304 \<and>
     target_path opts \<noteq> [] \<and>
     (\<exists>before. argv = before @ target_argv opts) \<and>
     (\<exists>arguments. target_argv opts = target_path opts # arguments)"

lemma take_target_ok:
  assumes "take_target arguments timeout memory = Some opts"
    and "1 \<le> unat timeout" "unat timeout \<le> 86400" "unat memory \<le> 4194304"
  shows "options_ok (before @ arguments) opts"
  using assms by (auto simp: take_target_def options_ok_def split: list.splits if_splits)

lemma options_ok_longer: "options_ok argv opts \<Longrightarrow> options_ok (before @ argv) opts"
  by (auto simp: options_ok_def)

lemma timeout_in_range:
  assumes "parse_unsigned_limit text MAXIMUM_TIMEOUT_SECONDS = Some n"
  shows "1 \<le> unat (ucast n :: u32)" and "unat (ucast n :: u32) \<le> 86400"
proof -
  have "0 < unat n" "unat n \<le> 86400"
    using parse_unsigned_limit_Some [OF assms]
    by (simp_all add: MAXIMUM_TIMEOUT_SECONDS_def word_less_nat_alt word_le_nat_alt)
  then have "unat (ucast n :: u32) = unat n"
    by (simp add: unsigned_ucast_eq take_bit_nat_eq_self_iff)
  then show "1 \<le> unat (ucast n :: u32)" "unat (ucast n :: u32) \<le> 86400"
    using \<open>0 < unat n\<close> \<open>unat n \<le> 86400\<close> by simp_all
qed

lemma memory_in_range:
  "parse_unsigned_limit w MAXIMUM_MEMORY_LIMIT_KILOBYTES = Some n \<Longrightarrow> unat n \<le> 4194304"
  using parse_unsigned_limit_Some [of w MAXIMUM_MEMORY_LIMIT_KILOBYTES n]
  by (simp add: MAXIMUM_MEMORY_LIMIT_KILOBYTES_def word_le_nat_alt)

lemma parse_arguments_ok:
  assumes "parse_arguments arguments timeout memory tr = (Some opts, tr')"
    and "1 \<le> unat timeout" "unat timeout \<le> 86400" "unat memory \<le> 4194304"
  shows "options_ok arguments opts \<and> tr' = tr"
  using assms
proof (induction arguments arbitrary: timeout memory rule: length_induct)
  case (1 arguments)
  show ?case
  proof (cases arguments)
    case Nil
    with 1 show ?thesis by simp
  next
    case (Cons a more)
    consider (timeout) "a = ''--timeout''" | (memory) "a = ''--memory-kb''"
      | (other) "a \<noteq> ''--timeout''" "a \<noteq> ''--memory-kb''" by blast
    then show ?thesis
    proof cases
      case timeout
      with "1.prems"(1) Cons obtain w later n where L: "more = w # later"
          "parse_unsigned_limit w MAXIMUM_TIMEOUT_SECONDS = Some n"
          "parse_arguments later (ucast n) memory tr = (Some opts, tr')"
        by (auto split: list.splits option.splits)
      then have "options_ok later opts \<and> tr' = tr"
        using "1.IH" [rule_format, of later "ucast n" memory] "1.prems"(4) timeout_in_range [OF L(2)] Cons
        by simp
      with options_ok_longer [of later opts "[a, w]"] Cons L(1) show ?thesis by simp
    next
      case memory
      with "1.prems"(1) Cons obtain w later n where L: "more = w # later"
          "parse_unsigned_limit w MAXIMUM_MEMORY_LIMIT_KILOBYTES = Some n"
          "parse_arguments later timeout n tr = (Some opts, tr')"
        by (auto split: list.splits option.splits)
      then have "options_ok later opts \<and> tr' = tr"
        using "1.IH" [rule_format, of later timeout n] "1.prems"(2,3) memory_in_range [OF L(2)] Cons
        by simp
      with options_ok_longer [of later opts "[a, w]"] Cons L(1) show ?thesis by simp
    next
      case other
      with "1.prems" Cons show ?thesis
        using take_target_ok [of more timeout memory opts "[a]"]
          take_target_ok [of "a # more" timeout memory opts "[]"]
        by (auto split: if_splits)
    qed
  qed
qed

text \<open>The options as a user writes them; a later one overrides an earlier one.\<close>

datatype limit_option = Timeout nat | Memory nat

fun option_words :: "limit_option \<Rightarrow> string list" where
  "option_words (Timeout n) = [''--timeout'', show_nat n]"
| "option_words (Memory n) = [''--memory-kb'', show_nat n]"

fun option_in_range :: "limit_option \<Rightarrow> bool" where
  "option_in_range (Timeout n) \<longleftrightarrow> 1 \<le> n \<and> n \<le> 86400"
| "option_in_range (Memory n) \<longleftrightarrow> 1 \<le> n \<and> n \<le> 4194304"

fun chosen :: "limit_option list \<Rightarrow> u32 \<times> u64 \<Rightarrow> u32 \<times> u64" where
  "chosen [] limits = limits"
| "chosen (Timeout n # os) limits = chosen os (of_nat n, snd limits)"
| "chosen (Memory n # os) limits = chosen os (fst limits, of_nat n)"

lemma ucast_of_nat: "(ucast (of_nat n :: u64) :: u32) = of_nat n"
  by (rule unsigned_word_eqI [where ?'a = nat]) (simp add: unsigned_ucast_eq unsigned_of_nat)

lemma parse_arguments_printed:
  assumes "list_all option_in_range os" and "target \<noteq> []"
    and "separator = [] \<and> hd target \<noteq> CHR ''-'' \<or> separator = [''--'']"
  shows "parse_arguments (concat (map option_words os) @ separator @ target # arguments) timeout memory tr =
    (Some \<lparr>target_path = target, target_argv = target # arguments,
       timeout_seconds = fst (chosen os (timeout, memory)),
       memory_limit_kilobytes = snd (chosen os (timeout, memory))\<rparr>, tr)"
  using assms(1)
proof (induction os arbitrary: timeout memory)
  case Nil
  have "target \<noteq> ''--timeout''" "target \<noteq> ''--memory-kb''" "target \<noteq> ''--''"
    if "hd target \<noteq> CHR ''-''"
    using that by auto
  with assms(2,3) show ?case by (auto simp: take_target_def)
next
  case (Cons opt os)
  show ?case
  proof (cases opt)
    case (Timeout n)
    with Cons have "parse_unsigned_limit (show_nat n) MAXIMUM_TIMEOUT_SECONDS = Some (of_nat n)"
      by (intro parse_unsigned_limit_show) (simp_all add: MAXIMUM_TIMEOUT_SECONDS_def)
    with Timeout Cons show ?thesis by (simp add: ucast_of_nat)
  next
    case (Memory n)
    with Cons have "parse_unsigned_limit (show_nat n) MAXIMUM_MEMORY_LIMIT_KILOBYTES = Some (of_nat n)"
      by (intro parse_unsigned_limit_show) (simp_all add: MAXIMUM_MEMORY_LIMIT_KILOBYTES_def)
    with Memory Cons show ?thesis by simp
  qed
qed

subsection \<open>Properties\<close>

text \<open>
  C40: the command line means what it says. Whatever the arguments, options are accepted only with a
  timeout of 1 to 86400 seconds, a memory limit of at most 4 GB and a non-empty target that is a
  suffix of the arguments, and nothing is printed then. And every command line that is written as
  any sequence of limits in range, an optional separator, a target and its arguments is read back:
  the last limit of each kind counts, the others have their defaults.
\<close>

theorem parse_options_exact:
  "(\<forall>opts tr'. parse_options argv tr = (Some opts, tr') \<longrightarrow> options_ok argv opts \<and> tr' = tr) \<and>
   (\<forall>program os separator target arguments.
      argv = program # concat (map option_words os) @ separator @ target # arguments \<and>
      list_all option_in_range os \<and> target \<noteq> [] \<and>
      (separator = [] \<and> hd target \<noteq> CHR ''-'' \<or> separator = [''--'']) \<longrightarrow>
      parse_options argv tr =
        (Some \<lparr>target_path = target, target_argv = target # arguments,
           timeout_seconds = fst (chosen os (5, 0)), memory_limit_kilobytes = snd (chosen os (5, 0))\<rparr>, tr))"
proof (intro conjI allI impI; (elim conjE)?)
  fix opts tr'
  assume "parse_options argv tr = (Some opts, tr')"
  then have "options_ok (drop 1 argv) opts \<and> tr' = tr"
    by (intro parse_arguments_ok) (auto simp: parse_options_def DEFAULT_TIMEOUT_SECONDS_def)
  then show "options_ok argv opts" and "tr' = tr"
    using options_ok_longer [of "drop 1 argv" opts "take 1 argv"] by simp_all
next
  fix program os separator target arguments
  assume argv: "argv = program # concat (map option_words os) @ separator @ target # arguments"
    and ok: "list_all option_in_range os" "target \<noteq> []"
      "separator = [] \<and> hd target \<noteq> CHR ''-'' \<or> separator = [''--'']"
  from parse_arguments_printed [OF ok] show "parse_options argv tr =
      (Some \<lparr>target_path = target, target_argv = target # arguments,
         timeout_seconds = fst (chosen os (5, 0)), memory_limit_kilobytes = snd (chosen os (5, 0))\<rparr>, tr)"
    by (simp add: parse_options_def argv DEFAULT_TIMEOUT_SECONDS_def)
qed

lemma parse_options_exact_witness:
  "parse_options [''sandbox'', ''--timeout'', ''10'', ''--memory-kb'', ''2048'', ''/bin/true'', ''-x''] [] =
    (Some \<lparr>target_path = ''/bin/true'', target_argv = [''/bin/true'', ''-x''], timeout_seconds = 10,
       memory_limit_kilobytes = 2048\<rparr>, [])"
  using parse_options_exact [of "''sandbox'' # concat (map option_words [Timeout 10, Memory 2048]) @ [] @
      ''/bin/true'' # [''-x'']" "[]", THEN conjunct2, rule_format,
      of "''sandbox''" "[Timeout 10, Memory 2048]" "[]" "''/bin/true''" "[''-x'']"]
  by (simp add: show_nat.simps)

end
