(* ===== verification/Sandbox_Launch.thy ===== *)
theory Sandbox_Launch
  imports Child_Hardening Cgroup Sandbox_Options
begin

text \<open>
  Signals, the launch pipe and the child in \<^verbatim>\<open>Sandbox/Sandbox.c\<close>. The child hardens itself
  step by step and replaces itself by the target, or says why not and exits with 127.
\<close>

fun set_handlers :: "kernel \<Rightarrow> disposition \<Rightarrow> signal list \<Rightarrow> trace \<Rightarrow> errno option \<times> trace" where
  "set_handlers k d [] tr = (None, tr)"
| "set_handlers k d (s # signals) tr =
     (case os_sigaction k s d tr of
        (Some e, tr) \<Rightarrow> (Some e, tr)
      | (None, tr) \<Rightarrow> set_handlers k d signals tr)"

definition install_operator_signal_handlers :: "kernel \<Rightarrow> trace \<Rightarrow> errno option \<times> trace" where
  "install_operator_signal_handlers k tr =
     (case set_handlers k Record_Signal [SIGINT, SIGTERM, SIGHUP] tr of
        (Some e, tr) \<Rightarrow> (Some e, tr)
      | (None, tr) \<Rightarrow> os_sigaction k SIGPIPE Ignore tr)"

definition reset_child_signal_handlers :: "kernel \<Rightarrow> trace \<Rightarrow> errno option \<times> trace" where
  "reset_child_signal_handlers k tr = set_handlers k Default [SIGINT, SIGTERM, SIGHUP, SIGPIPE] tr"

partial_function (option) read_retry ::
    "kernel \<Rightarrow> fd \<Rightarrow> nat \<Rightarrow> trace \<Rightarrow> ((errno + string) \<times> trace) option" where
  "read_retry k descriptor n tr =
     (let (bytes_read, tr) = os_read k descriptor n tr in
      if bytes_read = Inl EINTR then read_retry k descriptor n tr else Some (bytes_read, tr))"

declare read_retry.simps [code]

definition wait_for_launch_permission ::
    "kernel \<Rightarrow> fd \<Rightarrow> trace \<Rightarrow> (errno option \<times> trace) option" where
  "wait_for_launch_permission k descriptor tr = do {
     (bytes_read, tr) \<leftarrow> read_retry k descriptor 1 tr;
     if bytes_read \<noteq> Inr [CHR 0x01]
     then Some (Some (case bytes_read of Inl e \<Rightarrow> e | Inr _ \<Rightarrow> ECANCELED), tr)
     else Some (None, tr)
   }"

text \<open>A write that takes no byte leaves \<^verbatim>\<open>errno\<close> as it was.\<close>

definition release_child :: "kernel \<Rightarrow> fd \<Rightarrow> trace \<Rightarrow> (errno option \<times> trace) option" where
  "release_child k descriptor tr = do {
     (bytes_written, tr) \<leftarrow> write_retry k descriptor [CHR 0x01] tr;
     Some (case bytes_written of
             Inl e \<Rightarrow> Some e
           | Inr n \<Rightarrow> if n = 1 then None else Some (EOther 0), tr)
   }"

definition child_failed :: "kernel \<Rightarrow> string \<Rightarrow> errno \<Rightarrow> trace \<Rightarrow> trace" where
  "child_failed k what e tr =
     os_exit 127 (eprint (''sandbox child: '' @ what @ '': '' @ os_strerror k e) tr)"

text \<open>The part behind the launch permission.\<close>

definition isolate_and_execute :: "kernel \<Rightarrow> headers \<Rightarrow> SandboxOptions \<Rightarrow> trace \<Rightarrow> trace" where
  "isolate_and_execute k h options tr =
     (case sandbox_child_restrict_filesystem k (target_path options) tr of
        (Some e, tr) \<Rightarrow> child_failed k ''Landlock filesystem isolation failed'' e tr
      | (None, tr) \<Rightarrow>
          case sandbox_child_install_network_filter k h tr of
            (Some e, tr) \<Rightarrow> child_failed k ''seccomp network isolation failed'' e tr
          | (None, tr) \<Rightarrow>
              case sandbox_child_close_descriptors k tr of
                (Some e, tr) \<Rightarrow> child_failed k ''descriptor cleanup failed'' e tr
              | (None, tr) \<Rightarrow>
                  case os_execve k (target_path options) (target_argv options)
                         sandbox_child_environment tr of
                    (Some e, tr) \<Rightarrow>
                      child_failed k (''execve('' @ target_path options @ '') failed'') e tr
                  | (None, tr) \<Rightarrow> tr)"

definition run_sandbox_child ::
    "kernel \<Rightarrow> headers \<Rightarrow> SandboxOptions \<Rightarrow> fd \<Rightarrow> fd \<Rightarrow> pid \<Rightarrow> trace \<Rightarrow> trace option" where
  "run_sandbox_child k h options launch_read launch_write expected_parent tr =
     (case os_close k launch_write tr of (_, tr) \<Rightarrow>
      case reset_child_signal_handlers k tr of
        (Some e, tr) \<Rightarrow> Some (child_failed k ''could not reset signal handlers'' e tr)
      | (None, tr) \<Rightarrow>
          case os_setpgid k 0 0 tr of
            (Some e, tr) \<Rightarrow> Some (child_failed k ''setpgid() failed'' e tr)
          | (None, tr) \<Rightarrow>
              case sandbox_child_set_parent_death_signal k expected_parent tr of
                (Some e, tr) \<Rightarrow> Some (child_failed k ''PR_SET_PDEATHSIG failed'' e tr)
              | (None, tr) \<Rightarrow>
                  case sandbox_child_set_resource_limits k (memory_limit_kilobytes options) tr of
                    (Some e, tr) \<Rightarrow> Some (child_failed k ''resource-limit setup failed'' e tr)
                  | (None, tr) \<Rightarrow> do {
                      (permission, tr) \<leftarrow> wait_for_launch_permission k launch_read tr;
                      case permission of
                        Some e \<Rightarrow> Some (child_failed k ''launch cancelled before isolation'' e tr)
                      | None \<Rightarrow>
                          case os_close k launch_read tr of (_, tr) \<Rightarrow>
                            Some (isolate_and_execute k h options tr)
                    })"

subsection \<open>Steps that do not execute anything\<close>

definition no_exec :: "sandbox_event \<Rightarrow> bool" where
  "no_exec e \<longleftrightarrow> (\<forall>path argv envp. e \<noteq> Proc (Execve path argv envp None))"

lemma no_exec_code [code]:
  "no_exec e \<longleftrightarrow>
     (case e of Proc p \<Rightarrow> (case p of Execve path argv envp r \<Rightarrow> r \<noteq> None | _ \<Rightarrow> True) | _ \<Rightarrow> True)"
  by (auto simp: no_exec_def split: sandbox_event.splits process_event.splits)

lemma no_exec_simps [simp]:
  "no_exec (Log l)" "no_exec (File f)" "no_exec (Harden h)" "no_exec (Time t)" "no_exec (Sync s)"
  "no_exec (Proc (SigAction g d r))" "no_exec (Proc (Setpgid p q r))" "no_exec (Proc (GetPpid p))"
  "no_exec (Proc (Exit c))" "no_exec (Proc (Execve path a v (Some e)))"
  by (simp_all add: no_exec_def)

lemma set_handlers_result:
  assumes "set_handlers k d signals tr = (r, tr')"
  shows "extends no_exec tr tr'"
    and "r = None \<Longrightarrow> tr' = tr @ map (\<lambda>s. Proc (SigAction s d None)) signals"
proof -
  have "extends no_exec tr tr' \<and> (r = None \<longrightarrow> tr' = tr @ map (\<lambda>s. Proc (SigAction s d None)) signals)"
    using assms
  proof (induction signals arbitrary: tr)
    case (Cons s signals)
    show ?case
    proof (cases "o_sigaction k tr s")
      case None
      let ?t = "tr @ [Proc (SigAction s d None)]"
      have "set_handlers k d signals ?t = (r, tr')"
        using Cons.prems None by (simp add: os_sigaction_def os_call_def)
      from Cons.IH [OF this] have IH: "extends no_exec ?t tr'"
          "r = None \<longrightarrow> tr' = ?t @ map (\<lambda>s. Proc (SigAction s d None)) signals"
        by blast+
      from IH(1) have "extends no_exec tr tr'"
        by (rule extends_step) simp
      with IH(2) show ?thesis by simp
    next
      case (Some e)
      with Cons.prems have "r = Some e" "tr' = tr @ [Proc (SigAction s d (Some e))]"
        by (auto simp: os_sigaction_def os_call_def)
      then show ?thesis by simp
    qed
  qed simp
  then show "extends no_exec tr tr'"
    and "r = None \<Longrightarrow> tr' = tr @ map (\<lambda>s. Proc (SigAction s d None)) signals"
    by auto
qed

lemma read_retry_result:
  assumes "read_retry k d n tr = Some res"
  shows "\<exists>ev. list_all (\<lambda>e. e = File (Read d (Inl EINTR))) ev \<and> fst res \<noteq> Inl EINTR \<and>
    snd res = tr @ ev @ [File (Read d (fst res))]"
proof (rule read_retry.raw_induct [where P = "\<lambda>k d n tr res.
      \<exists>ev. list_all (\<lambda>e. e = File (Read d (Inl EINTR))) ev \<and> fst res \<noteq> Inl EINTR \<and>
        snd res = tr @ ev @ [File (Read d (fst res))]", OF _ assms], goal_cases)
  case (1 f k d n tr res)
  note IH = 1(1) and eq = 1(2)
  let ?r = "map_sum id (take n) (o_read k tr d n)"
  show ?case
  proof (cases "?r = Inl EINTR")
    case True
    with eq have "f k d n (tr @ [File (Read d (Inl EINTR))]) = Some res"
      by (simp add: os_read_def os_call_def)
    from IH [OF this] obtain ev where "list_all (\<lambda>e. e = File (Read d (Inl EINTR))) ev"
        "fst res \<noteq> Inl EINTR"
        "snd res = (tr @ [File (Read d (Inl EINTR))]) @ ev @ [File (Read d (fst res))]"
      by blast
    then show ?thesis
      by (intro exI [of _ "File (Read d (Inl EINTR)) # ev"]) simp
  next
    case False
    with eq have "res = (?r, tr @ [File (Read d ?r)])"
      by (simp add: os_read_def os_call_def)
    with False show ?thesis
      by (intro exI [of _ "[]"]) simp
  qed
qed

lemma read_retry_total:
  assumes "finite_retries b k"
  shows "total (read_retry k d n tr)"
proof (induction "b - retries tr" arbitrary: tr rule: less_induct)
  case less
  have lt: "o_read k tr d n = Inl EINTR \<Longrightarrow> retries tr < b"
    using assms unfolding finite_retries_def by blast
  show ?case
  proof (cases "o_read k tr d n = Inl EINTR")
    case True
    with lt less [of "tr @ [File (Read d (Inl EINTR))]"] show ?thesis
      by (subst read_retry.simps) (simp add: os_read_def os_call_def)
  next
    case False
    then have "map_sum id (take n) (o_read k tr d n) \<noteq> Inl EINTR"
      by (cases "o_read k tr d n") simp_all
    then show ?thesis
      by (subst read_retry.simps) (simp add: os_read_def os_call_def)
  qed
qed

lemma write_retry_total: "finite_retries b k \<Longrightarrow> total (write_retry k d bs tr)"
  by (intro totalI write_retry_returns)

lemma run_sandbox_child_total:
  "finite_retries b k \<Longrightarrow> total (run_sandbox_child k h options rd wr parent tr)"
  unfolding run_sandbox_child_def wait_for_launch_permission_def
  by (intro total_rules read_retry_total)

lemma release_child_total: "finite_retries b k \<Longrightarrow> total (release_child k d tr)"
  unfolding release_child_def by (intro total_rules write_retry_total)

lemma add_landlock_rules_no_exec:
  "add_landlock_rules k rd rules tr = (r, tr') \<Longrightarrow> extends no_exec tr tr'"
proof (induction rules arbitrary: tr)
  case (Cons rule rules)
  obtain path access required where rule: "rule = (path, access, required)"
    by (metis prod_cases3)
  obtain r1 t1 where R: "add_landlock_path_rule k rd path access required tr = (r1, t1)"
    by fastforce
  have "extends no_exec tr t1"
    using R by (auto simp: add_landlock_path_rule_def os_open_def os_landlock_add_def os_close_def
        os_call_def split: sum.splits if_splits)
  with Cons rule R show ?case
    by (auto split: option.splits intro: extends_trans)
qed simp

lemma restrict_filesystem_no_exec:
  assumes "sandbox_child_restrict_filesystem k target tr = (r, tr')"
  shows "extends no_exec tr tr'"
proof -
  obtain d t1 where R: "resolve_target_directory k target tr = (d, t1)" by fastforce
  have 1: "extends no_exec tr t1"
    using R by (auto simp: resolve_target_directory_def os_realpath_def os_call_def Let_def
        split: sum.splits option.splits if_splits)
  have "extends no_exec t1 tr'"
    using assms R
    by (auto simp: sandbox_child_restrict_filesystem_def os_landlock_version_def os_landlock_create_def
        os_close_def os_prctl_def os_landlock_restrict_def os_call_def
        split: sum.splits prod.splits option.splits if_splits
        dest!: add_landlock_rules_no_exec [THEN extends_step] intro!: extends_app)
  with 1 show ?thesis by (rule extends_trans)
qed

lemma close_from_closes:
  "\<exists>rs. length rs = n \<and> close_from k d n tr =
     tr @ map (\<lambda>(i, r). File (Close (d + int i) r)) (zip [0..<n] rs)"
proof (induction n arbitrary: d tr)
  case (Suc n)
  obtain rs where rs: "length rs = n" "close_from k (d + 1) n (tr @ [File (Close d (o_close k tr d))]) =
      (tr @ [File (Close d (o_close k tr d))]) @ map (\<lambda>(i, r). File (Close (d + 1 + int i) r)) (zip [0..<n] rs)"
    using Suc by blast
  have "map (\<lambda>(i, r). File (Close (d + int i) r)) (zip [0..<Suc n] (r # rs)) =
      File (Close d r) # map (\<lambda>(i, r). File (Close (d + 1 + int i) r)) (zip [0..<n] rs)" for r
    unfolding upt_conv_Cons [OF zero_less_Suc] map_Suc_upt [symmetric]
    by (simp add: zip_map1 case_prod_unfold comp_def add.assoc)
  with rs show ?case
    by (intro exI [of _ "o_close k tr d # rs"]) (simp add: os_close_def os_call_def)
qed simp

lemma close_descriptors_no_exec:
  "sandbox_child_close_descriptors k tr = (r, tr') \<Longrightarrow> extends no_exec tr tr'"
proof -
  have C: "extends no_exec t (close_from k d n t)" for d n t
    using close_from_closes [of n k d t] by (auto simp: list_all_iff)
  assume "sandbox_child_close_descriptors k tr = (r, tr')"
  then show ?thesis
    by (auto simp: sandbox_child_close_descriptors_def os_close_range_def os_open_max_def os_call_def Let_def
        split: option.splits if_splits intro: C [THEN extends_step])
qed

text \<open>All descriptors from 3 on are closed: by one call, or one by one up to the limit of the system.\<close>

definition descriptors_closed :: "trace \<Rightarrow> trace \<Rightarrow> bool" where
  "descriptors_closed tr tr' \<longleftrightarrow>
     tr' = tr @ [Harden (CloseRange None)] \<or>
     (\<exists>e maximum rs. tr' = tr @ [Harden (CloseRange (Some e)), Time (Sysconf maximum)] @
        map (\<lambda>(i, r). File (Close (3 + int i) r)) (zip [0..<length rs] rs) \<and>
        (e = ENOSYS \<or> e = EINVAL) \<and>
        length rs = nat ((if maximum < 0 \<or> 1048576 < maximum then 1048576 else maximum) - 3))"

lemma close_descriptors_result:
  assumes "sandbox_child_close_descriptors k tr = (None, tr')"
  shows "descriptors_closed tr tr'"
proof (cases "o_close_range k tr")
  case None
  with assms show ?thesis
    by (simp add: sandbox_child_close_descriptors_def os_close_range_def os_call_def descriptors_closed_def)
next
  case (Some e)
  let ?t = "tr @ [Harden (CloseRange (Some e))]"
  let ?m = "o_open_max k ?t"
  let ?max = "if ?m < 0 \<or> 1048576 < ?m then 1048576 else ?m"
  have e: "e = ENOSYS \<or> e = EINVAL"
    and tr': "tr' = close_from k 3 (nat (?max - 3)) (?t @ [Time (Sysconf ?m)])"
    using assms Some
    by (auto simp: sandbox_child_close_descriptors_def os_close_range_def os_open_max_def os_call_def Let_def
        split: if_splits)
  obtain rs where "length rs = nat (?max - 3)"
    "tr' = (?t @ [Time (Sysconf ?m)]) @ map (\<lambda>(i, r). File (Close (3 + int i) r)) (zip [0..<length rs] rs)"
    using close_from_closes [of "nat (?max - 3)" k 3 "?t @ [Time (Sysconf ?m)]"] tr' by auto
  with e show ?thesis
    unfolding descriptors_closed_def
    by (intro disjI2 exI [of _ e] exI [of _ ?m] exI [of _ rs]) simp
qed

text \<open>The whole way of a child from its birth to its new program.\<close>

definition child_confined ::
    "headers \<Rightarrow> SandboxOptions \<Rightarrow> fd \<Rightarrow> fd \<Rightarrow> pid \<Rightarrow> trace \<Rightarrow> trace \<Rightarrow> bool" where
  "child_confined h options rd wr parent tr tr' \<longleftrightarrow>
     (\<exists>c1 c2 waits t1 t2 t3.
        t1 = tr @ File (Close wr c1) #
          map (\<lambda>s. Proc (SigAction s Default None)) [SIGINT, SIGTERM, SIGHUP, SIGPIPE] @
          [Proc (Setpgid 0 0 None), Harden (Prctl (PR_SET_PDEATHSIG SIGKILL) None), Proc (GetPpid parent),
           Harden (Setrlimit RLIMIT_CORE 0 None)] @
          (if 0 < memory_limit_kilobytes options
           then [Harden (Setrlimit RLIMIT_AS (memory_limit_kilobytes options * 1024) None)] else []) @
          waits @ [File (Read rd (Inr [CHR 0x01])), File (Close rd c2)] \<and>
        list_all (\<lambda>e. e = File (Read rd (Inl EINTR))) waits \<and>
        filesystem_restricted (target_path options) t1 t2 \<and>
        descriptors_closed
          (t2 @ [Harden (Prctl PR_SET_NO_NEW_PRIVS None),
                 Harden (Prctl (PR_SET_SECCOMP (network_filter h)) None)]) t3 \<and>
        tr' = t3 @ [Proc (Execve (target_path options) (target_argv options)
                       sandbox_child_environment None)])"

text \<open>The other end: no program was executed, and the child exits with 127.\<close>

definition child_gave_up :: "trace \<Rightarrow> trace \<Rightarrow> bool" where
  "child_gave_up tr tr' \<longleftrightarrow> extends no_exec tr tr' \<and> (\<exists>t. tr' = t @ [Proc (Exit 127)])"

lemma child_failed_gave_up:
  "extends no_exec tr t \<Longrightarrow> child_gave_up tr (child_failed k what e t)"
  by (simp add: child_gave_up_def child_failed_def os_exit_def eprint_def extends_app)

lemma isolate_and_execute_result:
  "child_gave_up tr (isolate_and_execute k h options tr) \<or>
   (\<exists>t2 t3. filesystem_restricted (target_path options) tr t2 \<and>
      descriptors_closed
          (t2 @ [Harden (Prctl PR_SET_NO_NEW_PRIVS None),
                 Harden (Prctl (PR_SET_SECCOMP (network_filter h)) None)]) t3 \<and>
      isolate_and_execute k h options tr =
        t3 @ [Proc (Execve (target_path options) (target_argv options) sandbox_child_environment None)])"
proof -
  let ?res = "isolate_and_execute k h options tr"
  obtain r1 t1 where 1: "sandbox_child_restrict_filesystem k (target_path options) tr = (r1, t1)" by fastforce
  note e1 = restrict_filesystem_no_exec [OF 1]
  show ?thesis
  proof (cases r1)
    case (Some e)
    with 1 e1 show ?thesis by (auto simp: isolate_and_execute_def intro: child_failed_gave_up)
  next
    case None
    obtain r2 t2 where 2: "sandbox_child_install_network_filter k h t1 = (r2, t2)" by fastforce
    have e2: "extends no_exec tr t2"
      using 2 e1 by (auto simp: sandbox_child_install_network_filter_def os_prctl_def os_call_def
          split: option.splits intro: extends_app)
    show ?thesis
    proof (cases r2)
      case (Some e)
      with 1 2 None e2 show ?thesis by (auto simp: isolate_and_execute_def intro: child_failed_gave_up)
    next
      case r2: None
      have t2: "t2 = t1 @ [Harden (Prctl PR_SET_NO_NEW_PRIVS None),
          Harden (Prctl (PR_SET_SECCOMP (network_filter h)) None)]"
        using 2 r2 by (auto simp: sandbox_child_install_network_filter_def os_prctl_def os_call_def
          split: option.splits)
      obtain r3 t3 where 3: "sandbox_child_close_descriptors k t2 = (r3, t3)" by fastforce
      have e3: "extends no_exec tr t3"
        using e2 close_descriptors_no_exec [OF 3] by (rule extends_trans)
      show ?thesis
      proof (cases r3)
        case (Some e)
        with 1 2 3 None r2 e3 show ?thesis by (auto simp: isolate_and_execute_def intro: child_failed_gave_up)
      next
        case r3: None
        show ?thesis
        proof (cases "o_execve k t3 (target_path options)")
          case (Some e)
          with 1 2 3 None r2 r3 e3 show ?thesis
            by (auto simp: isolate_and_execute_def os_execve_def os_call_def
                intro!: child_failed_gave_up extends_app)
        next
          case x: None
          with 1 2 3 None r2 r3 have "?res = t3 @
              [Proc (Execve (target_path options) (target_argv options) sandbox_child_environment None)]"
            by (simp add: isolate_and_execute_def os_execve_def os_call_def)
          moreover have "filesystem_restricted (target_path options) tr t1"
            using 1 None by (simp add: restrict_filesystem_result)
          moreover have "descriptors_closed t2 t3"
            using 3 r3 by (simp add: close_descriptors_result)
          ultimately show ?thesis using t2 by blast
        qed
      qed
    qed
  qed
qed

lemma set_resource_limits_result:
  assumes "sandbox_child_set_resource_limits k limit tr = (r, tr')"
  shows "extends no_exec tr tr'"
    and "r = None \<Longrightarrow> tr' = tr @ Harden (Setrlimit RLIMIT_CORE 0 None) #
      (if 0 < limit then [Harden (Setrlimit RLIMIT_AS (limit * 1024) None)] else [])"
  using assms
  by (auto simp: sandbox_child_set_resource_limits_def os_setrlimit_def os_call_def Let_def
      split: option.splits if_splits)

lemma set_parent_death_signal_result:
  assumes "sandbox_child_set_parent_death_signal k parent tr = (r, tr')"
  shows "extends no_exec tr tr'"
    and "r = None \<Longrightarrow> tr' = tr @ [Harden (Prctl (PR_SET_PDEATHSIG SIGKILL) None), Proc (GetPpid parent)]"
  using assms
  by (auto simp: sandbox_child_set_parent_death_signal_def os_prctl_def os_getppid_def os_call_def Let_def
      split: option.splits if_splits)

lemma wait_for_launch_permission_result:
  assumes "wait_for_launch_permission k d tr = Some (r, tr')"
  shows "extends no_exec tr tr'"
    and "r = None \<Longrightarrow> \<exists>waits. list_all (\<lambda>e. e = File (Read d (Inl EINTR))) waits \<and>
      tr' = tr @ waits @ [File (Read d (Inr [CHR 0x01]))]"
proof -
  obtain b t where R: "read_retry k d 1 tr = Some (b, t)"
    and r: "r = None \<Longrightarrow> b = Inr [CHR 0x01]" and t: "tr' = t"
    using assms
    by (auto simp: wait_for_launch_permission_def Option.bind_eq_Some_conv split: if_splits)
  from read_retry_result [OF R] obtain waits where w: "list_all (\<lambda>e. e = File (Read d (Inl EINTR))) waits"
    "tr' = tr @ waits @ [File (Read d b)]"
    unfolding t by auto
  then have "list_all no_exec waits" by (auto simp: list_all_iff)
  with w show "extends no_exec tr tr'" by simp
  from w r show "r = None \<Longrightarrow> \<exists>waits. list_all (\<lambda>e. e = File (Read d (Inl EINTR))) waits \<and>
      tr' = tr @ waits @ [File (Read d (Inr [CHR 0x01]))]" by blast
qed

lemma child_gave_upI:
  "Some (child_failed k what e t) = Some tr' \<Longrightarrow> extends no_exec tr t \<Longrightarrow> child_gave_up tr tr'"
  using child_failed_gave_up by auto

lemma run_sandbox_child_result:
  assumes "run_sandbox_child k h options rd wr parent tr = Some tr'"
  shows "child_confined h options rd wr parent tr tr' \<or> child_gave_up tr tr'"
proof -
  let ?c1 = "o_close k tr wr"
  let ?t0 = "tr @ [File (Close wr ?c1)]"
  obtain r1 t1 where 1: "reset_child_signal_handlers k ?t0 = (r1, t1)" by fastforce
  have e1: "extends no_exec tr t1"
    using set_handlers_result(1) [OF 1 [unfolded reset_child_signal_handlers_def]]
    by (rule extends_step) simp
  show ?thesis
  proof (cases r1)
    case (Some e)
    with assms 1 e1 show ?thesis
      by (auto simp: run_sandbox_child_def os_close_def os_call_def intro: child_failed_gave_up)
  next
    case r1: None
    let ?t1 = "t1 @ [Proc (Setpgid 0 0 (o_setpgid k t1 0 0))]"
    have e1': "extends no_exec tr ?t1" using e1 by (rule extends_snoc) simp
    show ?thesis
    proof (cases "o_setpgid k t1 0 0")
      case (Some e)
      with assms 1 r1 e1' show ?thesis
        by (auto simp: run_sandbox_child_def os_close_def os_setpgid_def os_call_def
            intro!: child_failed_gave_up)
    next
      case g: None
      obtain r2 t2 where 2: "sandbox_child_set_parent_death_signal k parent ?t1 = (r2, t2)" by fastforce
      have e2: "extends no_exec tr t2"
        using e1' set_parent_death_signal_result(1) [OF 2] by (rule extends_trans)
      have rest: "run_sandbox_child k h options rd wr parent tr =
        (case (r2, t2) of
                (Some e, tr) \<Rightarrow> Some (child_failed k ''PR_SET_PDEATHSIG failed'' e tr)
              | (None, tr) \<Rightarrow>
                  case sandbox_child_set_resource_limits k (memory_limit_kilobytes options) tr of
                    (Some e, tr) \<Rightarrow> Some (child_failed k ''resource-limit setup failed'' e tr)
                  | (None, tr) \<Rightarrow> do {
                      (permission, tr) \<leftarrow> wait_for_launch_permission k rd tr;
                      case permission of
                        Some e \<Rightarrow> Some (child_failed k ''launch cancelled before isolation'' e tr)
                      | None \<Rightarrow>
                          case os_close k rd tr of (_, tr) \<Rightarrow>
                            Some (isolate_and_execute k h options tr)
                    })"
        using 1 2 r1 g by (simp add: run_sandbox_child_def os_setpgid_def os_close_def os_call_def)
      show ?thesis
      proof (cases r2)
        case (Some e)
        with assms rest e2 show ?thesis by (auto intro: child_failed_gave_up)
      next
        case r2: None
        obtain r3 t3 where 3: "sandbox_child_set_resource_limits k (memory_limit_kilobytes options) t2 = (r3, t3)"
          by fastforce
        have e3: "extends no_exec tr t3"
          using e2 set_resource_limits_result(1) [OF 3] by (rule extends_trans)
        show ?thesis
        proof (cases r3)
          case (Some e)
          with assms rest r2 3 e3 show ?thesis by (auto intro: child_failed_gave_up)
        next
          case r3: None
          obtain r4 t4 where 4: "wait_for_launch_permission k rd t3 = Some (r4, t4)"
            using assms rest r2 3 r3 by (auto simp: Option.bind_eq_Some_conv)
          have e4: "extends no_exec tr t4"
            using e3 wait_for_launch_permission_result(1) [OF 4] by (rule extends_trans)
          show ?thesis
          proof (cases r4)
            case (Some e)
            with assms rest r2 3 r3 4 e4 show ?thesis by (auto intro: child_failed_gave_up)
          next
            case r4: None
            let ?t5 = "t4 @ [File (Close rd (o_close k t4 rd))]"
            have tr': "tr' = isolate_and_execute k h options ?t5"
              using assms rest r2 3 r3 4 r4 by (simp add: os_close_def os_call_def)
            have e5: "extends no_exec tr ?t5" using e4 by (rule extends_snoc) simp
            show ?thesis
            proof (cases "child_gave_up ?t5 tr'")
              case True
              with e5 show ?thesis unfolding child_gave_up_def by (blast intro: extends_trans)
            next
              case False
              with isolate_and_execute_result [of ?t5 k h options] obtain t6 t7 where 6:
                "filesystem_restricted (target_path options) ?t5 t6"
                "descriptors_closed (t6 @ [Harden (Prctl PR_SET_NO_NEW_PRIVS None),
                 Harden (Prctl (PR_SET_SECCOMP (network_filter h)) None)]) t7"
                "tr' = t7 @ [Proc (Execve (target_path options) (target_argv options)
                   sandbox_child_environment None)]"
                unfolding tr' by blast
              obtain waits where w: "list_all (\<lambda>e. e = File (Read rd (Inl EINTR))) waits"
                "t4 = t3 @ waits @ [File (Read rd (Inr [CHR 0x01]))]"
                using wait_for_launch_permission_result(2) [OF 4 r4] by blast
              have g1: "t2 = t1 @ [Proc (Setpgid 0 0 None),
                  Harden (Prctl (PR_SET_PDEATHSIG SIGKILL) None), Proc (GetPpid parent)]"
                using set_parent_death_signal_result(2) [OF 2 r2] g by simp
              have t5: "?t5 = tr @ File (Close wr ?c1) #
                  map (\<lambda>s. Proc (SigAction s Default None)) [SIGINT, SIGTERM, SIGHUP, SIGPIPE] @
                  [Proc (Setpgid 0 0 None), Harden (Prctl (PR_SET_PDEATHSIG SIGKILL) None), Proc (GetPpid parent),
                   Harden (Setrlimit RLIMIT_CORE 0 None)] @
                  (if 0 < memory_limit_kilobytes options
                   then [Harden (Setrlimit RLIMIT_AS (memory_limit_kilobytes options * 1024) None)] else []) @
                  waits @ [File (Read rd (Inr [CHR 0x01])), File (Close rd (o_close k t4 rd))]"
                unfolding w(2) set_resource_limits_result(2) [OF 3 r3] g1
                  set_handlers_result(2) [OF 1 [unfolded reset_child_signal_handlers_def] r1]
                by simp
              have "child_confined h options rd wr parent tr tr'"
                unfolding child_confined_def
                by (intro exI [of _ ?c1] exI [of _ "o_close k t4 rd"] exI [of _ waits] exI [of _ ?t5]
                    exI [of _ t6] exI [of _ t7] conjI t5 w(1) 6)
              then show ?thesis ..
            qed
          qed
        qed
      qed
    qed
  qed
qed

text \<open>
  C26: the child is hardened before it runs the target. A child either executes nothing and exits with
  127, or it executes the target after, in this order: default signal handlers, a process group of
  its own, death with the controller (which still is its parent), its resource limits, the byte from
  the controller that permits the launch, the Landlock rules, no new privileges and the seccomp filter,
  and no descriptor from 3 on open; and it executes exactly the target with its arguments and the
  minimal environment.
\<close>

theorem child_hardened_before_exec:
  assumes "run_sandbox_child k h options launch_read launch_write expected_parent tr = Some tr'"
  shows "child_confined h options launch_read launch_write expected_parent tr tr' \<or> child_gave_up tr tr'"
  using assms by (rule run_sandbox_child_result)

definition demo_target :: SandboxOptions where
  "demo_target = \<lparr>target_path = ''/bin/true'', target_argv = [''/bin/true''],
     timeout_seconds = 5, memory_limit_kilobytes = 0\<rparr>"

lemma child_hardened_before_exec_witness:
  "\<exists>tr'. run_sandbox_child demo_os x86_64 demo_target 3 4 100 [] = Some tr' \<and>
     child_confined x86_64 demo_target 3 4 100 [] tr'"
proof -
  have "case run_sandbox_child demo_os x86_64 demo_target 3 4 100 [] of
      Some tr' \<Rightarrow> \<not> list_all no_exec tr' | None \<Rightarrow> False"
    by code_simp
  then obtain tr' where R: "run_sandbox_child demo_os x86_64 demo_target 3 4 100 [] = Some tr'"
      and "\<not> list_all no_exec tr'"
    by (auto split: option.splits)
  then have "\<not> child_gave_up [] tr'"
    by (auto simp: child_gave_up_def extends_def)
  with child_hardened_before_exec [OF R] R show ?thesis by blast
qed

end
