(* ===== verification/Process_Tree.thy ===== *)
theory Process_Tree
  imports Sandbox_OS "HOL-Library.Sublist"
begin

text \<open>
  \<^verbatim>\<open>Sandbox/process_tree.c\<close>: reading \<^verbatim>\<open>/proc/<pid>/stat\<close> and \<^verbatim>\<open>/proc/<pid>/status\<close>, the
  growing array of all processes, and the sample of the workload: the processes that descend from
  the leader or were adopted by the supervisor, with their summed ticks and memory.
\<close>

definition PROC_PATH_MAX :: nat where
  "PROC_PATH_MAX = 64"

definition PROC_MEMORY_LINE_MAX :: nat where
  "PROC_MEMORY_LINE_MAX = 256"

definition PROC_STAT_LINE_MAX :: nat where
  "PROC_STAT_LINE_MAX = 4096"

datatype ProcReadResult = PROC_READ_ERROR | PROC_READ_SUCCESS | PROC_READ_PROCESS_GONE

record ProcessTreeProcess =
  pt_pid :: pid
  pt_parent_pid :: pid
  pt_process_group_id :: pid
  pt_state :: char
  pt_user_ticks :: u64
  pt_system_ticks :: u64

record ProcessTreeSample =
  ps_processes :: "ProcessTreeProcess list"
  ps_process_count :: nat
  ps_memory_kilobytes :: u64
  ps_user_ticks :: u64
  ps_system_ticks :: u64
  ps_used_virtual_memory_fallback :: bool

definition zero_process :: ProcessTreeProcess where
  "zero_process = \<lparr>pt_pid = 0, pt_parent_pid = 0, pt_process_group_id = 0, pt_state = NUL,
     pt_user_ticks = 0, pt_system_ticks = 0\<rparr>"

definition zero_sample :: ProcessTreeSample where
  "zero_sample = \<lparr>ps_processes = [], ps_process_count = 0, ps_memory_kilobytes = 0,
     ps_user_ticks = 0, ps_system_ticks = 0, ps_used_virtual_memory_fallback = False\<rparr>"

subsection \<open>Tokens and paths\<close>

text \<open>The path, or \<open>None\<close> when it does not fit.\<close>

definition build_proc_path :: "nat \<Rightarrow> pid \<Rightarrow> string \<Rightarrow> string option" where
  "build_proc_path path_size pid file_name =
     (let path = ''/proc/'' @ show_int pid @ ''/'' @ file_name
      in if length path < path_size then Some path else None)"

definition process_gone_error :: "errno \<Rightarrow> bool" where
  "process_gone_error e \<longleftrightarrow> e = ENOENT \<or> e = ESRCH"

definition parse_pid_token :: "string \<Rightarrow> pid option" where
  "parse_pid_token token =
     (case strtol token of (parsed, overflow, end_pointer) \<Rightarrow>
        if overflow \<or> end_pointer = token \<or> end_pointer \<noteq> [] \<or> parsed < 0 \<or> INT_MAX < parsed
        then None else Some parsed)"

definition parse_unsigned_token :: "string \<Rightarrow> u64 option" where
  "parse_unsigned_token token =
     (case strtoull token of (parsed, overflow, end_pointer) \<Rightarrow>
        if \<not> overflow \<and> end_pointer \<noteq> token \<and> end_pointer = [] then Some parsed else None)"

subsection \<open>The status line of a process\<close>

text \<open>The four \<^verbatim>\<open>found_...\<close> flags: parent, group, user ticks, system ticks.\<close>

record stat_found =
  found_parent :: bool
  found_group :: bool
  found_user_ticks :: bool
  found_system_ticks :: bool

text \<open>The body of the token loop; \<open>None\<close> is the return of \<^verbatim>\<open>PROC_READ_ERROR\<close>.\<close>

definition stat_field ::
    "nat \<Rightarrow> string \<Rightarrow> ProcessTreeProcess \<times> stat_found \<Rightarrow> (ProcessTreeProcess \<times> stat_found) option"
    where
  "stat_field field_number token st =
     (case st of (process, found) \<Rightarrow>
        if field_number = 3
        then if length token \<noteq> 1 then None else Some (process\<lparr>pt_state := hd token\<rparr>, found)
        else if field_number = 4
        then map_option (\<lambda>v. (process\<lparr>pt_parent_pid := v\<rparr>, found\<lparr>found_parent := True\<rparr>))
               (parse_pid_token token)
        else if field_number = 5
        then map_option (\<lambda>v. (process\<lparr>pt_process_group_id := v\<rparr>, found\<lparr>found_group := True\<rparr>))
               (parse_pid_token token)
        else if field_number = 14
        then map_option (\<lambda>v. (process\<lparr>pt_user_ticks := v\<rparr>, found\<lparr>found_user_ticks := True\<rparr>))
               (parse_unsigned_token token)
        else if field_number = 15
        then map_option (\<lambda>v. (process\<lparr>pt_system_ticks := v\<rparr>, found\<lparr>found_system_ticks := True\<rparr>))
               (parse_unsigned_token token)
        else Some (process, found))"

text \<open>The loop from a field number and the text that is left.\<close>

function stat_fields ::
    "nat \<Rightarrow> string \<Rightarrow> ProcessTreeProcess \<times> stat_found \<Rightarrow> (ProcessTreeProcess \<times> stat_found) option"
    where
  "stat_fields field_number s st =
     (case strtok_r s of
        None \<Rightarrow> Some st
      | Some (token, s') \<Rightarrow>
          if 15 < field_number then Some st
          else case stat_field field_number token st of
            None \<Rightarrow> None
          | Some st \<Rightarrow> stat_fields (field_number + 1) s' st)"
  by pat_completeness auto
termination
  by (relation "measure (\<lambda>(n, s, st). 16 - n)") auto

declare stat_fields.simps [simp del]

text \<open>Everything after the line is in the buffer.\<close>

definition parse_stat_line :: "pid \<Rightarrow> buffer \<Rightarrow> ProcReadResult \<times> ProcessTreeProcess" where
  "parse_stat_line pid line =
     (case strrchr line CHR '')'' of
        None \<Rightarrow> (PROC_READ_ERROR, zero_process)
      | Some command_end \<Rightarrow>
          if line ! (command_end + 1) \<noteq> CHR '' '' then (PROC_READ_ERROR, zero_process)
          else
            let process = zero_process\<lparr>pt_pid := pid\<rparr>;
                found = \<lparr>found_parent = False, found_group = False, found_user_ticks = False,
                         found_system_ticks = False\<rparr>
            in case stat_fields 3 (cstr (drop (command_end + 2) line)) (process, found) of
              None \<Rightarrow> (PROC_READ_ERROR, process)
            | Some (process, found) \<Rightarrow>
                (if found_parent found \<and> found_group found \<and> found_user_ticks found \<and>
                    found_system_ticks found
                 then PROC_READ_SUCCESS else PROC_READ_ERROR, process))"

definition read_process_stat ::
    "kernel \<Rightarrow> pid \<Rightarrow> trace \<Rightarrow> ProcReadResult \<times> ProcessTreeProcess \<times> trace" where
  "read_process_stat k pid tr =
     (case build_proc_path PROC_PATH_MAX pid ''stat'' of
        None \<Rightarrow> (PROC_READ_ERROR, zero_process, tr)
      | Some path \<Rightarrow>
          case os_fopen k path tr of
            (Inl e, tr) \<Rightarrow>
              (if process_gone_error e then PROC_READ_PROCESS_GONE else PROC_READ_ERROR,
               zero_process, tr)
          | (Inr stat_file, tr) \<Rightarrow>
              case fgets (zeros PROC_STAT_LINE_MAX) PROC_STAT_LINE_MAX stat_file of
                (None, stat_file) \<Rightarrow>
                  let gone = (case fail stat_file of Some e \<Rightarrow> process_gone_error e | None \<Rightarrow> False);
                      (_, tr) = os_fclose k tr
                  in (if feof stat_file \<or> gone then PROC_READ_PROCESS_GONE else PROC_READ_ERROR,
                      zero_process, tr)
              | (Some line, stat_file) \<Rightarrow>
                  case os_fclose k tr of
                    (Some e, tr) \<Rightarrow> (PROC_READ_ERROR, zero_process, tr)
                  | (None, tr) \<Rightarrow>
                      (case parse_stat_line pid line of (result, process) \<Rightarrow> (result, process, tr)))"

subsection \<open>The memory of a process\<close>

text \<open>\<^verbatim>\<open>sscanf(line, "<name> %lu %7s", ...) == 2\<close> with the unit \<^verbatim>\<open>kB\<close>.\<close>

definition scan_kilobytes :: "string \<Rightarrow> string \<Rightarrow> u64 option" where
  "scan_kilobytes name line =
     (case scan_literal name line of
        None \<Rightarrow> None
      | Some s \<Rightarrow>
          case scan_lu s of
            None \<Rightarrow> None
          | Some (value_read, s) \<Rightarrow>
              case scan_word 7 s of
                None \<Rightarrow> None
              | Some (kind, _) \<Rightarrow> if kind = ''kB'' then Some value_read else None)"

text \<open>
  The loop over the lines: \<open>Inl\<close> is the resident size, \<open>Inr\<close> the last virtual size, if
  any, when the lines are over; with the stream as it is then.
\<close>

function memory_lines :: "stream \<Rightarrow> buffer \<Rightarrow> u64 option \<Rightarrow> (u64 + u64 option) \<times> stream" where
  "memory_lines f line virtual_size =
     (case fgets line PROC_MEMORY_LINE_MAX f of
        (None, f) \<Rightarrow> (Inr virtual_size, f)
      | (Some line, f) \<Rightarrow>
          case scan_kilobytes ''VmRSS:'' (cstr line) of
            Some kilobytes \<Rightarrow> (Inl kilobytes, f)
          | None \<Rightarrow>
              case scan_kilobytes ''VmSize:'' (cstr line) of
                Some kilobytes \<Rightarrow> memory_lines f line (Some kilobytes)
              | None \<Rightarrow> memory_lines f line virtual_size)"
  by pat_completeness auto
termination
  by (relation "measure (\<lambda>(f, line, v). length (rest f))") (auto dest: fgets_rest_less [OF sym])

declare memory_lines.simps [simp del]

text \<open>The result, the memory in kilobytes, whether it is the virtual size, and the trace.\<close>

definition read_process_memory ::
    "kernel \<Rightarrow> pid \<Rightarrow> trace \<Rightarrow> ProcReadResult \<times> u64 \<times> bool \<times> trace" where
  "read_process_memory k pid tr =
     (case build_proc_path PROC_PATH_MAX pid ''status'' of
        None \<Rightarrow> (PROC_READ_ERROR, 0, False, tr)
      | Some path \<Rightarrow>
          case os_fopen k path tr of
            (Inl e, tr) \<Rightarrow>
              (if process_gone_error e then PROC_READ_PROCESS_GONE else PROC_READ_ERROR, 0, False, tr)
          | (Inr status_file, tr) \<Rightarrow>
              case memory_lines status_file (zeros PROC_MEMORY_LINE_MAX) None of
                (Inl kilobytes, status_file) \<Rightarrow>
                  (case os_fclose k tr of
                     (Some e, tr) \<Rightarrow> (PROC_READ_ERROR, kilobytes, False, tr)
                   | (None, tr) \<Rightarrow> (PROC_READ_SUCCESS, kilobytes, False, tr))
              | (Inr virtual_size, status_file) \<Rightarrow>
                  let read_failed = ferror status_file;
                      (closed, tr) = os_fclose k tr
                  in
                  if read_failed \<or> closed \<noteq> None then (PROC_READ_ERROR, 0, False, tr)
                  else case virtual_size of
                    Some kilobytes \<Rightarrow> (PROC_READ_SUCCESS, kilobytes, True, tr)
                  | None \<Rightarrow> (PROC_READ_SUCCESS, 0, False, tr))"

subsection \<open>All processes\<close>

definition directory_name_to_pid :: "string \<Rightarrow> pid option" where
  "directory_name_to_pid name =
     (if name = [] then None
      else if \<not> list_all isdigit name then None
      else parse_pid_token name)"

definition SIZE_MAX :: u64 where
  "SIZE_MAX = - 1"

definition sizeof_process :: u64 where
  "sizeof_process = 32"

text \<open>The code, the array, its capacity and the trace.\<close>

definition append_process ::
    "kernel \<Rightarrow> ProcessTreeProcess list \<Rightarrow> u64 \<Rightarrow> ProcessTreeProcess \<Rightarrow> trace \<Rightarrow>
     int \<times> ProcessTreeProcess list \<times> u64 \<times> trace" where
  "append_process k processes capacity process tr =
     (if length processes < unat capacity then (0, processes @ [process], capacity, tr)
      else
        let new_capacity = (if capacity = 0 then 128 else capacity * 2) in
        if new_capacity < capacity \<or> SIZE_MAX div sizeof_process < new_capacity
        then (-1, processes, capacity, tr)
        else case os_alloc k tr of
          (False, tr) \<Rightarrow> (-1, processes, capacity, tr)
        | (True, tr) \<Rightarrow> (0, processes @ [process], new_capacity, tr))"

text \<open>The loop over the entries of \<^verbatim>\<open>/proc\<close>; \<open>None\<close> is its error return.\<close>

fun collect_entries ::
    "kernel \<Rightarrow> string list \<Rightarrow> ProcessTreeProcess list \<Rightarrow> u64 \<Rightarrow> trace \<Rightarrow>
     ProcessTreeProcess list option \<times> trace" where
  "collect_entries k [] processes capacity tr = (Some processes, tr)"
| "collect_entries k (name # entries) processes capacity tr =
     (case directory_name_to_pid name of
        None \<Rightarrow> collect_entries k entries processes capacity tr
      | Some pid \<Rightarrow>
          case read_process_stat k pid tr of
            (PROC_READ_PROCESS_GONE, _, tr) \<Rightarrow> collect_entries k entries processes capacity tr
          | (PROC_READ_ERROR, _, tr) \<Rightarrow> (None, tr)
          | (PROC_READ_SUCCESS, process, tr) \<Rightarrow>
              case append_process k processes capacity process tr of
                (rc, processes, capacity, tr) \<Rightarrow>
                  if rc \<noteq> 0 then (None, tr)
                  else collect_entries k entries processes capacity tr)"

definition collect_all_processes ::
    "kernel \<Rightarrow> trace \<Rightarrow> int \<times> ProcessTreeProcess list \<times> trace" where
  "collect_all_processes k tr =
     (case os_opendir k tr of
        (Inl e, tr) \<Rightarrow> (-1, [], tr)
      | (Inr proc_directory, tr) \<Rightarrow>
          case collect_entries k (names proc_directory) [] 0 tr of
            (None, tr) \<Rightarrow> (let (_, tr) = os_closedir k tr in (-1, [], tr))
          | (Some processes, tr) \<Rightarrow>
              if dir_fail proc_directory \<noteq> None
              then (let (_, tr) = os_closedir k tr in (-1, [], tr))
              else case os_closedir k tr of
                (Some e, tr) \<Rightarrow> (-1, [], tr)
              | (None, tr) \<Rightarrow> (0, processes, tr))"

subsection \<open>The workload\<close>

fun process_is_selected_parent :: "ProcessTreeProcess list \<Rightarrow> bool list \<Rightarrow> pid \<Rightarrow> bool" where
  "process_is_selected_parent (p # ps) (s # ss) parent_pid =
     (if s \<and> pt_pid p = parent_pid then True else process_is_selected_parent ps ss parent_pid)"
| "process_is_selected_parent _ _ parent_pid = False"

text \<open>The flags after the first loop: the leader, if alive, and the children of the supervisor.\<close>

definition initial_selection :: "ProcessTreeProcess list \<Rightarrow> pid \<Rightarrow> pid \<Rightarrow> bool \<Rightarrow> bool list" where
  "initial_selection processes supervisor_pid leader_pid leader_alive =
     map (\<lambda>p. leader_alive \<and> pt_pid p = leader_pid \<or> pt_parent_pid p = supervisor_pid) processes"

text \<open>One round over all indices: the flags and \<^verbatim>\<open>changed\<close>.\<close>

definition select_step ::
    "ProcessTreeProcess list \<Rightarrow> nat \<Rightarrow> bool list \<times> bool \<Rightarrow> bool list \<times> bool" where
  "select_step processes index st =
     (case st of (selected, changed) \<Rightarrow>
        if \<not> selected ! index \<and>
           process_is_selected_parent processes selected (pt_parent_pid (processes ! index))
        then (selected[index := True], True) else (selected, changed))"

definition select_round :: "ProcessTreeProcess list \<Rightarrow> bool list \<Rightarrow> bool list \<times> bool" where
  "select_round processes selected =
     fold (select_step processes) [0..<length processes] (selected, False)"

lemma select_step_mono:
  assumes "select_step processes i (sel, c) = (sel', c')"
  shows "length sel' = length sel" and "\<forall>j < length sel. sel ! j \<longrightarrow> sel' ! j"
    and "c' \<Longrightarrow> i < length sel \<Longrightarrow> c \<or> (\<exists>j < length sel. \<not> sel ! j \<and> sel' ! j)"
  using assms
  by (auto simp: select_step_def split: if_splits) (metis nth_list_update_eq nth_list_update_neq)+

lemma select_fold_mono:
  assumes "fold (select_step processes) is (sel, c) = (sel', c')" and "\<forall>i \<in> set is. i < length sel"
  shows "length sel' = length sel \<and> (\<forall>j < length sel. sel ! j \<longrightarrow> sel' ! j) \<and>
    (c' \<longrightarrow> c \<or> (\<exists>j < length sel. \<not> sel ! j \<and> sel' ! j))"
  using assms
proof (induction "is" arbitrary: sel c)
  case (Cons i "is")
  obtain s1 c1 where 1: "select_step processes i (sel, c) = (s1, c1)"
    by fastforce
  note S = select_step_mono [OF 1]
  have "length sel' = length s1 \<and> (\<forall>j < length s1. s1 ! j \<longrightarrow> sel' ! j) \<and>
    (c' \<longrightarrow> c1 \<or> (\<exists>j < length s1. \<not> s1 ! j \<and> sel' ! j))"
    using Cons.prems 1 S(1) by (intro Cons.IH) auto
  with S Cons.prems(2) show ?case by (metis list.set_intros(1))
qed simp

lemma unselected_less:
  assumes "length sel' = length sel" and "\<forall>j < length sel. sel ! j \<longrightarrow> sel' ! j"
    and "j < length sel" and "\<not> sel ! j" and "sel' ! j"
  shows "length (filter Not sel') < length (filter Not sel)"
  using assms
proof (induction sel arbitrary: sel' j)
  case (Cons s sel)
  obtain s' t where sel': "sel' = s' # t"
    using Cons.prems(1) by (cases sel') auto
  have tl: "length t = length sel" "\<forall>j < length sel. sel ! j \<longrightarrow> t ! j" and hd: "s \<longrightarrow> s'"
    using Cons.prems(1,2) by (auto simp: sel' All_less_Suc2)
  have le: "length (filter Not t) \<le> length (filter Not sel)"
    using tl by (induction t sel rule: list_induct2) (auto simp: All_less_Suc2)
  show ?case
  proof (cases j)
    case 0
    with Cons.prems le show ?thesis by (simp add: sel')
  next
    case (Suc i)
    with Cons.IH [OF tl, of i] Cons.prems hd show ?thesis by (auto simp: sel')
  qed
qed simp

text \<open>
  \<^verbatim>\<open>do ... while (changed)\<close>. The flags have the length of the array, as \<^verbatim>\<open>calloc\<close>
  made them; on other arguments, which do not occur, the function returns at once.
\<close>

function select_closure :: "ProcessTreeProcess list \<Rightarrow> bool list \<Rightarrow> bool list" where
  "select_closure processes selected =
     (if length selected \<noteq> length processes then selected
      else case select_round processes selected of
        (selected, changed) \<Rightarrow> if changed then select_closure processes selected else selected)"
  by pat_completeness auto
termination
proof (relation "measure (\<lambda>(processes, selected). length (filter Not selected))", simp)
  fix processes selected selected' changed
  assume len: "\<not> length selected \<noteq> length processes"
    and r: "(selected', changed) = select_round processes selected" and c: "changed"
  have "fold (select_step processes) [0..<length processes] (selected, False) = (selected', changed)"
    using r by (simp add: select_round_def)
  from select_fold_mono [OF this] len c obtain j where "length selected' = length selected"
      "\<forall>j < length selected. selected ! j \<longrightarrow> selected' ! j" "j < length selected"
      "\<not> selected ! j" "selected' ! j"
    by auto
  then show "((processes, selected'), processes, selected)
      \<in> measure (\<lambda>(processes, selected). length (filter Not selected))"
    using unselected_less by simp
qed

declare select_closure.simps [simp del]


text \<open>
  The last loop: for each selected process its entry, its ticks and its memory are added to the
  sample. \<open>None\<close> is the error return.
\<close>

definition add_memory :: "ProcReadResult \<Rightarrow> u64 \<Rightarrow> bool \<Rightarrow> ProcessTreeSample \<Rightarrow> ProcessTreeSample" where
  "add_memory result process_memory used_virtual sample =
     (if result = PROC_READ_SUCCESS
      then
        let sample = sample\<lparr>ps_memory_kilobytes :=
              saturating_add (ps_memory_kilobytes sample) process_memory\<rparr>
        in if used_virtual then sample\<lparr>ps_used_virtual_memory_fallback := True\<rparr> else sample
      else sample)"

definition add_process :: "ProcessTreeProcess \<Rightarrow> ProcessTreeSample \<Rightarrow> ProcessTreeSample" where
  "add_process process sample =
     sample\<lparr>ps_processes := ps_processes sample @ [process],
            ps_process_count := ps_process_count sample + 1,
            ps_user_ticks := saturating_add (ps_user_ticks sample) (pt_user_ticks process),
            ps_system_ticks := saturating_add (ps_system_ticks sample) (pt_system_ticks process)\<rparr>"

fun accumulate ::
    "kernel \<Rightarrow> ProcessTreeProcess list \<Rightarrow> bool list \<Rightarrow> ProcessTreeSample \<Rightarrow> trace \<Rightarrow>
     ProcessTreeSample option \<times> trace" where
  "accumulate k (process # processes) (s # selected) sample tr =
     (if \<not> s then accumulate k processes selected sample tr
      else
        let sample = add_process process sample in
        case read_process_memory k (pt_pid process) tr of
          (result, process_memory, used_virtual, tr) \<Rightarrow>
            if result = PROC_READ_ERROR then (None, tr)
            else accumulate k processes selected
                   (add_memory result process_memory used_virtual sample) tr)"
| "accumulate k _ _ sample tr = (Some sample, tr)"

definition process_tree_sample_destroy :: "ProcessTreeSample option \<Rightarrow> ProcessTreeSample option" where
  "process_tree_sample_destroy sample = map_option (\<lambda>_. zero_sample) sample"

definition process_tree_sample ::
    "kernel \<Rightarrow> pid \<Rightarrow> pid \<Rightarrow> bool \<Rightarrow> trace \<Rightarrow> int \<times> ProcessTreeSample \<times> trace" where
  "process_tree_sample k supervisor_pid leader_pid leader_alive tr =
     (if supervisor_pid \<le> 0 then (-1, zero_sample, tr)
      else case collect_all_processes k tr of
        (rc, all_processes, tr) \<Rightarrow>
          if rc \<noteq> 0 then (-1, zero_sample, tr)
          else case os_alloc k tr of
            (False, tr) \<Rightarrow> (-1, zero_sample, tr)
          | (True, tr) \<Rightarrow>
              let selected = select_closure all_processes
                    (initial_selection all_processes supervisor_pid leader_pid leader_alive);
                  selected_count = length (filter id selected);
                  (enough, tr) = (if 0 < selected_count then os_alloc k tr else (True, tr))
              in
              if \<not> enough then (-1, zero_sample, tr)
              else case accumulate k all_processes selected zero_sample tr of
                (None, tr) \<Rightarrow> (-1, zero_sample, tr)
              | (Some sample, tr) \<Rightarrow> (0, sample, tr))"

subsection \<open>The selection is the workload\<close>

text \<open>
  The workload among some processes: the living leader, the children of the supervisor (original or
  adopted), and whatever has a parent in the workload.
\<close>

inductive in_workload ::
    "ProcessTreeProcess list \<Rightarrow> pid \<Rightarrow> pid \<Rightarrow> bool \<Rightarrow> ProcessTreeProcess \<Rightarrow> bool"
    for processes supervisor_pid leader_pid leader_alive where
  leader: "p \<in> set processes \<Longrightarrow> leader_alive \<Longrightarrow> pt_pid p = leader_pid \<Longrightarrow>
    in_workload processes supervisor_pid leader_pid leader_alive p"
| adopted: "p \<in> set processes \<Longrightarrow> pt_parent_pid p = supervisor_pid \<Longrightarrow>
    in_workload processes supervisor_pid leader_pid leader_alive p"
| descendant: "in_workload processes supervisor_pid leader_pid leader_alive q \<Longrightarrow>
    p \<in> set processes \<Longrightarrow> pt_parent_pid p = pt_pid q \<Longrightarrow>
    in_workload processes supervisor_pid leader_pid leader_alive p"

inductive_cases in_workloadE: "in_workload ps s l a p"

lemma in_workload_in: "in_workload ps s l a p \<Longrightarrow> p \<in> set ps"
  by (auto elim: in_workloadE)

lemma process_is_selected_parent_iff:
  "length sel = length ps \<Longrightarrow> process_is_selected_parent ps sel x \<longleftrightarrow>
     (\<exists>i < length ps. sel ! i \<and> pt_pid (ps ! i) = x)"
proof (induction ps sel x rule: process_is_selected_parent.induct)
  case (1 p ps s ss x)
  then show ?case by (auto simp: Ex_less_Suc2)
qed simp_all

definition sound_selection ::
    "(ProcessTreeProcess \<Rightarrow> bool) \<Rightarrow> ProcessTreeProcess list \<Rightarrow> bool list \<Rightarrow> bool" where
  "sound_selection W ps sel \<longleftrightarrow> length sel = length ps \<and> (\<forall>i < length ps. sel ! i \<longrightarrow> W (ps ! i))"

definition closed_selection :: "ProcessTreeProcess list \<Rightarrow> bool list \<Rightarrow> bool" where
  "closed_selection ps sel \<longleftrightarrow>
     (\<forall>i < length ps. process_is_selected_parent ps sel (pt_parent_pid (ps ! i)) \<longrightarrow> sel ! i)"

lemma select_step_sound:
  assumes "sound_selection (in_workload ps s l a) ps sel" and "i < length ps"
    and "select_step ps i (sel, c) = (sel', c')"
  shows "sound_selection (in_workload ps s l a) ps sel'"
proof -
  have len: "length sel = length ps"
    using assms(1) by (simp add: sound_selection_def)
  have "in_workload ps s l a (ps ! i)" if sel: "process_is_selected_parent ps sel (pt_parent_pid (ps ! i))"
  proof -
    obtain j where "j < length ps" "sel ! j" "pt_pid (ps ! j) = pt_parent_pid (ps ! i)"
      using sel len by (auto simp: process_is_selected_parent_iff)
    then have "in_workload ps s l a (ps ! j)" "pt_parent_pid (ps ! i) = pt_pid (ps ! j)"
      using assms(1) by (auto simp: sound_selection_def)
    then show ?thesis
      using assms(2) by (blast intro: descendant nth_mem)
  qed
  with assms show ?thesis
    by (auto simp: select_step_def sound_selection_def nth_list_update split: if_splits)
qed

lemma select_fold_sound:
  assumes "fold (select_step ps) is (sel, c) = (sel', c')" and "\<forall>i \<in> set is. i < length ps"
    and "sound_selection (in_workload ps s l a) ps sel"
  shows "sound_selection (in_workload ps s l a) ps sel'"
  using assms
proof (induction "is" arbitrary: sel c)
  case (Cons i "is")
  obtain s1 c1 where 1: "select_step ps i (sel, c) = (s1, c1)"
    by fastforce
  have "sound_selection (in_workload ps s l a) ps s1"
    using Cons.prems 1 by (intro select_step_sound [OF _ _ 1]) auto
  with Cons 1 show ?case by auto
qed simp

lemma select_fold_unchanged:
  assumes "fold (select_step ps) is (sel, c) = (sel', False)"
  shows "sel' = sel \<and> \<not> c \<and>
    (\<forall>i \<in> set is. process_is_selected_parent ps sel (pt_parent_pid (ps ! i)) \<longrightarrow> sel ! i)"
  using assms
proof (induction "is" arbitrary: sel c)
  case (Cons i "is")
  obtain s1 c1 where 1: "select_step ps i (sel, c) = (s1, c1)"
    by fastforce
  have "fold (select_step ps) is (s1, c1) = (sel', False)"
    using Cons.prems 1 by simp
  from Cons.IH [OF this] have "sel' = s1 \<and> \<not> c1 \<and>
    (\<forall>i \<in> set is. process_is_selected_parent ps s1 (pt_parent_pid (ps ! i)) \<longrightarrow> s1 ! i)" .
  with 1 show ?case
    by (auto simp: select_step_def split: if_splits)
qed simp

lemma select_closure_sound:
  "sound_selection (in_workload ps s l a) ps sel \<Longrightarrow>
   sound_selection (in_workload ps s l a) ps (select_closure ps sel) \<and>
   closed_selection ps (select_closure ps sel) \<and>
   (\<forall>i < length ps. sel ! i \<longrightarrow> select_closure ps sel ! i)"
proof (induction ps sel rule: select_closure.induct)
  case (1 ps sel)
  have len: "length sel = length ps"
    using "1.prems" by (simp add: sound_selection_def)
  obtain s1 c1 where r: "select_round ps sel = (s1, c1)"
    by fastforce
  then have f: "fold (select_step ps) [0..<length ps] (sel, False) = (s1, c1)"
    by (simp add: select_round_def)
  have sound: "sound_selection (in_workload ps s l a) ps s1"
    using select_fold_sound [OF f _ "1.prems"] by simp
  have mono: "\<forall>i < length ps. sel ! i \<longrightarrow> s1 ! i"
    using select_fold_mono [OF f] len by simp
  show ?case
  proof (cases c1)
    case True
    with "1.IH" [OF _ r [symmetric]] len sound mono show ?thesis
      by (subst (1 2 3) select_closure.simps) (simp add: r)
  next
    case False
    with select_fold_unchanged [of ps _ sel False s1] f have "s1 = sel"
      "closed_selection ps sel"
      by (auto simp: closed_selection_def)
    with False r len sound show ?thesis
      by (subst (1 2 3) select_closure.simps) simp
  qed
qed

lemma select_closure_complete:
  assumes "in_workload ps s l a p" and "sound_selection (in_workload ps s l a) ps sel"
    and "closed_selection ps sel"
    and "\<forall>i < length ps. a \<and> pt_pid (ps ! i) = l \<or> pt_parent_pid (ps ! i) = s \<longrightarrow> sel ! i"
    and "i < length ps" and "ps ! i = p"
  shows "sel ! i"
  using assms
proof (induction arbitrary: i)
  case (descendant q p)
  obtain j where j: "j < length ps" "ps ! j = q"
    using in_workload_in [OF descendant.hyps(1)] by (metis in_set_conv_nth)
  then have "sel ! j"
    using descendant by blast
  then have "process_is_selected_parent ps sel (pt_parent_pid (ps ! i))"
    using j descendant.hyps(3) descendant.prems(1,5)
    by (auto simp: process_is_selected_parent_iff sound_selection_def)
  with descendant.prems show ?case
    by (auto simp: closed_selection_def)
qed auto

lemma select_closure_workload:
  "select_closure ps (initial_selection ps s l a) = map (in_workload ps s l a) ps"
proof -
  let ?init = "initial_selection ps s l a" and ?W = "in_workload ps s l a"
  have "sound_selection ?W ps ?init"
    by (auto simp: sound_selection_def initial_selection_def intro: leader adopted)
  then have C: "sound_selection ?W ps (select_closure ps ?init)"
      "closed_selection ps (select_closure ps ?init)"
      "\<forall>i < length ps. ?init ! i \<longrightarrow> select_closure ps ?init ! i"
    using select_closure_sound by blast+
  then have roots: "\<forall>i < length ps. a \<and> pt_pid (ps ! i) = l \<or> pt_parent_pid (ps ! i) = s \<longrightarrow>
      select_closure ps ?init ! i"
    by (simp add: initial_selection_def)
  have "select_closure ps ?init ! i = ?W (ps ! i)" if "i < length ps" for i
    using that C(1) select_closure_complete [OF _ C(1,2) roots that refl]
    by (auto simp: sound_selection_def)
  then show ?thesis
    using C(1) by (intro nth_equalityI) (simp_all add: sound_selection_def)
qed

subsection \<open>The sums\<close>

text \<open>The readings of memory that the last loop makes, in order.\<close>

fun memory_readings ::
    "kernel \<Rightarrow> (ProcessTreeProcess \<Rightarrow> bool) \<Rightarrow> ProcessTreeProcess list \<Rightarrow> trace \<Rightarrow>
     (ProcReadResult \<times> u64 \<times> bool) list" where
  "memory_readings k W [] tr = []"
| "memory_readings k W (p # ps) tr =
     (if \<not> W p then memory_readings k W ps tr
      else case read_process_memory k (pt_pid p) tr of
        (result, kilobytes, fallback, tr) \<Rightarrow>
          (result, kilobytes, fallback) # memory_readings k W ps tr)"

definition reading_kilobytes :: "ProcReadResult \<times> u64 \<times> bool \<Rightarrow> nat" where
  "reading_kilobytes r = (case r of (result, kilobytes, _) \<Rightarrow>
     if result = PROC_READ_SUCCESS then unat kilobytes else 0)"

definition reading_fallback :: "ProcReadResult \<times> u64 \<times> bool \<Rightarrow> bool" where
  "reading_fallback r \<longleftrightarrow> (case r of (result, _, fallback) \<Rightarrow> result = PROC_READ_SUCCESS \<and> fallback)"

definition saturated :: "nat \<Rightarrow> nat" where
  "saturated n = min n (2 ^ 64 - 1)"

lemma saturated_add [simp]: "saturated (saturated a + b) = saturated (a + b)"
  "saturated (unat (w :: u64)) = unat w"
  using unsigned_less [of w, where ?'a = nat] by (simp_all add: saturated_def)

lemma saturated_idem [simp]: "saturated (saturated a) = saturated a"
  by (simp add: saturated_def)

lemma unat_saturating: "unat (saturating_add a b) = saturated (unat a + unat b)"
  by (simp add: saturated_def unat_saturating_add)

lemma add_process_simps [simp]:
  "ps_processes (add_process p s) = ps_processes s @ [p]"
  "ps_process_count (add_process p s) = ps_process_count s + 1"
  "unat (ps_user_ticks (add_process p s)) = saturated (unat (ps_user_ticks s) + unat (pt_user_ticks p))"
  "unat (ps_system_ticks (add_process p s)) =
     saturated (unat (ps_system_ticks s) + unat (pt_system_ticks p))"
  "ps_memory_kilobytes (add_process p s) = ps_memory_kilobytes s"
  "ps_used_virtual_memory_fallback (add_process p s) = ps_used_virtual_memory_fallback s"
  by (simp_all add: add_process_def unat_saturating)

lemma add_memory_simps [simp]:
  "ps_processes (add_memory r m v s) = ps_processes s"
  "ps_process_count (add_memory r m v s) = ps_process_count s"
  "ps_user_ticks (add_memory r m v s) = ps_user_ticks s"
  "ps_system_ticks (add_memory r m v s) = ps_system_ticks s"
  "unat (ps_memory_kilobytes (add_memory r m v s)) =
     saturated (unat (ps_memory_kilobytes s) + reading_kilobytes (r, m, v))"
  "ps_used_virtual_memory_fallback (add_memory r m v s) \<longleftrightarrow>
     ps_used_virtual_memory_fallback s \<or> reading_fallback (r, m, v)"
  by (auto simp: add_memory_def Let_def unat_saturating reading_kilobytes_def reading_fallback_def)

lemma accumulate_step:
  assumes "accumulate k (p # ps) (map W (p # ps)) s tr = (Some s', tr')" and "W p"
  obtains r m v t where "read_process_memory k (pt_pid p) tr = (r, m, v, t)" and "r \<noteq> PROC_READ_ERROR"
    and "accumulate k ps (map W ps) (add_memory r m v (add_process p s)) t = (Some s', tr')"
    and "memory_readings k W (p # ps) tr = (r, m, v) # memory_readings k W ps t"
proof -
  obtain r m v t where R: "read_process_memory k (pt_pid p) tr = (r, m, v, t)"
    by (metis prod_cases4)
  with assms show ?thesis
    by (intro that [of r m v t]) (simp_all add: Let_def split: if_splits)
qed

lemma accumulate_sums:
  assumes "accumulate k ps (map W ps) s tr = (Some s', tr')"
  shows "ps_processes s' = ps_processes s @ filter W ps \<and>
    ps_process_count s' = ps_process_count s + length (filter W ps) \<and>
    unat (ps_user_ticks s') =
      saturated (unat (ps_user_ticks s) + (\<Sum>p \<leftarrow> filter W ps. unat (pt_user_ticks p))) \<and>
    unat (ps_system_ticks s') =
      saturated (unat (ps_system_ticks s) + (\<Sum>p \<leftarrow> filter W ps. unat (pt_system_ticks p))) \<and>
    unat (ps_memory_kilobytes s') =
      saturated (unat (ps_memory_kilobytes s) +
        (\<Sum>r \<leftarrow> memory_readings k W ps tr. reading_kilobytes r)) \<and>
    (ps_used_virtual_memory_fallback s' \<longleftrightarrow>
      ps_used_virtual_memory_fallback s \<or> (\<exists>r \<in> set (memory_readings k W ps tr). reading_fallback r)) \<and>
    (\<forall>r \<in> set (memory_readings k W ps tr). fst r \<noteq> PROC_READ_ERROR)"
  using assms
proof (induction ps arbitrary: s tr)
  case (Cons p ps)
  show ?case
  proof (cases "W p")
    case True
    obtain r m v t where A: "read_process_memory k (pt_pid p) tr = (r, m, v, t)"
        "r \<noteq> PROC_READ_ERROR"
        "accumulate k ps (map W ps) (add_memory r m v (add_process p s)) t = (Some s', tr')"
        "memory_readings k W (p # ps) tr = (r, m, v) # memory_readings k W ps t"
      using Cons.prems True by (rule accumulate_step)
    show ?thesis
      using Cons.IH [OF A(3)] A(2) True unfolding A(4)
      by (simp add: add.assoc)
  next
    case False
    with Cons show ?thesis by simp
  qed
qed simp

lemma zero_sample_simps [simp]:
  "ps_processes zero_sample = []" "ps_process_count zero_sample = 0" "ps_memory_kilobytes zero_sample = 0"
  "ps_user_ticks zero_sample = 0" "ps_system_ticks zero_sample = 0"
  "\<not> ps_used_virtual_memory_fallback zero_sample"
  by (simp_all add: zero_sample_def)

lemma process_tree_sampleE:
  assumes "process_tree_sample k s l a tr = (0, sample, tr')"
  obtains ps t1 t2 where "collect_all_processes k tr = (0, ps, t1)"
    and "accumulate k ps (map (in_workload ps s l a) ps) zero_sample t2 = (Some sample, tr')"
  using assms
  by (auto simp: process_tree_sample_def select_closure_workload Let_def
      split: if_splits prod.splits option.splits bool.splits)

lemma process_tree_sample_failed:
  "process_tree_sample k s l a tr = (rc, sample, tr') \<Longrightarrow> rc \<noteq> 0 \<Longrightarrow> rc = -1 \<and> sample = zero_sample"
  by (auto simp: process_tree_sample_def Let_def split: if_splits prod.splits option.splits bool.splits)

subsection \<open>The status line as the kernel prints it\<close>

text \<open>
  \<^verbatim>\<open>pid (command) state ppid pgrp ... utime stime ...\<close>: the command is any text, blanks
  and parentheses included.
\<close>

definition token :: "string \<Rightarrow> bool" where
  "token w \<longleftrightarrow> w \<noteq> [] \<and> list_all (\<lambda>c. \<not> is_delimiter c) w"

text \<open>Everything behind the command: the state, then eleven numbers of which four are used.\<close>

definition stat_tail :: "ProcessTreeProcess \<Rightarrow> string list \<Rightarrow> string \<Rightarrow> string" where
  "stat_tail p unused others =
     [pt_state p] @ '' '' @ show_int (pt_parent_pid p) @ '' '' @ show_int (pt_process_group_id p) @ '' '' @
     concat (map (\<lambda>w. w @ '' '') unused) @
     show_nat (unat (pt_user_ticks p)) @ '' '' @ show_nat (unat (pt_system_ticks p)) @ '' '' @ others"

definition stat_line :: "ProcessTreeProcess \<Rightarrow> string \<Rightarrow> string list \<Rightarrow> string \<Rightarrow> string" where
  "stat_line p command unused others =
     show_int (pt_pid p) @ '' ('' @ command @ '') '' @ stat_tail p unused others"

lemma strtok_r_token: "token w \<Longrightarrow> strtok_r (w @ CHR '' '' # s) = Some (w, s)"
proof -
  assume t: "token w"
  then have "dropWhile is_delimiter (w @ CHR '' '' # s) = w @ CHR '' '' # s"
    by (cases w) (auto simp: token_def)
  moreover have "takeWhile (\<lambda>c. \<not> is_delimiter c) (w @ CHR '' '' # s) = w"
    using t by (auto simp: token_def list_all_iff is_delimiter_def takeWhile_append)
  ultimately show ?thesis
    using t by (simp add: strtok_r_def token_def)
qed

lemma stat_fields_token:
  "token w \<Longrightarrow> n \<le> 15 \<Longrightarrow> stat_fields n (w @ CHR '' '' # s) st =
     (case stat_field n w st of None \<Rightarrow> None | Some st \<Rightarrow> stat_fields (n + 1) s st)"
  by (subst stat_fields.simps) (simp add: strtok_r_token)

lemma stat_fields_end: "15 < n \<Longrightarrow> stat_fields n s st = Some st"
  by (subst stat_fields.simps) (simp split: option.split prod.split)

lemma stat_fields_unused:
  "list_all token ws \<Longrightarrow> 6 \<le> n \<Longrightarrow> n + length ws \<le> 14 \<Longrightarrow>
   stat_fields n (concat (map (\<lambda>w. w @ '' '') ws) @ s) st = stat_fields (n + length ws) s st"
proof (induction ws arbitrary: n)
  case (Cons w ws)
  then have "stat_field n w st = Some st"
    by (cases st) (simp add: stat_field_def)
  with Cons show ?case
    by (simp add: stat_fields_token)
qed simp

lemma isdigit_not_delimiter: "isdigit c \<Longrightarrow> \<not> is_delimiter c"
  by (auto simp: isdigit_def is_delimiter_def)

lemma token_show_nat: "token (show_nat n)"
  using show_nat_digits [of n] by (auto simp: token_def list_all_iff isdigit_not_delimiter)

lemma show_int_nonneg: "0 \<le> i \<Longrightarrow> show_int i = show_nat (nat i)"
  by (simp add: show_int_def)

lemma parse_pid_token_show:
  "0 \<le> i \<Longrightarrow> i \<le> INT_MAX \<Longrightarrow> parse_pid_token (show_nat (nat i)) = Some i"
  using show_nat_digits [of "nat i"] scan_integer_digits [of "show_nat (nat i)" "[]"]
  by (simp add: parse_pid_token_def strtol_def INT_MAX_def Let_def)

lemma parse_unsigned_token_show:
  "parse_unsigned_token (show_nat (unat (w :: u64))) = Some w"
  using strtoul_show_nat [of "unat w" "[]"] unsigned_less [of w, where ?'a = nat]
    show_nat_digits [of "unat w"]
  by (simp add: parse_unsigned_token_def strtoull_def)

lemma stat_fields_tail:
  assumes "\<not> is_delimiter (pt_state p)"
    and "0 \<le> pt_parent_pid p" "pt_parent_pid p \<le> INT_MAX"
    and "0 \<le> pt_process_group_id p" "pt_process_group_id p \<le> INT_MAX"
    and "list_all token unused" "length unused = 8"
  shows "stat_fields 3 (stat_tail p unused others)
      (zero_process\<lparr>pt_pid := pt_pid p\<rparr>,
       \<lparr>found_parent = False, found_group = False, found_user_ticks = False, found_system_ticks = False\<rparr>)
    = Some (p, \<lparr>found_parent = True, found_group = True, found_user_ticks = True,
                found_system_ticks = True\<rparr>)"
proof -
  have shown: "show_int (pt_parent_pid p) = show_nat (nat (pt_parent_pid p))"
      "show_int (pt_process_group_id p) = show_nat (nat (pt_process_group_id p))"
    using assms by (simp_all add: show_int_nonneg)
  have st: "token [pt_state p]"
    using assms(1) by (simp add: token_def)
  note steps = stat_fields_token [OF token_show_nat] stat_fields_token [OF st, simplified]
    parse_pid_token_show parse_unsigned_token_show stat_fields_end
  have u: "stat_fields 6 (concat (map (\<lambda>w. w @ '' '') unused) @ s) x = stat_fields 14 s x" for s x
    using stat_fields_unused [OF assms(6), of 6 s x] assms(7) by simp
  have p: "p = \<lparr>pt_pid = pt_pid p, pt_parent_pid = pt_parent_pid p,
      pt_process_group_id = pt_process_group_id p, pt_state = pt_state p,
      pt_user_ticks = pt_user_ticks p, pt_system_ticks = pt_system_ticks p\<rparr>"
    by simp
  show ?thesis
    unfolding stat_tail_def shown
    using assms(2-5)
    by (subst (2) p) (simp add: steps u stat_field_def zero_process_def)
qed

lemma show_int_chars: "CHR '')'' \<notin> set (show_int i)" "NUL \<notin> set (show_int i)"
  by (auto simp: show_int_def show_nat_chars)

lemma parse_stat_line_shown:
  assumes "\<not> is_delimiter (pt_state p)" "pt_state p \<notin> {NUL, CHR '')''}"
    and "0 \<le> pt_parent_pid p" "pt_parent_pid p \<le> INT_MAX"
    and "0 \<le> pt_process_group_id p" "pt_process_group_id p \<le> INT_MAX"
    and "list_all token unused" "length unused = 8"
    and "NUL \<notin> set command" "{NUL, CHR '')''} \<inter> set (concat unused @ others) = {}"
  shows "parse_stat_line (pt_pid p) (stat_line p command unused others @ NUL # junk) =
    (PROC_READ_SUCCESS, p)"
proof -
  let ?tail = "stat_tail p unused others"
  let ?a = "show_int (pt_pid p) @ '' ('' @ command"
  have tail: "CHR '')'' \<notin> set ?tail" "NUL \<notin> set ?tail"
    using assms(2,10) by (auto simp: stat_tail_def show_nat_chars show_int_chars)
  have line: "stat_line p command unused others = ?a @ CHR '')'' # CHR '' '' # ?tail"
    by (simp add: stat_line_def)
  have "NUL \<notin> set (stat_line p command unused others)"
    using tail assms(9) by (simp add: line show_int_chars)
  then have c: "cstr (stat_line p command unused others @ NUL # junk) = ?a @ CHR '')'' # CHR '' '' # ?tail"
    unfolding line by (rule cstr_terminated)
  then have last: "strrchr (stat_line p command unused others @ NUL # junk) CHR '')'' = Some (length ?a)"
    using c tail by (intro strrchr_last [where b = "CHR '' '' # ?tail"]) simp_all
  have blank: "(stat_line p command unused others @ NUL # junk) ! (length ?a + 1) = CHR '' ''"
    unfolding line by (simp add: nth_append)
  have rest_text: "cstr (drop (length ?a + 2) (stat_line p command unused others @ NUL # junk)) = ?tail"
    using tail append_eq_conv_conj [of "?a @ '') ''" "?tail @ NUL # junk"
      "stat_line p command unused others @ NUL # junk"]
    unfolding line by simp
  show ?thesis
    using stat_fields_tail [OF assms(1,3-8)] blank
    unfolding parse_stat_line_def last option.case rest_text
    by (simp add: Let_def)
qed

subsection \<open>The growing array\<close>

text \<open>What \<^verbatim>\<open>realloc\<close> has given: the array fits, and its size in bytes is representable.\<close>

definition array_ok :: "ProcessTreeProcess list \<Rightarrow> u64 \<Rightarrow> bool" where
  "array_ok processes capacity \<longleftrightarrow>
     length processes \<le> unat capacity \<and> unat capacity * unat sizeof_process < 2 ^ 64"

lemma array_ok_empty [simp]: "array_ok [] 0"
  by (simp add: array_ok_def)

lemma append_process_spec:
  assumes "append_process k ps c p tr = (rc, ps', c', tr')" and "array_ok ps c"
  shows "array_ok ps' c' \<and> (rc = 0 \<and> ps' = ps @ [p] \<or> rc = -1 \<and> ps' = ps \<and> c' = c)"
proof -
  have c: "unat c < 2 ^ 59"
    using assms(2) by (simp add: array_ok_def sizeof_process_def)
  then have double: "unat (c * 2) = 2 * unat c"
    by (simp add: unat_word_ariths)
  have limit: "SIZE_MAX div sizeof_process = 2 ^ 59 - 1"
    by (simp add: SIZE_MAX_def sizeof_process_def unsigned_minus_1_eq_mask)
  have "unat n < 2 ^ 59" if "\<not> SIZE_MAX div sizeof_process < n" for n
    using that by (simp add: limit word_less_nat_alt)
  note this [of "c * 2"]
  moreover have "c \<noteq> 0 \<Longrightarrow> Suc 0 \<le> unat c"
    by (simp add: unat_gt_0 Suc_le_eq)
  ultimately show ?thesis
    using assms c double
    by (auto simp: append_process_def array_ok_def Let_def sizeof_process_def os_defs word_less_nat_alt
        split: if_splits bool.splits)
qed

lemma stat_field_pid: "stat_field n w (p, f) = Some (p', f') \<Longrightarrow> pt_pid p' = pt_pid p"
  by (auto simp: stat_field_def split: if_splits)

lemma stat_fields_pid: "stat_fields n s (p, f) = Some (p', f') \<Longrightarrow> pt_pid p' = pt_pid p"
proof (induction n s "(p, f)" arbitrary: p f rule: stat_fields.induct)
  case (1 n s p f)
  show ?case
  proof (cases "strtok_r s")
    case None
    with "1.prems" show ?thesis by (subst (asm) stat_fields.simps) simp
  next
    case (Some a)
    obtain w s' where a: "a = (w, s')" by fastforce
    show ?thesis
    proof (cases "15 < n")
      case True
      with "1.prems" show ?thesis by (simp add: stat_fields_end)
    next
      case False
      with "1.prems" Some a obtain p1 f1 where F: "stat_field n w (p, f) = Some (p1, f1)"
          "stat_fields (n + 1) s' (p1, f1) = Some (p', f')"
        by (subst (asm) stat_fields.simps) (auto split: option.splits)
      then show ?thesis
        using "1.hyps" [OF Some a [symmetric] False F(1) F(2)] stat_field_pid [OF F(1)] by simp
    qed
  qed
qed

lemma parse_stat_line_pid:
  "parse_stat_line pid line = (PROC_READ_SUCCESS, p) \<Longrightarrow> pt_pid p = pid"
  by (auto simp: parse_stat_line_def Let_def dest: stat_fields_pid split: option.splits if_splits)

lemma read_process_stat_pid:
  "read_process_stat k pid tr = (PROC_READ_SUCCESS, p, tr') \<Longrightarrow> pt_pid p = pid"
  by (auto simp: read_process_stat_def Let_def dest: parse_stat_line_pid
      split: option.splits sum.splits prod.splits if_splits)

fun numeric_names :: "string list \<Rightarrow> pid list" where
  "numeric_names [] = []"
| "numeric_names (name # entries) =
     (case directory_name_to_pid name of None \<Rightarrow> numeric_names entries
      | Some pid \<Rightarrow> pid # numeric_names entries)"

lemma collect_entries_pids:
  assumes "collect_entries k entries ps c tr = (Some ps', tr')" and "array_ok ps c"
  shows "\<exists>new c'. ps' = ps @ new \<and> subseq (map pt_pid new) (numeric_names entries) \<and> array_ok ps' c'"
  using assms
proof (induction entries arbitrary: ps c tr)
  case Nil
  then show ?case by auto
next
  case (Cons name entries)
  show ?case
  proof (cases "directory_name_to_pid name")
    case None
    with Cons show ?thesis by simp
  next
    case pid: (Some pid)
    obtain result p t where R: "read_process_stat k pid tr = (result, p, t)"
      by (metis prod_cases3)
    show ?thesis
    proof (cases result)
      case PROC_READ_ERROR
      with Cons.prems pid R show ?thesis by simp
    next
      case PROC_READ_PROCESS_GONE
      with Cons.prems pid R have "collect_entries k entries ps c t = (Some ps', tr')" by simp
      from Cons.IH [OF this Cons.prems(2)] show ?thesis
        by (auto simp: pid)
    next
      case PROC_READ_SUCCESS
      obtain rc ps1 c1 t1 where A: "append_process k ps c p t = (rc, ps1, c1, t1)"
        by (metis prod_cases4)
      with Cons.prems pid R PROC_READ_SUCCESS have rc: "rc = 0"
          "collect_entries k entries ps1 c1 t1 = (Some ps', tr')"
        by (auto split: if_splits)
      with append_process_spec [OF A Cons.prems(2)] have ps1: "ps1 = ps @ [p]" "array_ok ps1 c1"
        by auto
      with Cons.IH [OF rc(2) ps1(2)] read_process_stat_pid [of k pid tr p t] R PROC_READ_SUCCESS
      show ?thesis
        by (auto simp: pid)
    qed
  qed
qed

lemma collect_all_processes_pids:
  assumes "collect_all_processes k tr = (0, ps, tr')"
  obtains d c where "o_opendir k tr = Inr d" and "dir_fail d = None"
    and "subseq (map pt_pid ps) (numeric_names (names d))" and "array_ok ps c"
  using assms
  by (auto simp: collect_all_processes_def os_opendir_def os_closedir_def os_call_def Let_def
      split: sum.splits option.splits prod.splits if_splits
      dest!: collect_entries_pids [OF _ array_ok_empty])

subsection \<open>Properties\<close>

text \<open>What the kernel prints for a process: sizes in range, separators where they belong.\<close>

definition printable_process :: "ProcessTreeProcess \<Rightarrow> string \<Rightarrow> string list \<Rightarrow> string \<Rightarrow> bool" where
  "printable_process p command unused others \<longleftrightarrow>
     \<not> is_delimiter (pt_state p) \<and> pt_state p \<notin> {NUL, CHR '')''} \<and>
     0 \<le> pt_parent_pid p \<and> pt_parent_pid p \<le> INT_MAX \<and>
     0 \<le> pt_process_group_id p \<and> pt_process_group_id p \<le> INT_MAX \<and>
     list_all token unused \<and> length unused = 8 \<and>
     NUL \<notin> set command \<and> {NUL, CHR '')''} \<inter> set (concat unused @ others) = {} \<and>
     LF \<notin> set (stat_line p command unused others) \<and>
     length (stat_line p command unused others) + 2 \<le> PROC_STAT_LINE_MAX"

lemma parse_stat_line_printed:
  assumes "printable_process p command unused others"
  shows "parse_stat_line (pt_pid p) (stat_line p command unused others @ LF # NUL # junk) =
    (PROC_READ_SUCCESS, p)"
proof -
  have "parse_stat_line (pt_pid p) (stat_line p command unused (others @ [LF]) @ NUL # junk) =
      (PROC_READ_SUCCESS, p)"
    using assms by (intro parse_stat_line_shown) (auto simp: printable_process_def)
  then show ?thesis
    by (simp add: stat_line_def stat_tail_def)
qed

lemma read_process_stat_printed:
  assumes "printable_process p command unused others"
    and "build_proc_path PROC_PATH_MAX (pt_pid p) ''stat'' = Some path"
    and "o_fopen k tr path =
      Inr (open_stream (stat_line p command unused others @ LF # more_lines) err)"
    and "o_fclose k (tr @ [File (Fopen path None)]) = None"
  shows "read_process_stat k (pt_pid p) tr =
    (PROC_READ_SUCCESS, p, tr @ [File (Fopen path None), File (Fclose None)])"
proof -
  let ?line = "stat_line p command unused others"
  have len: "LF \<notin> set ?line" "length ?line + 2 \<le> PROC_STAT_LINE_MAX"
    using assms(1) by (auto simp: printable_process_def)
  have F: "fgets (zeros PROC_STAT_LINE_MAX) PROC_STAT_LINE_MAX
      (open_stream (?line @ LF # more_lines) err) =
    (Some (?line @ LF # NUL # drop (length ?line + 2) (zeros PROC_STAT_LINE_MAX)),
     open_stream more_lines err)"
    using fgets_line [OF _ len(1) len(2), of "open_stream (?line @ LF # more_lines) err" more_lines]
    by simp
  show ?thesis
    using parse_stat_line_printed [OF assms(1)] assms(2-4)
    by (simp add: read_process_stat_def F os_fopen_def os_fclose_def os_call_def)
qed

lemma read_process_memory_gone:
  assumes "build_proc_path PROC_PATH_MAX pid ''status'' = Some path" and "o_fopen k tr path = Inl ENOENT"
  shows "read_process_memory k pid tr =
    (PROC_READ_PROCESS_GONE, 0, False, tr @ [File (Fopen path (Some ENOENT))])"
  using assms by (simp add: read_process_memory_def os_fopen_def process_gone_error_def)

definition demo_unused :: "string list" where
  "demo_unused = [''1'', ''0'', ''0'', ''4'', ''9'', ''0'', ''0'', ''0'']"

definition demo_process :: "pid \<Rightarrow> pid \<Rightarrow> ProcessTreeProcess" where
  "demo_process pid parent = \<lparr>pt_pid = pid, pt_parent_pid = parent, pt_process_group_id = 1,
     pt_state = CHR ''S'', pt_user_ticks = 5, pt_system_ticks = 7\<rparr>"

definition demo_stat :: "pid \<Rightarrow> pid \<Rightarrow> stream" where
  "demo_stat pid parent =
     open_stream (stat_line (demo_process pid parent) ''a) b'' demo_unused ''9'' @ [LF]) None"

definition demo_proc :: kernel where
  "demo_proc = demo_os
     \<lparr>o_opendir := (\<lambda>_. Inr \<lparr>names = [''self'', ''200'', ''202'', ''300''], dir_fail = None\<rparr>),
      o_fopen := (\<lambda>_ path.
        if path = ''/proc/200/stat'' then Inr (demo_stat 200 100)
        else if path = ''/proc/202/stat'' then Inr (demo_stat 202 200)
        else if path = ''/proc/300/stat'' then Inr (demo_stat 300 1)
        else Inl ENOENT)\<rparr>"

lemma demo_names [simp]:
  "directory_name_to_pid ''self'' = None"
  "directory_name_to_pid ''200'' = Some 200"
  "directory_name_to_pid ''202'' = Some 202"
  "directory_name_to_pid ''300'' = Some 300"
  by (simp_all add: directory_name_to_pid_def parse_pid_token_def strtol_def scan_integer_def
      isdigit_def isspace_def digits_value_def INT_MAX_def)

lemma demo_paths [simp]:
  "build_proc_path PROC_PATH_MAX 200 ''stat'' = Some ''/proc/200/stat''"
  "build_proc_path PROC_PATH_MAX 202 ''stat'' = Some ''/proc/202/stat''"
  "build_proc_path PROC_PATH_MAX 300 ''stat'' = Some ''/proc/300/stat''"
  "build_proc_path PROC_PATH_MAX 200 ''status'' = Some ''/proc/200/status''"
  "build_proc_path PROC_PATH_MAX 202 ''status'' = Some ''/proc/202/status''"
  by (simp_all add: build_proc_path_def PROC_PATH_MAX_def show_int_def show_nat.simps)

lemma demo_printable:
  "printable_process (demo_process 200 100) ''a) b'' demo_unused ''9''"
  "printable_process (demo_process 202 200) ''a) b'' demo_unused ''9''"
  "printable_process (demo_process 300 1) ''a) b'' demo_unused ''9''"
  by (simp_all add: printable_process_def demo_process_def is_delimiter_def token_def INT_MAX_def
      PROC_STAT_LINE_MAX_def stat_line_def stat_tail_def show_int_def show_nat.simps demo_unused_def)

lemma demo_stats:
  "o_fopen demo_proc tr ''/proc/200/stat'' = Inr (demo_stat 200 100)"
  "o_fopen demo_proc tr ''/proc/202/stat'' = Inr (demo_stat 202 200)"
  "o_fopen demo_proc tr ''/proc/300/stat'' = Inr (demo_stat 300 1)"
  "o_fopen demo_proc tr ''/proc/200/status'' = Inl ENOENT"
  "o_fopen demo_proc tr ''/proc/202/status'' = Inl ENOENT"
  "o_fclose demo_proc tr = None" "o_closedir demo_proc tr = None" "o_alloc demo_proc tr = True"
  "o_opendir demo_proc tr = Inr \<lparr>names = [''self'', ''200'', ''202'', ''300''], dir_fail = None\<rparr>"
  by (simp_all add: demo_proc_def demo_os_def)

lemma demo_pid [simp]: "pt_pid (demo_process p q) = p" "pt_parent_pid (demo_process p q) = q"
  by (simp_all add: demo_process_def)

lemma demo_reads:
  "read_process_stat demo_proc 200 tr = (PROC_READ_SUCCESS, demo_process 200 100,
     tr @ [File (Fopen ''/proc/200/stat'' None), File (Fclose None)])"
  "read_process_stat demo_proc 202 tr = (PROC_READ_SUCCESS, demo_process 202 200,
     tr @ [File (Fopen ''/proc/202/stat'' None), File (Fclose None)])"
  "read_process_stat demo_proc 300 tr = (PROC_READ_SUCCESS, demo_process 300 1,
     tr @ [File (Fopen ''/proc/300/stat'' None), File (Fclose None)])"
  using demo_printable [THEN read_process_stat_printed, of _ demo_proc tr "[]" None]
  by (simp_all add: demo_stats demo_stat_def)

lemma demo_collect:
  "\<exists>t. collect_all_processes demo_proc [] =
     (0, [demo_process 200 100, demo_process 202 200, demo_process 300 1], t)"
  by (simp add: collect_all_processes_def os_opendir_def demo_stats demo_reads append_process_def
      os_alloc_def os_closedir_def os_call_def SIZE_MAX_def sizeof_process_def)

lemma accumulate_total:
  assumes "\<And>p t. p \<in> set ps \<Longrightarrow> fst (read_process_memory k (pt_pid p) t) \<noteq> PROC_READ_ERROR"
  shows "\<exists>s' t'. accumulate k ps sel s t = (Some s', t')"
  using assms
proof (induction k ps sel s t rule: accumulate.induct)
  case (1 k p ps b sel s t)
  obtain r m v t1 where R: "read_process_memory k (pt_pid p) t = (r, m, v, t1)"
    by (metis prod_cases4)
  with "1.prems" [of p t] have "r \<noteq> PROC_READ_ERROR" by simp
  with 1 R show ?case by (simp add: Let_def)
qed simp_all

lemma process_tree_sample_total:
  assumes "0 < s" and "collect_all_processes k tr = (0, ps, t1)" and "\<And>t. o_alloc k t"
    and "\<And>p t. p \<in> set ps \<Longrightarrow> fst (read_process_memory k (pt_pid p) t) \<noteq> PROC_READ_ERROR"
  shows "\<exists>sample t. process_tree_sample k s l a tr = (0, sample, t)"
proof -
  let ?sel = "select_closure ps (initial_selection ps s l a)"
  let ?t2 = "t1 @ [File (Alloc True)]"
  let ?t3 = "if 0 < length (filter id ?sel) then ?t2 @ [File (Alloc True)] else ?t2"
  obtain S T where "accumulate k ps ?sel zero_sample ?t3 = (Some S, T)"
    using accumulate_total [OF assms(4)] by blast
  then have "process_tree_sample k s l a tr = (0, S, T)"
    using assms(1-3)
    by (cases "filter id ?sel = []") (simp_all add: process_tree_sample_def os_alloc_def os_call_def Let_def)
  then show ?thesis by blast
qed

lemma demo_sample: "\<exists>s t. process_tree_sample demo_proc 100 200 True [] = (0, s, t)"
proof -
  obtain t where C: "collect_all_processes demo_proc [] =
      (0, [demo_process 200 100, demo_process 202 200, demo_process 300 1], t)"
    using demo_collect by blast
  have m: "o_fopen demo_proc t ''/proc/300/status'' = Inl ENOENT"
      "build_proc_path PROC_PATH_MAX 300 ''status'' = Some ''/proc/300/status''" for t
    by (simp_all add: demo_proc_def build_proc_path_def PROC_PATH_MAX_def show_int_def show_nat.simps)
  show ?thesis
    by (rule process_tree_sample_total [OF _ C])
      (auto simp: demo_stats m read_process_memory_gone [OF demo_paths(4) demo_stats(4)]
        read_process_memory_gone [OF demo_paths(5) demo_stats(5)] read_process_memory_gone [OF m(2) m(1)])
qed

text \<open>
  C29: a sample is the workload. When \<^verbatim>\<open>process_tree_sample\<close> succeeds, the entries of the sample are
  exactly those of all processes read from \<^verbatim>\<open>/proc\<close> that belong to the workload (the living leader,
  the children of the supervisor, and everything that descends from one of them), in their order;
  the ticks are their sums and the memory the sum of the readings made for them, each cut off at
  the largest number of 64 bits instead of wrapping around. No process is read twice, and the array
  never outgrows what an allocation can hold.
\<close>

theorem process_tree_sample_workload:
  assumes "process_tree_sample k s l a tr = (0, sample, tr')"
  shows "\<exists>d ps c t1 t2. o_opendir k tr = Inr d \<and>
    collect_all_processes k tr = (0, ps, t1) \<and>
    subseq (map pt_pid ps) (numeric_names (names d)) \<and> array_ok ps c \<and>
    ps_processes sample = filter (in_workload ps s l a) ps \<and>
    ps_process_count sample = length (filter (in_workload ps s l a) ps) \<and>
    unat (ps_user_ticks sample) =
      saturated (\<Sum>p \<leftarrow> filter (in_workload ps s l a) ps. unat (pt_user_ticks p)) \<and>
    unat (ps_system_ticks sample) =
      saturated (\<Sum>p \<leftarrow> filter (in_workload ps s l a) ps. unat (pt_system_ticks p)) \<and>
    unat (ps_memory_kilobytes sample) =
      saturated (\<Sum>r \<leftarrow> memory_readings k (in_workload ps s l a) ps t2. reading_kilobytes r)"
proof -
  obtain ps t1 t2 where C: "collect_all_processes k tr = (0, ps, t1)"
    and A: "accumulate k ps (map (in_workload ps s l a) ps) zero_sample t2 = (Some sample, tr')"
    using assms by (rule process_tree_sampleE)
  obtain d c where D: "o_opendir k tr = Inr d" "subseq (map pt_pid ps) (numeric_names (names d))"
      "array_ok ps c"
    using C by (rule collect_all_processes_pids)
  show ?thesis
    using accumulate_sums [OF A] C D
    by (intro exI [of _ d] exI [of _ ps] exI [of _ c] exI [of _ t1] exI [of _ t2]) simp
qed

lemma process_tree_sample_workload_witness:
  "\<exists>sample tr' ps. process_tree_sample demo_proc 100 200 True [] = (0, sample, tr') \<and>
    ps_processes sample = filter (in_workload ps 100 200 True) ps"
proof -
  obtain sample tr' where "process_tree_sample demo_proc 100 200 True [] = (0, sample, tr')"
    using demo_sample by blast
  with process_tree_sample_workload [OF this] show ?thesis by blast
qed

text \<open>
  C30: what the kernel prints is read back. From a stat file whose line is printed for a process,
  whatever its command is called, blanks and closing parentheses included, \<^verbatim>\<open>read_process_stat\<close>
  returns exactly that process, with one open and one close of the file.
\<close>

theorem read_process_stat_roundtrip:
  assumes "printable_process p command unused others"
    and "build_proc_path PROC_PATH_MAX (pt_pid p) ''stat'' = Some path"
    and "o_fopen k tr path =
      Inr (open_stream (stat_line p command unused others @ LF # more_lines) err)"
    and "o_fclose k (tr @ [File (Fopen path None)]) = None"
  shows "read_process_stat k (pt_pid p) tr =
    (PROC_READ_SUCCESS, p, tr @ [File (Fopen path None), File (Fclose None)])"
  using assms by (rule read_process_stat_printed)

lemma read_process_stat_roundtrip_witness:
  "read_process_stat demo_proc 200 [] = (PROC_READ_SUCCESS, demo_process 200 100,
     [File (Fopen ''/proc/200/stat'' None), File (Fclose None)])"
  using read_process_stat_roundtrip [OF demo_printable(1), of "''/proc/200/stat''" demo_proc "[]" "[]" None]
  by (simp add: demo_stats demo_stat_def)

subsection \<open>Files are only read\<close>

lemma read_process_stat_reads: "read_process_stat k pid tr = (r, p, tr') \<Longrightarrow> extends read_event tr tr'"
  by (auto simp: read_process_stat_def os_fopen_def os_fclose_def os_call_def Let_def
      split: option.splits sum.splits prod.splits if_splits)

lemma read_process_memory_reads:
  "read_process_memory k pid tr = (r, m, v, tr') \<Longrightarrow> extends read_event tr tr'"
  by (auto simp: read_process_memory_def os_fopen_def os_fclose_def os_call_def Let_def
      split: option.splits sum.splits prod.splits if_splits)

lemma append_process_reads:
  "append_process k ps c p tr = (rc, ps', c', tr') \<Longrightarrow> extends read_event tr tr'"
  by (auto simp: append_process_def os_alloc_def os_call_def Let_def split: if_splits bool.splits)

lemma collect_entries_reads:
  "collect_entries k entries ps c tr = (r, tr') \<Longrightarrow> extends read_event tr tr'"
proof (induction entries arbitrary: ps c tr)
  case (Cons name entries)
  show ?case
  proof (cases "directory_name_to_pid name")
    case None
    with Cons show ?thesis by simp
  next
    case pid: (Some pid)
    obtain result p t where R: "read_process_stat k pid tr = (result, p, t)"
      by (metis prod_cases3)
    obtain rc ps1 c1 t1 where A: "append_process k ps c p t = (rc, ps1, c1, t1)"
      by (metis prod_cases4)
    note io = read_process_stat_reads [OF R] append_process_reads [OF A]
    show ?thesis
      using Cons.prems pid R A io Cons.IH [of ps c t] Cons.IH [of ps1 c1 t1]
      by (cases result) (auto split: if_splits intro: extends_trans)
  qed
qed simp

lemma accumulate_reads: "accumulate k ps sel s tr = (r, tr') \<Longrightarrow> extends read_event tr tr'"
proof (induction k ps sel s tr rule: accumulate.induct)
  case (1 k p ps b sel s tr)
  obtain r m v t1 where R: "read_process_memory k (pt_pid p) tr = (r, m, v, t1)"
    by (metis prod_cases4)
  show ?case
    using 1 R read_process_memory_reads [OF R]
    by (auto simp: Let_def split: if_splits intro: extends_trans)
qed simp_all

lemma collect_all_processes_reads:
  assumes "collect_all_processes k tr = (rc, ps, tr')"
  shows "extends read_event tr tr'"
proof (cases "o_opendir k tr")
  case (Inl e)
  with assms show ?thesis by (auto simp: collect_all_processes_def os_opendir_def)
next
  case (Inr d)
  let ?t = "tr @ [File (Opendir None)]"
  obtain r t where C: "collect_entries k (names d) [] 0 ?t = (r, t)"
    by fastforce
  have "extends read_event tr t"
    using collect_entries_reads [OF C] by (rule extends_step) simp
  moreover have "extends read_event t tr'"
    using assms Inr C by (auto simp: collect_all_processes_def os_opendir_def os_closedir_def os_call_def
        Let_def split: option.splits if_splits)
  ultimately show ?thesis by (rule extends_trans)
qed

lemma process_tree_sample_reads:
  assumes "process_tree_sample k s l a tr = (rc, sample, tr')"
  shows "extends read_event tr tr'"
proof (cases "s \<le> 0")
  case True
  with assms show ?thesis by (simp add: process_tree_sample_def)
next
  case False
  obtain rc1 ps t1 where C: "collect_all_processes k tr = (rc1, ps, t1)"
    by (metis prod_cases3)
  have "extends read_event t1 tr'"
    using assms False C
    by (auto simp: process_tree_sample_def os_alloc_def os_call_def Let_def
        split: if_splits bool.splits option.splits prod.splits dest!: accumulate_reads intro: extends_step)
  with collect_all_processes_reads [OF C] show ?thesis by (rule extends_trans)
qed

lemma process_tree_sample_io:
  "process_tree_sample k s l a tr = (rc, sample, tr') \<Longrightarrow> extends io_event tr tr'"
  by (erule extends_mono [OF process_tree_sample_reads]) (rule read_event_io)

end
