(* ===== verification/Monitor_Threads.thy ===== *)
theory Monitor_Threads
  imports Process_Tree Cgroup
begin

text \<open>
  The second part of \<^verbatim>\<open>Sandbox/monitor.c\<close>: the three monitor threads. A thread is a loop that looks
  at the shared state, measures, may request termination, and sleeps; it returns the state as it
  left it. The number that the CPU monitor prints as a percentage is floating point and only ever
  printed: its text is the parameter \<open>percent\<close>.
\<close>

text \<open>The way in which a thread gives up: a line on the log, a request, and return.\<close>

definition monitor_failed :: "kernel \<Rightarrow> string \<Rightarrow> SandboxState \<Rightarrow> trace \<Rightarrow> (SandboxState \<times> trace) option"
    where
  "monitor_failed k message st tr =
     (let tr = logger_error k message tr in
      case sandbox_state_request_termination k SANDBOX_TERMINATION_MONITOR_ERROR st tr of
        (_, st, tr) \<Rightarrow> Some (st, tr))"

subsection \<open>The timeout\<close>

partial_function (option) timeout_loop ::
    "kernel \<Rightarrow> u32 \<Rightarrow> u32 \<Rightarrow> timespec \<Rightarrow> SandboxState \<Rightarrow> trace \<Rightarrow> (SandboxState \<times> trace) option"
    where
  "timeout_loop k timeout_seconds poll_interval start st tr =
     (case sandbox_state_snapshot k st tr of
        (None, st, tr) \<Rightarrow> Some (st, tr)
      | (Some snapshot, st, tr) \<Rightarrow>
          if \<not> ss_workload_alive snapshot \<or> ss_termination_requested snapshot then Some (st, tr)
          else case os_clock k tr of
            (Inl e, tr) \<Rightarrow>
              monitor_failed k (''timeout monitor could not update monotonic clock: '' @ os_strerror k e) st tr
          | (Inr current, tr) \<Rightarrow>
              if (ucast timeout_seconds :: u64) * 1000 \<le> elapsed_milliseconds start current
              then
                (case sandbox_state_request_termination k SANDBOX_TERMINATION_TIMEOUT st tr of
                   (request_result, st, tr) \<Rightarrow>
                     Some (st, if 0 < request_result
                               then logger_warn k
                                 (''timeout exceeded after '' @ show_nat (unat timeout_seconds) @
                                  '' seconds; termination requested for process tree rooted at PID '' @
                                  show_int (ss_child_pid snapshot)) tr
                               else tr))
              else do {
                (slept, tr) \<leftarrow> sleep_milliseconds k poll_interval tr;
                case slept of
                  Some e \<Rightarrow>
                    monitor_failed k (''timeout monitor sleep failed: '' @ os_strerror k e) st tr
                | None \<Rightarrow> timeout_loop k timeout_seconds poll_interval start st tr
              })"

declare timeout_loop.simps [code]

definition timeout_monitor_thread ::
    "kernel \<Rightarrow> u32 \<Rightarrow> u32 \<Rightarrow> SandboxState \<Rightarrow> trace \<Rightarrow> (SandboxState \<times> trace) option" where
  "timeout_monitor_thread k timeout_seconds poll_interval st tr =
     (case os_clock k tr of
        (Inl e, tr) \<Rightarrow>
          monitor_failed k (''timeout monitor could not read monotonic clock: '' @ os_strerror k e) st tr
      | (Inr start, tr) \<Rightarrow>
          let tr = logger_info k
                (''timeout monitor started: limit='' @ show_nat (unat timeout_seconds) @ '' seconds'') tr
          in timeout_loop k timeout_seconds poll_interval start st tr)"

subsection \<open>The memory\<close>

text \<open>
  One measurement: an error with its message, nothing left to measure, or kilobytes with the number
  of processes and the source.
\<close>

datatype memory_reading =
  Reading_Failed string | Nothing_Left | Reading u64 nat string

definition memory_sample ::
    "kernel \<Rightarrow> SandboxCgroup \<Rightarrow> SandboxStateSnapshot \<Rightarrow> trace \<Rightarrow> memory_reading \<times> trace" where
  "memory_sample k cgroup snapshot tr =
     (if cg_active cgroup
      then case sandbox_cgroup_is_populated k cgroup tr of
        (Inl e, tr) \<Rightarrow>
          (Reading_Failed (''memory monitor could not read cgroup state: '' @ os_strerror k e), tr)
      | (Inr populated, tr) \<Rightarrow>
          case sandbox_cgroup_read_memory_kilobytes k cgroup tr of
            (Inl e, tr) \<Rightarrow>
              (Reading_Failed (''memory monitor could not read cgroup state: '' @ os_strerror k e), tr)
          | (Inr sampled_memory, tr) \<Rightarrow>
              if \<not> populated then (Nothing_Left, tr)
              else (Reading sampled_memory 0 ''cgroup memory.current'', tr)
      else case process_tree_sample k (ss_supervisor_pid snapshot) (ss_child_pid snapshot)
                  (ss_leader_alive snapshot) tr of
        (rc, sample, tr) \<Rightarrow>
          if rc \<noteq> 0 then (Reading_Failed ''memory monitor could not sample the process tree'', tr)
          else if ps_process_count sample = 0 then (Nothing_Left, tr)
          else (Reading (ps_memory_kilobytes sample) (ps_process_count sample)
                  (if ps_used_virtual_memory_fallback sample then ''aggregate VmRSS/VmSize''
                   else ''aggregate VmRSS''), tr))"

definition memory_change :: "u64 \<Rightarrow> u64 \<Rightarrow> u64" where
  "memory_change last_logged_memory sampled_memory =
     (if last_logged_memory \<noteq> ULONG_MAX
      then if last_logged_memory \<le> sampled_memory then sampled_memory - last_logged_memory
           else last_logged_memory - sampled_memory
      else 0)"

text \<open>The logging of a measurement: the last logged value and the trace.\<close>

definition log_memory ::
    "kernel \<Rightarrow> u64 \<Rightarrow> u64 \<Rightarrow> u64 \<Rightarrow> nat \<Rightarrow> string \<Rightarrow> trace \<Rightarrow> u64 \<times> trace" where
  "log_memory k memory_limit last_logged_memory sampled_memory sampled_processes source tr =
     (if last_logged_memory = ULONG_MAX \<or> memory_limit \<le> sampled_memory \<or>
         1024 \<le> memory_change last_logged_memory sampled_memory
      then (sampled_memory,
            logger_info k
              (''memory sample: source='' @ source @ '' tree_processes='' @ show_nat sampled_processes @
               '' memory='' @ show_nat (unat sampled_memory) @ '' kB limit='' @
               show_nat (unat memory_limit) @ '' kB'') tr)
      else (last_logged_memory, tr))"

partial_function (option) memory_loop ::
    "kernel \<Rightarrow> SandboxCgroup \<Rightarrow> u64 \<Rightarrow> u32 \<Rightarrow> u64 \<Rightarrow> SandboxState \<Rightarrow> trace \<Rightarrow>
     (SandboxState \<times> trace) option" where
  "memory_loop k cgroup memory_limit poll_interval last_logged_memory st tr =
     (case sandbox_state_snapshot k st tr of
        (None, st, tr) \<Rightarrow> Some (st, tr)
      | (Some snapshot, st, tr) \<Rightarrow>
          if \<not> ss_workload_alive snapshot \<or> ss_termination_requested snapshot then Some (st, tr)
          else case memory_sample k cgroup snapshot tr of
            (Reading_Failed message, tr) \<Rightarrow>
              monitor_failed k message st tr
          | (Nothing_Left, tr) \<Rightarrow> Some (st, tr)
          | (Reading sampled_memory sampled_processes source, tr) \<Rightarrow>
              case log_memory k memory_limit last_logged_memory sampled_memory sampled_processes source tr of
                (last_logged_memory, tr) \<Rightarrow>
                  if memory_limit \<le> sampled_memory
                  then
                    (case sandbox_state_request_termination k SANDBOX_TERMINATION_MEMORY_LIMIT st tr of
                       (request_result, st, tr) \<Rightarrow>
                         Some (st, if 0 < request_result
                                   then logger_warn k
                                     (''memory limit exceeded: source='' @ source @ '' memory='' @
                                      show_nat (unat sampled_memory) @ '' kB limit='' @
                                      show_nat (unat memory_limit) @ '' kB'') tr
                                   else tr))
                  else do {
                    (slept, tr) \<leftarrow> sleep_milliseconds k poll_interval tr;
                    case slept of
                      Some e \<Rightarrow>
                        monitor_failed k (''memory monitor sleep failed: '' @ os_strerror k e) st tr
                    | None \<Rightarrow>
                        memory_loop k cgroup memory_limit poll_interval last_logged_memory st tr
                  })"

declare memory_loop.simps [code]

definition memory_monitor_thread ::
    "kernel \<Rightarrow> SandboxCgroup \<Rightarrow> u64 \<Rightarrow> u32 \<Rightarrow> SandboxState \<Rightarrow> trace \<Rightarrow>
     (SandboxState \<times> trace) option" where
  "memory_monitor_thread k cgroup memory_limit poll_interval st tr =
     (let tr = logger_info k
            (''memory monitor started: source='' @
             (if cg_active cgroup then ''cgroup v2 memory.current'' else ''process-tree /proc accounting'') @
             '' limit='' @ show_nat (unat memory_limit) @ '' kB'') tr
      in memory_loop k cgroup memory_limit poll_interval ULONG_MAX st tr)"

subsection \<open>The processor\<close>

text \<open>The report on one sample, from the previous one if there is one.\<close>

definition log_cpu ::
    "kernel \<Rightarrow> (u64 \<Rightarrow> int \<Rightarrow> u64 \<Rightarrow> string) \<Rightarrow> int \<Rightarrow> (u64 \<times> timespec) option \<Rightarrow> u64 \<Rightarrow> timespec \<Rightarrow>
     ProcessTreeSample \<Rightarrow> trace \<Rightarrow> trace" where
  "log_cpu k percent ticks_per_second previous total_ticks current_time sample tr =
     (let baseline = logger_info k
            (''CPU baseline: tree_processes='' @ show_nat (ps_process_count sample) @ '' utime='' @
             show_nat (unat (ps_user_ticks sample)) @ '' stime='' @
             show_nat (unat (ps_system_ticks sample))) tr
      in
      case previous of
        None \<Rightarrow> baseline
      | Some (previous_total_ticks, previous_time) \<Rightarrow>
          if previous_total_ticks \<le> total_ticks
          then
            let wall_milliseconds = elapsed_milliseconds previous_time current_time in
            if 0 < wall_milliseconds
            then
              let delta_ticks = total_ticks - previous_total_ticks in
              logger_info k
                (''CPU sample: tree_processes='' @ show_nat (ps_process_count sample) @ '' usage='' @
                 percent delta_ticks ticks_per_second wall_milliseconds @ ''% delta_ticks='' @
                 show_nat (unat delta_ticks) @ '' utime='' @ show_nat (unat (ps_user_ticks sample)) @
                 '' stime='' @ show_nat (unat (ps_system_ticks sample))) tr
            else tr
          else baseline)"

partial_function (option) cpu_loop ::
    "kernel \<Rightarrow> (u64 \<Rightarrow> int \<Rightarrow> u64 \<Rightarrow> string) \<Rightarrow> u32 \<Rightarrow> int \<Rightarrow> (u64 \<times> timespec) option \<Rightarrow>
     SandboxState \<Rightarrow> trace \<Rightarrow> (SandboxState \<times> trace) option" where
  "cpu_loop k percent poll_interval ticks_per_second previous st tr =
     (case sandbox_state_snapshot k st tr of
        (None, st, tr) \<Rightarrow> Some (st, tr)
      | (Some snapshot, st, tr) \<Rightarrow>
          if \<not> ss_workload_alive snapshot \<or> ss_termination_requested snapshot then Some (st, tr)
          else case process_tree_sample k (ss_supervisor_pid snapshot) (ss_child_pid snapshot)
                      (ss_leader_alive snapshot) tr of
            (rc, sample, tr) \<Rightarrow>
              if rc \<noteq> 0
              then
                monitor_failed k ''CPU monitor could not sample the process tree'' st tr
              else if ps_process_count sample = 0 then Some (st, tr)
              else case os_clock k tr of
                (Inl e, tr) \<Rightarrow>
                  monitor_failed k (''CPU monitor could not read monotonic clock: '' @ os_strerror k e) st tr
              | (Inr current_time, tr) \<Rightarrow>
                  let total_ticks = saturating_add (ps_user_ticks sample) (ps_system_ticks sample);
                      tr = log_cpu k percent ticks_per_second previous total_ticks current_time sample tr
                  in do {
                    (slept, tr) \<leftarrow> sleep_milliseconds k poll_interval tr;
                    case slept of
                      Some e \<Rightarrow>
                        monitor_failed k (''CPU monitor sleep failed: '' @ os_strerror k e) st tr
                    | None \<Rightarrow>
                        cpu_loop k percent poll_interval ticks_per_second
                          (Some (total_ticks, current_time)) st tr
                  })"

declare cpu_loop.simps [code]

definition cpu_monitor_thread ::
    "kernel \<Rightarrow> (u64 \<Rightarrow> int \<Rightarrow> u64 \<Rightarrow> string) \<Rightarrow> u32 \<Rightarrow> SandboxState \<Rightarrow> trace \<Rightarrow>
     (SandboxState \<times> trace) option" where
  "cpu_monitor_thread k percent poll_interval st tr =
     (case os_clk_tck k tr of (ticks_per_second, tr) \<Rightarrow>
        if ticks_per_second \<le> 0
        then
          monitor_failed k ''CPU monitor could not determine clock ticks per second'' st tr
        else
          let tr = logger_info k
                (''CPU monitor started for process tree: clock_ticks_per_second='' @
                 show_int ticks_per_second) tr
          in cpu_loop k percent poll_interval ticks_per_second None st tr)"

subsection \<open>What a thread does to the state\<close>

text \<open>Sections that only look or request one of some reasons.\<close>

definition requests ::
    "SandboxTerminationReason set \<Rightarrow> SandboxState \<Rightarrow> SandboxState \<Rightarrow> bool" where
  "requests A s s' \<longleftrightarrow> s' = s \<or> (\<exists>reason \<in> A. s' = request_step reason s)"

lemma requests_mono: "A \<subseteq> B \<Longrightarrow> requests A s s' \<Longrightarrow> requests B s s'"
  by (auto simp: requests_def)

lemma requests_monitor_step: "A \<subseteq> monitor_reasons \<Longrightarrow> requests A s s' \<Longrightarrow> monitor_step s s'"
  by (auto simp: requests_def intro: monitor_step.intros)

lemma disciplined_requests_mono:
  "A \<subseteq> B \<Longrightarrow> disciplined (requests A) tr tr' \<Longrightarrow> disciplined (requests B) tr tr'"
  by (erule disciplined_mono) (rule requests_mono)

lemma snapshot_requests:
  "sandbox_state_snapshot k st tr = (r, st', tr') \<Longrightarrow> disciplined (requests A) tr tr'"
  by (erule snapshot.guarantee) (simp add: requests_def)

lemma request_requests:
  "sandbox_state_request_termination k reason st tr = (r, st', tr') \<Longrightarrow> reason \<in> A \<Longrightarrow>
   disciplined (requests A) tr tr'"
  by (erule request.guarantee) (auto simp: requests_def)

lemma disciplined_io: "extends io_event tr tr' \<Longrightarrow> disciplined P tr tr'"
  by (intro disciplined_extends) (erule extends_mono, rule io_event_no_section)

lemma disciplined_logged:
  "disciplined P tr (logger_info k msg tr)" "disciplined P tr (logger_warn k msg tr)"
  "disciplined P tr (logger_error k msg tr)"
  by (rule disciplined_log [OF disciplined_refl])+

lemma monitor_failed_requests:
  assumes "monitor_failed k message st tr = Some (st', tr')" and "SANDBOX_TERMINATION_MONITOR_ERROR \<in> A"
  shows "disciplined (requests A) tr tr'"
proof -
  obtain rc where "sandbox_state_request_termination k SANDBOX_TERMINATION_MONITOR_ERROR st
      (logger_error k message tr) = (rc, st', tr')"
    using assms(1) by (auto simp: monitor_failed_def Let_def split: prod.splits)
  from disciplined_trans [OF request_requests [OF this assms(2)] disciplined_logged(3)] show ?thesis .
qed

lemma monitor_failed_total: "total (monitor_failed k message st tr)"
  unfolding monitor_failed_def by (intro total_rules)

lemma sleep_io:
  "sleep_milliseconds k ms tr = Some (r, tr') \<Longrightarrow> extends io_event tr tr'"
  by (drule sleep_milliseconds_result) (auto elim!: extends_mono)

lemma os_clock_io: "os_clock k tr = (r, tr') \<Longrightarrow> extends io_event tr tr'"
  by (auto simp: os_clock_def os_call_def)

lemma memory_sample_io: "memory_sample k cgroup snapshot tr = (r, tr') \<Longrightarrow> extends io_event tr tr'"
proof (cases "cg_active cgroup")
  case True
  assume eq: "memory_sample k cgroup snapshot tr = (r, tr')"
  obtain p t1 where P: "sandbox_cgroup_is_populated k cgroup tr = (p, t1)" by fastforce
  obtain m t2 where M: "sandbox_cgroup_read_memory_kilobytes k cgroup t1 = (m, t2)" by fastforce
  show ?thesis
    using eq True P M is_populated_io [OF P] read_memory_io [OF M]
    by (auto simp: memory_sample_def split: sum.splits if_splits intro: extends_trans)
next
  case False
  then show "memory_sample k cgroup snapshot tr = (r, tr') \<Longrightarrow> ?thesis"
    by (auto simp: memory_sample_def split: prod.splits if_splits dest: process_tree_sample_io)
qed

subsection \<open>The timeout\<close>

text \<open>
  The readings of the clock after \<open>tr\<close>, and that one of them came when the limit, in milliseconds,
  had passed.
\<close>

definition clock_read :: "kernel \<Rightarrow> trace \<Rightarrow> trace \<Rightarrow> timespec \<Rightarrow> bool" where
  "clock_read k tr tr' current \<longleftrightarrow>
     (\<exists>t ev. tr' = t @ Time (ClockGettime (Inr current)) # ev \<and> length tr < length t \<and>
        o_clock k t = Inr current)"

definition late :: "kernel \<Rightarrow> timespec \<Rightarrow> u64 \<Rightarrow> trace \<Rightarrow> trace \<Rightarrow> bool" where
  "late k start limit tr tr' \<longleftrightarrow>
     (\<exists>current. clock_read k tr tr' current \<and> limit \<le> elapsed_milliseconds start current)"

definition timeout_reasons :: "kernel \<Rightarrow> timespec \<Rightarrow> u64 \<Rightarrow> trace \<Rightarrow> trace \<Rightarrow> SandboxTerminationReason set" where
  "timeout_reasons k start limit tr tr' =
     {SANDBOX_TERMINATION_MONITOR_ERROR} \<union>
     (if late k start limit tr tr' then {SANDBOX_TERMINATION_TIMEOUT} else {})"

lemma clock_read_prefix:
  assumes "clock_read k t tr' c" and "length tr \<le> length t"
  shows "clock_read k tr tr' c"
proof -
  obtain u ev where "tr' = u @ Time (ClockGettime (Inr c)) # ev" "length t < length u" "o_clock k u = Inr c"
    using assms(1) unfolding clock_read_def by blast
  with assms(2) show ?thesis
    unfolding clock_read_def by (intro exI [of _ u] exI [of _ ev]) simp
qed

lemma timeout_reasons_prefix:
  assumes "disciplined P tr t"
  shows "timeout_reasons k start limit t tr' \<subseteq> timeout_reasons k start limit tr tr'"
proof -
  obtain ev where "t = tr @ ev" using assms(1) disciplined_prefix by blast
  then have "length tr \<le> length t" by simp
  from clock_read_prefix [OF _ this] have "late k start limit tr tr'" if "late k start limit t tr'"
    using that unfolding late_def by blast
  then show ?thesis by (auto simp: timeout_reasons_def)
qed

lemma timeout_loop_result:
  assumes "timeout_loop k limit poll start st tr = Some res"
  shows "disciplined (requests (timeout_reasons k start (ucast limit * 1000) tr (snd res))) tr (snd res)"
proof (rule timeout_loop.raw_induct [where P = "\<lambda>k limit poll start st tr res.
    disciplined (requests (timeout_reasons k start (ucast limit * 1000) tr (snd res))) tr (snd res)",
    OF _ assms], goal_cases)
  case (1 f k limit poll start st tr res)
  note IH = 1(1) and eq = 1(2)
  let ?A = "timeout_reasons k start (ucast limit * 1000)"
  have err: "SANDBOX_TERMINATION_MONITOR_ERROR \<in> ?A t t'" for t t'
    by (simp add: timeout_reasons_def)
  obtain snap st1 t1 where S: "sandbox_state_snapshot k st tr = (snap, st1, t1)"
    by (metis prod_cases3)
  note s1 = snapshot_requests [OF S]
  show ?case
  proof (cases "\<exists>s. snap = Some s \<and> ss_workload_alive s \<and> \<not> ss_termination_requested s")
    case False
    with eq S s1 show ?thesis by (auto split: option.splits if_splits)
  next
    case True
    then obtain s where snap: "snap = Some s" "ss_workload_alive s" "\<not> ss_termination_requested s"
      by blast
    obtain c t2 where C: "os_clock k t1 = (c, t2)" by fastforce
    have s2: "disciplined (requests A) tr t2" for A
      using disciplined_trans [OF disciplined_io [OF os_clock_io [OF C]] s1] .
    show ?thesis
    proof (cases c)
      case (Inl e)
      with eq S snap C have "monitor_failed k
          (''timeout monitor could not update monotonic clock: '' @ os_strerror k e) st1 t2 = Some res"
        by simp
      then show ?thesis
        using monitor_failed_requests [OF _ err] disciplined_trans [OF _ s2] by (metis prod.collapse)
    next
      case (Inr current)
      show ?thesis
      proof (cases "(ucast limit :: u64) * 1000 \<le> elapsed_milliseconds start current")
        case True
        obtain rc st2 t3 where R: "sandbox_state_request_termination k SANDBOX_TERMINATION_TIMEOUT st1 t2 =
            (rc, st2, t3)" by (metis prod_cases3)
        have log: "disciplined P t3 (snd res)" for P
          using eq S snap C Inr True R by (auto intro: disciplined_logged split: if_splits)
        have "disciplined (requests UNIV) t2 t3"
          by (rule request_requests [OF R]) simp
        then obtain ev where "snd res = t2 @ ev"
          using disciplined_trans [OF log] disciplined_prefix by blast
        moreover have "t2 = t1 @ [Time (ClockGettime (Inr current))]" "o_clock k t1 = Inr current"
          using C Inr by (auto simp: os_clock_def os_call_def)
        moreover have "length tr < length t1"
          using snapshot_Some(3) [OF S [unfolded snap(1)]] by simp
        ultimately have "clock_read k tr (snd res) current"
          unfolding clock_read_def by (intro exI [of _ t1] exI [of _ ev]) simp
        with True have "late k start (ucast limit * 1000) tr (snd res)"
          unfolding late_def by blast
        then have "SANDBOX_TERMINATION_TIMEOUT \<in> ?A tr (snd res)"
          by (simp add: timeout_reasons_def)
        from disciplined_trans [OF log disciplined_trans [OF request_requests [OF R this] s2]]
        show ?thesis .
      next
        case False
        obtain slept t3 where Z: "sleep_milliseconds k poll t2 = Some (slept, t3)"
          using eq S snap C Inr False by (auto simp: Option.bind_eq_Some_conv)
        have s3: "disciplined (requests A) tr t3" for A
          using disciplined_trans [OF disciplined_io [OF sleep_io [OF Z]] s2] .
        show ?thesis
        proof (cases slept)
          case (Some e)
          with eq S snap C Inr False Z have "monitor_failed k
              (''timeout monitor sleep failed: '' @ os_strerror k e) st1 t3 = Some res"
            by simp
          then show ?thesis
            using monitor_failed_requests [OF _ err] disciplined_trans [OF _ s3] by (metis prod.collapse)
        next
          case None
          with eq S snap C Inr False Z have "f k limit poll start st1 t3 = Some res"
            by simp
          from IH [OF this]
          have rest: "disciplined (requests (?A t3 (snd res))) t3 (snd res)" .
          have "?A t3 (snd res) \<subseteq> ?A tr (snd res)"
            using s3 by (rule timeout_reasons_prefix)
          from disciplined_trans [OF disciplined_requests_mono [OF this rest] s3] show ?thesis .
        qed
      qed
    qed
  qed
qed

subsection \<open>The memory and the processor\<close>

text \<open>A measurement at or above the limit is possible at all.\<close>

definition memory_reasons :: "kernel \<Rightarrow> SandboxCgroup \<Rightarrow> u64 \<Rightarrow> SandboxTerminationReason set" where
  "memory_reasons k cgroup memory_limit =
     {SANDBOX_TERMINATION_MONITOR_ERROR} \<union>
     (if \<exists>s tr m n source tr'. memory_sample k cgroup s tr = (Reading m n source, tr') \<and> memory_limit \<le> m
      then {SANDBOX_TERMINATION_MEMORY_LIMIT} else {})"

lemma log_memory_disciplined:
  "log_memory k limit prior m n source tr = (logged, tr') \<Longrightarrow> disciplined P tr tr'"
  by (auto simp: log_memory_def intro: disciplined_logged split: if_splits)

lemma memory_loop_result:
  assumes "memory_loop k cgroup limit poll prior st tr = Some res"
  shows "disciplined (requests (memory_reasons k cgroup limit)) tr (snd res)"
proof (rule memory_loop.raw_induct [where P = "\<lambda>k cgroup limit poll prior st tr res.
    disciplined (requests (memory_reasons k cgroup limit)) tr (snd res)", OF _ assms], goal_cases)
  case (1 f k cgroup limit poll prior st tr res)
  note IH = 1(1) and eq = 1(2)
  let ?A = "memory_reasons k cgroup limit"
  have err: "SANDBOX_TERMINATION_MONITOR_ERROR \<in> ?A"
    by (simp add: memory_reasons_def)
  obtain snap st1 t1 where S: "sandbox_state_snapshot k st tr = (snap, st1, t1)"
    by (metis prod_cases3)
  note s1 = snapshot_requests [OF S]
  show ?case
  proof (cases "\<exists>s. snap = Some s \<and> ss_workload_alive s \<and> \<not> ss_termination_requested s")
    case False
    with eq S s1 show ?thesis by (auto split: option.splits if_splits)
  next
    case True
    then obtain s where snap: "snap = Some s" "ss_workload_alive s" "\<not> ss_termination_requested s"
      by blast
    obtain r t2 where M: "memory_sample k cgroup s t1 = (r, t2)" by fastforce
    have s2: "disciplined (requests ?A) tr t2"
      using disciplined_trans [OF disciplined_io [OF memory_sample_io [OF M]] s1] .
    show ?thesis
    proof (cases r)
      case (Reading_Failed message)
      with eq S snap M have "monitor_failed k message st1 t2 = Some res" by simp
      then show ?thesis
        using monitor_failed_requests [OF _ err] disciplined_trans [OF _ s2] by (metis prod.collapse)
    next
      case Nothing_Left
      with eq S snap M s2 show ?thesis by auto
    next
      case (Reading m n source)
      obtain logged t3 where L: "log_memory k limit prior m n source t2 = (logged, t3)" by fastforce
      have s3: "disciplined (requests ?A) tr t3"
        using disciplined_trans [OF log_memory_disciplined [OF L] s2] .
      show ?thesis
      proof (cases "limit \<le> m")
        case True
        obtain rc st2 t4 where R: "sandbox_state_request_termination k SANDBOX_TERMINATION_MEMORY_LIMIT st1 t3 =
            (rc, st2, t4)" by (metis prod_cases3)
        have "SANDBOX_TERMINATION_MEMORY_LIMIT \<in> ?A"
          using M [unfolded Reading] True by (simp add: memory_reasons_def) blast
        note s4 = disciplined_trans [OF request_requests [OF R this] s3]
        have "disciplined P t4 (snd res)" for P
          using eq S snap M Reading L True R by (auto intro: disciplined_logged split: if_splits)
        from disciplined_trans [OF this s4] show ?thesis .
      next
        case False
        obtain slept t4 where Z: "sleep_milliseconds k poll t3 = Some (slept, t4)"
          using eq S snap M Reading L False by (auto simp: Option.bind_eq_Some_conv)
        note s4 = disciplined_trans [OF disciplined_io [OF sleep_io [OF Z]] s3]
        show ?thesis
        proof (cases slept)
          case (Some e)
          with eq S snap M Reading L False Z have "monitor_failed k
              (''memory monitor sleep failed: '' @ os_strerror k e) st1 t4 = Some res"
            by simp
          then show ?thesis
            using monitor_failed_requests [OF _ err] disciplined_trans [OF _ s4] by (metis prod.collapse)
        next
          case None
          with eq S snap M Reading L False Z have "f k cgroup limit poll logged st1 t4 = Some res"
            by simp
          from disciplined_trans [OF IH [OF this] s4] show ?thesis .
        qed
      qed
    qed
  qed
qed

lemma log_cpu_disciplined: "disciplined P tr (log_cpu k percent ticks prev n now sample tr)"
  by (auto simp: log_cpu_def Let_def intro: disciplined_logged split: option.split)

lemma cpu_loop_result:
  assumes "cpu_loop k percent poll ticks prev st tr = Some res"
  shows "disciplined (requests {SANDBOX_TERMINATION_MONITOR_ERROR}) tr (snd res)"
proof (rule cpu_loop.raw_induct [where P = "\<lambda>k percent poll ticks prev st tr res.
    disciplined (requests {SANDBOX_TERMINATION_MONITOR_ERROR}) tr (snd res)", OF _ assms], goal_cases)
  case (1 f k percent poll ticks prev st tr res)
  note IH = 1(1) and eq = 1(2)
  let ?A = "{SANDBOX_TERMINATION_MONITOR_ERROR}"
  obtain snap st1 t1 where S: "sandbox_state_snapshot k st tr = (snap, st1, t1)"
    by (metis prod_cases3)
  note s1 = snapshot_requests [OF S]
  have failed: "disciplined (requests ?A) tr (snd res)"
    if "monitor_failed k message st' t = Some res" "disciplined (requests ?A) tr t" for message st' t
    using that monitor_failed_requests [of k message st' t "fst res" "snd res" ?A] disciplined_trans
    by (metis prod.collapse singletonI)
  show ?case
  proof (cases "\<exists>s. snap = Some s \<and> ss_workload_alive s \<and> \<not> ss_termination_requested s")
    case False
    with eq S s1 show ?thesis by (auto split: option.splits if_splits)
  next
    case True
    then obtain s where snap: "snap = Some s" "ss_workload_alive s" "\<not> ss_termination_requested s"
      by blast
    obtain rc sample t2 where P: "process_tree_sample k (ss_supervisor_pid s) (ss_child_pid s)
        (ss_leader_alive s) t1 = (rc, sample, t2)" by (metis prod_cases3)
    have s2: "disciplined (requests ?A) tr t2"
      using disciplined_trans [OF disciplined_io [OF process_tree_sample_io [OF P]] s1] .
    show ?thesis
    proof (cases "rc \<noteq> 0 \<or> ps_process_count sample = 0")
      case True
      with eq S snap P s2 failed show ?thesis by (auto split: if_splits)
    next
      case False
      obtain c t3 where C: "os_clock k t2 = (c, t3)" by fastforce
      note s3 = disciplined_trans [OF disciplined_io [OF os_clock_io [OF C]] s2]
      show ?thesis
      proof (cases c)
        case (Inl e)
        with eq S snap P False C s3 failed show ?thesis by auto
      next
        case (Inr now)
        let ?total = "saturating_add (ps_user_ticks sample) (ps_system_ticks sample)"
        let ?t4 = "log_cpu k percent ticks prev ?total now sample t3"
        obtain slept t5 where Z: "sleep_milliseconds k poll ?t4 = Some (slept, t5)"
          using eq S snap P False C Inr by (auto simp: Let_def Option.bind_eq_Some_conv)
        note s5 = disciplined_trans [OF disciplined_io [OF sleep_io [OF Z]]
            disciplined_trans [OF log_cpu_disciplined s3]]
        show ?thesis
        proof (cases slept)
          case (Some e)
          with eq S snap P False C Inr Z s5 failed show ?thesis by (auto simp: Let_def)
        next
          case None
          with eq S snap P False C Inr Z have "f k percent poll ticks (Some (?total, now)) st1 t5 = Some res"
            by (simp add: Let_def)
          from disciplined_trans [OF IH [OF this] s5] show ?thesis .
        qed
      qed
    qed
  qed
qed

subsection \<open>The threads come to an end\<close>

definition lock_event :: "sandbox_event \<Rightarrow> bool" where
  "lock_event e \<longleftrightarrow> (case e of Sync s \<Rightarrow> (case s of MutexLock _ \<Rightarrow> True | _ \<Rightarrow> False) | _ \<Rightarrow> False)"

definition locks :: "trace \<Rightarrow> nat" where
  "locks tr = length (filter lock_event tr)"

text \<open>After \<open>n\<close> looks at the state, somebody has stopped the workload or asked for it.\<close>

definition stops_after :: "nat \<Rightarrow> kernel \<Rightarrow> bool" where
  "stops_after n k \<longleftrightarrow>
     (\<forall>tr st. n \<le> locks tr \<longrightarrow>
        \<not> ss_workload_alive (o_others k tr st) \<or> ss_termination_requested (o_others k tr st))"

lemma locks_simps [simp]:
  "locks (tr @ ev) = locks tr + locks ev"
  "locks (Sync (MutexLock r) # tr) = Suc (locks tr)"
  by (simp_all add: locks_def lock_event_def)

lemma locks_mono: "disciplined P tr tr' \<Longrightarrow> locks tr \<le> locks tr'"
  using disciplined_prefix by fastforce

lemma snapshot_running:
  assumes "sandbox_state_snapshot k st tr = (Some s, st', tr')" and "stops_after n k"
    and "ss_workload_alive s" and "\<not> ss_termination_requested s"
  shows "locks tr < n" and "locks tr < locks tr'"
proof -
  note S = snapshot_Some [OF assms(1)]
  then show "locks tr < n"
    using assms(2-4) by (metis not_le stops_after_def)
  show "locks tr < locks tr'"
    by (simp add: S(3))
qed

lemma timeout_loop_stops:
  assumes "finite_retries b k" and "stops_after n k"
  shows "total (timeout_loop k limit poll start st tr)"
proof (induction "n - locks tr" arbitrary: st tr rule: less_induct)
  case less
  show ?case
  proof (subst timeout_loop.simps, intro total_rules sleep_milliseconds_total [OF assms(1)] monitor_failed_total)
    fix snap p st1 t1 s c t2 x slept t3
    assume S: "sandbox_state_snapshot k st tr = (snap, p)" "snap = Some s" "p = (st1, t1)"
      and run: "\<not> (\<not> ss_workload_alive s \<or> ss_termination_requested s)"
      and C: "os_clock k t1 = (c, t2)"
      and Z: "sleep_milliseconds k poll t2 = Some x" "x = (slept, t3)"
    show "total (timeout_loop k limit poll start st1 t3)"
    proof (rule less)
      have "locks t1 \<le> locks t3"
        using locks_mono [OF disciplined_io [OF os_clock_io [OF C]]]
          locks_mono [OF disciplined_io [OF sleep_io [OF Z(1) [unfolded Z(2)]]]] by (rule order_trans)
      then show "n - locks t3 < n - locks tr"
        using snapshot_running [OF S(1) [unfolded S(2,3)] assms(2)] run by auto
    qed
  qed
qed

lemma total_reading:
  "(\<And>m. x = Reading_Failed m \<Longrightarrow> total (f m)) \<Longrightarrow> (x = Nothing_Left \<Longrightarrow> total g) \<Longrightarrow>
   (\<And>m n s. x = Reading m n s \<Longrightarrow> total (h m n s)) \<Longrightarrow>
   total (case x of Reading_Failed m \<Rightarrow> f m | Nothing_Left \<Rightarrow> g | Reading m n s \<Rightarrow> h m n s)"
  by (cases x) simp_all

lemma memory_loop_stops:
  assumes "finite_retries b k" and "stops_after n k"
  shows "total (memory_loop k cgroup limit poll prior st tr)"
proof (induction "n - locks tr" arbitrary: prior st tr rule: less_induct)
  case less
  show ?case
  proof (subst memory_loop.simps, intro total_rules total_reading sleep_milliseconds_total [OF assms(1)]
      monitor_failed_total)
    fix snap p st1 t1 s r t2 m processes source logged t3 x slept t4
    assume S: "sandbox_state_snapshot k st tr = (snap, p)" "snap = Some s" "p = (st1, t1)"
      and run: "\<not> (\<not> ss_workload_alive s \<or> ss_termination_requested s)"
      and M: "memory_sample k cgroup s t1 = (r, t2)"
      and L: "log_memory k limit prior m processes source t2 = (logged, t3)"
      and Z: "sleep_milliseconds k poll t3 = Some x" "x = (slept, t4)"
    show "total (memory_loop k cgroup limit poll logged st1 t4)"
    proof (rule less)
      have "locks t1 \<le> locks t4"
        using locks_mono [OF disciplined_io [OF memory_sample_io [OF M]]]
          locks_mono [OF log_memory_disciplined [OF L]]
          locks_mono [OF disciplined_io [OF sleep_io [OF Z(1) [unfolded Z(2)]]]] by linarith
      then show "n - locks t4 < n - locks tr"
        using snapshot_running [OF S(1) [unfolded S(2,3)] assms(2)] run by auto
    qed
  qed
qed

lemma cpu_loop_stops:
  assumes "finite_retries b k" and "stops_after n k"
  shows "total (cpu_loop k percent poll ticks prev st tr)"
proof (induction "n - locks tr" arbitrary: prev st tr rule: less_induct)
  case less
  show ?case
  proof (subst cpu_loop.simps, intro total_rules sleep_milliseconds_total [OF assms(1)] monitor_failed_total)
    fix snap p st1 t1 s rc q and sample :: ProcessTreeSample and t2 c t3 current x slept t5
    let ?all = "saturating_add (ps_user_ticks sample) (ps_system_ticks sample)"
    let ?t4 = "log_cpu k percent ticks prev ?all current sample t3"
    assume S: "sandbox_state_snapshot k st tr = (snap, p)" "snap = Some s" "p = (st1, t1)"
      and run: "\<not> (\<not> ss_workload_alive s \<or> ss_termination_requested s)"
      and P: "process_tree_sample k (ss_supervisor_pid s) (ss_child_pid s) (ss_leader_alive s) t1 = (rc, q)"
        "q = (sample, t2)"
      and C: "os_clock k t2 = (c, t3)"
      and Z: "sleep_milliseconds k poll ?t4 = Some x" "x = (slept, t5)"
    show "total (cpu_loop k percent poll ticks (Some (?all, current)) st1 t5)"
    proof (rule less)
      have "locks t1 \<le> locks t5"
        using locks_mono [OF disciplined_io [OF process_tree_sample_io [OF P(1) [unfolded P(2)]]]]
          locks_mono [OF disciplined_io [OF os_clock_io [OF C]]]
          locks_mono [OF log_cpu_disciplined [of _ t3 k percent ticks prev ?all current sample]]
          locks_mono [OF disciplined_io [OF sleep_io [OF Z(1) [unfolded Z(2)]]]] by linarith
      then show "n - locks t5 < n - locks tr"
        using snapshot_running [OF S(1) [unfolded S(2,3)] assms(2)] run by auto
    qed
  qed
qed

lemma timeout_monitor_result:
  assumes "timeout_monitor_thread k limit poll st tr = Some res"
  shows "disciplined (requests {SANDBOX_TERMINATION_MONITOR_ERROR, SANDBOX_TERMINATION_TIMEOUT}) tr (snd res)"
    and "o_clock k tr = Inr start \<Longrightarrow>
      disciplined (requests (timeout_reasons k start (ucast limit * 1000) tr (snd res))) tr (snd res)"
proof -
  let ?B = "{SANDBOX_TERMINATION_MONITOR_ERROR, SANDBOX_TERMINATION_TIMEOUT}"
  have start: "disciplined (requests (timeout_reasons k s (ucast limit * 1000) tr (snd res))) tr (snd res)"
    if s: "o_clock k tr = Inr s" for s
  proof -
    let ?t = "logger_info k (''timeout monitor started: limit='' @ show_nat (unat limit) @ '' seconds'')
      (tr @ [Time (ClockGettime (Inr s))])"
    have L: "timeout_loop k limit poll s st ?t = Some res"
      using assms s by (simp add: timeout_monitor_thread_def os_clock_def os_call_def Let_def)
    have "disciplined P tr (tr @ [Time (ClockGettime (Inr s))])" for P
      by (intro disciplined_events) simp
    from disciplined_trans [OF disciplined_logged(1) this] have t: "disciplined P tr ?t" for P .
    note R = timeout_loop_result [OF L]
    from disciplined_trans [OF disciplined_requests_mono [OF timeout_reasons_prefix [OF t] R] t]
    show ?thesis .
  qed
  then show "o_clock k tr = Inr start \<Longrightarrow>
      disciplined (requests (timeout_reasons k start (ucast limit * 1000) tr (snd res))) tr (snd res)" .
  show "disciplined (requests ?B) tr (snd res)"
  proof (cases "o_clock k tr")
    case (Inl e)
    have t: "disciplined P tr (tr @ [Time (ClockGettime (Inl e))])" for P
      by (intro disciplined_events) simp
    from Inl assms have "monitor_failed k
        (''timeout monitor could not read monotonic clock: '' @ os_strerror k e) st
        (tr @ [Time (ClockGettime (Inl e))]) = Some (fst res, snd res)"
      by (simp add: timeout_monitor_thread_def os_clock_def os_call_def)
    from disciplined_trans [OF monitor_failed_requests [OF this] t] show ?thesis by simp
  next
    case (Inr s)
    have "timeout_reasons k s (ucast limit * 1000) tr (snd res) \<subseteq> ?B"
      by (auto simp: timeout_reasons_def)
    from disciplined_requests_mono [OF this start [OF Inr]] show ?thesis .
  qed
qed

lemma memory_monitor_result:
  assumes "memory_monitor_thread k cgroup limit poll st tr = Some res"
  shows "disciplined (requests (memory_reasons k cgroup limit)) tr (snd res)"
  using assms disciplined_trans [OF memory_loop_result disciplined_logged(1)]
  by (simp add: memory_monitor_thread_def Let_def)

lemma cpu_monitor_result:
  assumes "cpu_monitor_thread k percent poll st tr = Some res"
  shows "disciplined (requests {SANDBOX_TERMINATION_MONITOR_ERROR}) tr (snd res)"
proof -
  have t: "disciplined P tr (tr @ [Time (Sysconf n)])" for P n
    by (intro disciplined_events) simp
  show ?thesis
  proof (cases "o_clk_tck k tr \<le> 0")
    case True
    with assms have "monitor_failed k ''CPU monitor could not determine clock ticks per second'' st
        (tr @ [Time (Sysconf (o_clk_tck k tr))]) = Some (fst res, snd res)"
      by (simp add: cpu_monitor_thread_def os_clk_tck_def os_call_def)
    from disciplined_trans [OF monitor_failed_requests [OF this] t] show ?thesis by simp
  next
    case False
    with assms obtain msg n where "cpu_loop k percent poll n None st
        (logger_info k msg (tr @ [Time (Sysconf (o_clk_tck k tr))])) = Some res"
      by (auto simp: cpu_monitor_thread_def os_clk_tck_def os_call_def Let_def)
    from disciplined_trans [OF cpu_loop_result [OF this] disciplined_trans [OF disciplined_logged(1) t]]
    show ?thesis .
  qed
qed

subsection \<open>Properties\<close>

text \<open>
  C33: monitors only look and ask, each for its own reasons. Whatever a run of any of the three
  threads does to the shared state, it does in sections that only look or request termination: the
  timeout monitor for a timeout or an error of its own; the memory monitor for an error or, on a
  machine on which a measurement can reach the limit, for the memory limit; the CPU monitor for an
  error only. So every one of them keeps to the step that the other threads of the controller rely on.
\<close>

theorem monitor_threads_guarantee:
  "(timeout_monitor_thread k limit poll st tr = Some res \<longrightarrow>
      disciplined monitor_step tr (snd res) \<and>
      disciplined (requests {SANDBOX_TERMINATION_MONITOR_ERROR, SANDBOX_TERMINATION_TIMEOUT}) tr (snd res)) \<and>
   (memory_monitor_thread k cgroup memory_limit poll st tr = Some res \<longrightarrow>
      disciplined monitor_step tr (snd res) \<and>
      disciplined (requests (memory_reasons k cgroup memory_limit)) tr (snd res)) \<and>
   (cpu_monitor_thread k percent poll st tr = Some res \<longrightarrow>
      disciplined monitor_step tr (snd res) \<and>
      disciplined (requests {SANDBOX_TERMINATION_MONITOR_ERROR}) tr (snd res))"
proof -
  have up: "disciplined (requests A) tr (snd res) \<Longrightarrow> A \<subseteq> monitor_reasons \<Longrightarrow>
      disciplined monitor_step tr (snd res)" for A
    by (erule disciplined_mono) (rule requests_monitor_step)
  have sub: "{SANDBOX_TERMINATION_MONITOR_ERROR, SANDBOX_TERMINATION_TIMEOUT} \<subseteq> monitor_reasons"
      "memory_reasons k cgroup memory_limit \<subseteq> monitor_reasons"
      "{SANDBOX_TERMINATION_MONITOR_ERROR} \<subseteq> monitor_reasons"
    by (auto simp: monitor_reasons_def memory_reasons_def)
  show ?thesis
    by (intro conjI impI) (erule up [OF timeout_monitor_result(1) sub(1)] up [OF memory_monitor_result sub(2)]
      up [OF cpu_monitor_result sub(3)] timeout_monitor_result(1) memory_monitor_result cpu_monitor_result)+
qed


text \<open>
  That millisecond is real: with a start half a millisecond into a second, the difference of the
  nanoseconds is negative and rounded towards zero, so a second counts as over after 999.5 ms.
\<close>

lemma elapsed_milliseconds_early:
  "elapsed_milliseconds \<lparr>tv_sec = 0, tv_nsec = 500000\<rparr> \<lparr>tv_sec = 1, tv_nsec = 0\<rparr> = 1000 \<and>
   ns_of \<lparr>tv_sec = 1, tv_nsec = 0\<rparr> - ns_of \<lparr>tv_sec = 0, tv_nsec = 500000\<rparr> = 999500000"
  by (simp add: elapsed_milliseconds_def ns_of_def signed_divide_int_def)

text \<open>
  C35: the monitors come to an end. When interruptions of sleep are bounded and, after some number of
  looks at the state, the workload is over or its termination requested, every one of the three
  threads returns: joining them cannot block for ever.
\<close>

theorem monitor_threads_return:
  assumes "finite_retries b k" and "stops_after n k"
  shows "total (timeout_monitor_thread k limit poll st tr) \<and>
    total (memory_monitor_thread k cgroup memory_limit poll st tr) \<and>
    total (cpu_monitor_thread k percent poll st tr)"
  unfolding timeout_monitor_thread_def memory_monitor_thread_def cpu_monitor_thread_def
  by (intro conjI total_rules timeout_loop_stops [OF assms] memory_loop_stops [OF assms]
      cpu_loop_stops [OF assms] monitor_failed_total)

text \<open>A machine on which an operator stops the workload after five looks.\<close>

definition demo_stop :: kernel where
  "demo_stop = demo_os\<lparr>o_others := (\<lambda>tr st. if 5 \<le> locks tr then workload_step st else st)\<rparr>"

lemma demo_stop_ok: "finite_retries 0 demo_stop" "stops_after 5 demo_stop"
  by (simp_all add: finite_retries_def stops_after_def demo_stop_def demo_os_def workload_step_def)

lemma monitor_threads_return_witness:
  "total (timeout_monitor_thread demo_stop 5 100 demo_running [])"
  using monitor_threads_return [OF demo_stop_ok] by blast

lemma monitor_threads_guarantee_witness:
  "\<exists>res. timeout_monitor_thread demo_stop 5 100 demo_running [] = Some res \<and>
     disciplined monitor_step [] (snd res)"
proof -
  have "total (timeout_monitor_thread demo_stop 5 100 demo_running [])"
    unfolding timeout_monitor_thread_def
    by (intro total_rules timeout_loop_stops [OF demo_stop_ok] monitor_failed_total)
  then obtain res where "timeout_monitor_thread demo_stop 5 100 demo_running [] = Some res"
    by (rule totalE)
  with monitor_threads_guarantee [of demo_stop 5 100 demo_running "[]" res no_cgroup 0 "\<lambda>_ _ _. []"]
  show ?thesis by blast
qed


end
