(* ===== verification/Supervisor.thy ===== *)
theory Supervisor
  imports Sandbox_Launch Monitor_Threads
begin

text \<open>
  The supervisor in \<^verbatim>\<open>Sandbox/Sandbox.c\<close>: it collects the children that have ended, finds out whether
  anything of the workload is left, and ends the workload when it must: SIGTERM, a time of grace,
  SIGKILL. A reason for termination comes from the operator, from a monitor through the shared state,
  or from a failure of its own.
\<close>

definition SUPERVISOR_POLL_MILLISECONDS :: u32 where
  "SUPERVISOR_POLL_MILLISECONDS = 50"

definition TERMINATION_GRACE_MILLISECONDS :: u32 where
  "TERMINATION_GRACE_MILLISECONDS = 1000"

definition FORCE_KILL_WAIT_MILLISECONDS :: u32 where
  "FORCE_KILL_WAIT_MILLISECONDS = 5000"

record WorkloadStatus =
  ws_leader_status :: nat
  ws_leader_status_available :: bool
  ws_reaped_processes :: u64

text \<open>The file has its own copy of \<^verbatim>\<open>sleep_milliseconds\<close>.\<close>

definition supervisor_sleep :: "kernel \<Rightarrow> u32 \<Rightarrow> trace \<Rightarrow> (errno option \<times> trace) option" where
  "supervisor_sleep k milliseconds tr = sleep_loop k (delay_of milliseconds) tr"

definition enable_child_subreaper :: "kernel \<Rightarrow> trace \<Rightarrow> int \<times> trace" where
  "enable_child_subreaper k tr =
     (case os_prctl k PR_SET_CHILD_SUBREAPER tr of
        (Some e, tr) \<Rightarrow>
          (-1, logger_error k (''PR_SET_CHILD_SUBREAPER failed: '' @ os_strerror k e) tr)
      | (None, tr) \<Rightarrow>
          (0, logger_info k ''controller registered as a Linux child subreaper'' tr))"

subsection \<open>Collecting children\<close>

text \<open>
  One child that was collected. The PID of the leader is read without the mutex: only
  \<^verbatim>\<open>sandbox_state_set_workload\<close> writes it, before there are other threads.
\<close>

definition record_child ::
    "kernel \<Rightarrow> pid \<Rightarrow> nat \<Rightarrow> SandboxState \<Rightarrow> WorkloadStatus \<Rightarrow> trace \<Rightarrow>
     SandboxState \<times> WorkloadStatus \<times> trace" where
  "record_child k reaped_pid status st ws tr =
     (let ws = ws\<lparr>ws_reaped_processes := ws_reaped_processes ws + 1\<rparr> in
      if reaped_pid = ss_child_pid st \<and> \<not> ws_leader_status_available ws
      then
        let ws = ws\<lparr>ws_leader_status := status, ws_leader_status_available := True\<rparr> in
        (case sandbox_state_mark_leader_exited k st tr of
           (_, st, tr) \<Rightarrow>
             (st, ws, logger_info k (''reaped original workload leader PID '' @ show_int reaped_pid) tr))
      else
        (st, ws, logger_info k (''reaped descendant workload PID '' @ show_int reaped_pid) tr))"

partial_function (option) reap_available_children ::
    "kernel \<Rightarrow> SandboxState \<Rightarrow> WorkloadStatus \<Rightarrow> trace \<Rightarrow>
     (int \<times> SandboxState \<times> WorkloadStatus \<times> trace) option" where
  "reap_available_children k st ws tr =
     (case os_waitpid k tr of
        (Inr (Reaped reaped_pid status), tr) \<Rightarrow>
          (case record_child k reaped_pid status st ws tr of
             (st, ws, tr) \<Rightarrow> reap_available_children k st ws tr)
      | (Inr None_Ready, tr) \<Rightarrow> Some (0, st, ws, tr)
      | (Inl e, tr) \<Rightarrow>
          if e = EINTR then reap_available_children k st ws tr
          else if e = ECHILD then Some (0, st, ws, tr)
          else Some (-1, st, ws, logger_error k (''waitpid(-1) failed: '' @ os_strerror k e) tr))"

declare reap_available_children.simps [code]

subsection \<open>Is anything left\<close>

text \<open>\<open>None\<close> is the code -1, \<open>Some alive\<close> the code 0 with \<^verbatim>\<open>*workload_alive\<close>.\<close>

definition note_workload ::
    "kernel \<Rightarrow> bool \<Rightarrow> SandboxState \<Rightarrow> trace \<Rightarrow> SandboxState \<times> trace" where
  "note_workload k workload_alive st tr =
     (if \<not> workload_alive
      then case sandbox_state_mark_workload_exited k st tr of (_, st, tr) \<Rightarrow> (st, tr)
      else (st, tr))"

definition look_for_workload ::
    "kernel \<Rightarrow> SandboxCgroup \<Rightarrow> SandboxStateSnapshot \<Rightarrow> SandboxState \<Rightarrow> trace \<Rightarrow>
     bool option \<times> SandboxState \<times> trace" where
  "look_for_workload k cgroup snapshot st tr =
     (if cg_active cgroup
      then case sandbox_cgroup_is_populated k cgroup tr of
        (Inl e, tr) \<Rightarrow>
          (None, st,
           logger_error k (''supervisor could not read cgroup membership: '' @ os_strerror k e) tr)
      | (Inr populated, tr) \<Rightarrow>
          (case note_workload k populated st tr of (st, tr) \<Rightarrow> (Some populated, st, tr))
      else case process_tree_sample k (ss_supervisor_pid snapshot) (ss_child_pid snapshot)
                  (ss_leader_alive snapshot) tr of
        (rc, sample, tr) \<Rightarrow>
          if rc \<noteq> 0
          then (None, st, logger_error k ''supervisor could not sample the workload process tree'' tr)
          else
            let workload_alive = 0 < ps_process_count sample in
            (case note_workload k workload_alive st tr of (st, tr) \<Rightarrow> (Some workload_alive, st, tr)))"

definition poll_workload ::
    "kernel \<Rightarrow> SandboxCgroup \<Rightarrow> SandboxState \<Rightarrow> WorkloadStatus \<Rightarrow> trace \<Rightarrow>
     (bool option \<times> SandboxState \<times> WorkloadStatus \<times> trace) option" where
  "poll_workload k cgroup st ws tr = do {
     (rc, st, ws, tr) \<leftarrow> reap_available_children k st ws tr;
     if rc \<noteq> 0 then Some (None, st, ws, tr)
     else case sandbox_state_snapshot k st tr of
       (None, st, tr) \<Rightarrow> Some (None, st, ws, tr)
     | (Some snapshot, st, tr) \<Rightarrow>
         case look_for_workload k cgroup snapshot st tr of
           (alive, st, tr) \<Rightarrow> Some (alive, st, ws, tr)
   }"

subsection \<open>Signals for the workload\<close>

definition signal_number :: "signal \<Rightarrow> nat" where
  "signal_number s =
     (case s of SIGHUP \<Rightarrow> 1 | SIGINT \<Rightarrow> 2 | SIGTERM \<Rightarrow> 15 | SIGPIPE \<Rightarrow> 13 | SIGKILL \<Rightarrow> 9)"

text \<open>Through the cgroup; \<open>False\<close> is a failure.\<close>

definition kill_cgroup ::
    "kernel \<Rightarrow> SandboxCgroup \<Rightarrow> signal \<Rightarrow> trace \<Rightarrow> (bool \<times> trace) option" where
  "kill_cgroup k cgroup sig tr =
     (if sig = SIGKILL \<and> cg_active cgroup
      then do {
        (r, tr) \<leftarrow> sandbox_cgroup_kill k cgroup tr;
        case r of
          None \<Rightarrow> Some (True, logger_warn k ''SIGKILL delivered atomically through cgroup.kill'' tr)
        | Some e \<Rightarrow> Some (False, logger_error k (''cgroup.kill failed: '' @ os_strerror k e) tr)
      }
      else Some (True, tr))"

text \<open>To the process group: whether it was signalled, and whether nothing went wrong.\<close>

definition kill_group :: "kernel \<Rightarrow> pid \<Rightarrow> signal \<Rightarrow> trace \<Rightarrow> bool \<times> bool \<times> trace" where
  "kill_group k pgid sig tr =
     (if 0 < pgid
      then case os_kill k (- pgid) sig tr of
        (None, tr) \<Rightarrow> (True, True, tr)
      | (Some e, tr) \<Rightarrow>
          if e \<noteq> ESRCH
          then (False, False,
                logger_error k (''signal '' @ show_nat (signal_number sig) @ '' delivery to PGID '' @
                                show_int pgid @ '' failed: '' @ os_strerror k e) tr)
          else (False, True, tr)
      else (False, True, tr))"

text \<open>To the members one by one: how many were signalled, and whether nothing went wrong.\<close>

definition spared :: "SandboxStateSnapshot \<Rightarrow> bool \<Rightarrow> ProcessTreeProcess \<Rightarrow> bool" where
  "spared snapshot group_signalled process \<longleftrightarrow>
     pt_pid process \<le> 0 \<or> pt_pid process = ss_supervisor_pid snapshot \<or>
     group_signalled \<and> pt_process_group_id process = ss_child_process_group_id snapshot"

fun kill_members ::
    "kernel \<Rightarrow> SandboxStateSnapshot \<Rightarrow> bool \<Rightarrow> signal \<Rightarrow> ProcessTreeProcess list \<Rightarrow> nat \<Rightarrow> bool \<Rightarrow>
     trace \<Rightarrow> nat \<times> bool \<times> trace" where
  "kill_members k snapshot group_signalled sig [] signalled_processes ok tr =
     (signalled_processes, ok, tr)"
| "kill_members k snapshot group_signalled sig (process # processes) signalled_processes ok tr =
     (if spared snapshot group_signalled process
      then kill_members k snapshot group_signalled sig processes signalled_processes ok tr
      else case os_kill k (pt_pid process) sig tr of
        (None, tr) \<Rightarrow>
          kill_members k snapshot group_signalled sig processes (signalled_processes + 1) ok tr
      | (Some e, tr) \<Rightarrow>
          if e \<noteq> ESRCH
          then kill_members k snapshot group_signalled sig processes signalled_processes False
                 (logger_error k (''signal '' @ show_nat (signal_number sig) @
                    '' delivery to workload PID '' @ show_int (pt_pid process) @ '' failed: '' @
                    os_strerror k e) tr)
          else kill_members k snapshot group_signalled sig processes signalled_processes ok tr)"

definition signal_processes ::
    "kernel \<Rightarrow> SandboxStateSnapshot \<Rightarrow> signal \<Rightarrow> bool \<Rightarrow> trace \<Rightarrow> int \<times> trace" where
  "signal_processes k snapshot sig ok tr =
     (case kill_group k (ss_child_process_group_id snapshot) sig tr of
        (group_signalled, group_ok, tr) \<Rightarrow>
          case process_tree_sample k (ss_supervisor_pid snapshot) (ss_child_pid snapshot)
                 (ss_leader_alive snapshot) tr of
            (rc, sample, tr) \<Rightarrow>
              if rc \<noteq> 0
              then (-1, logger_error k (''could not collect process tree before signal '' @
                                        show_nat (signal_number sig)) tr)
              else case kill_members k snapshot group_signalled sig (ps_processes sample) 0
                          (ok \<and> group_ok) tr of
                (signalled_processes, ok, tr) \<Rightarrow>
                  (if ok then 0 else -1,
                   logger_warn k
                     (''signal '' @ show_nat (signal_number sig) @ '' delivered to workload tree: PGID='' @
                      show_int (ss_child_process_group_id snapshot) @ '' discovered_processes='' @
                      show_nat (ps_process_count sample) @ '' individually_signalled='' @
                      show_nat signalled_processes) tr))"

definition signal_workload ::
    "kernel \<Rightarrow> SandboxCgroup \<Rightarrow> signal \<Rightarrow> SandboxState \<Rightarrow> trace \<Rightarrow>
     (int \<times> SandboxState \<times> trace) option" where
  "signal_workload k cgroup sig st tr =
     (case sandbox_state_snapshot k st tr of
        (None, st, tr) \<Rightarrow> Some (-1, st, tr)
      | (Some snapshot, st, tr) \<Rightarrow> do {
          (ok, tr) \<leftarrow> kill_cgroup k cgroup sig tr;
          case signal_processes k snapshot sig ok tr of (result, tr) \<Rightarrow> Some (result, st, tr)
        })"

subsection \<open>Termination\<close>

definition kill_again ::
    "kernel \<Rightarrow> SandboxCgroup \<Rightarrow> bool \<Rightarrow> SandboxState \<Rightarrow> trace \<Rightarrow> (SandboxState \<times> trace) option" where
  "kill_again k cgroup repeat_sigkill st tr =
     (if repeat_sigkill
      then do {
        (_, st, tr) \<leftarrow> signal_workload k cgroup SIGKILL st tr;
        Some (st, tr)
      }
      else Some (st, tr))"

partial_function (option) wait_for_workload_exit ::
    "kernel \<Rightarrow> SandboxCgroup \<Rightarrow> u32 \<Rightarrow> bool \<Rightarrow> u32 \<Rightarrow> SandboxState \<Rightarrow> WorkloadStatus \<Rightarrow> trace \<Rightarrow>
     (int \<times> SandboxState \<times> WorkloadStatus \<times> trace) option" where
  "wait_for_workload_exit k cgroup timeout_milliseconds repeat_sigkill waited_milliseconds st ws tr =
     do {
       (alive, st, ws, tr) \<leftarrow> poll_workload k cgroup st ws tr;
       case alive of
         None \<Rightarrow> Some (-1, st, ws, tr)
       | Some workload_alive \<Rightarrow>
           if \<not> workload_alive then Some (0, st, ws, tr)
           else do {
             (st, tr) \<leftarrow> kill_again k cgroup repeat_sigkill st tr;
             if timeout_milliseconds \<le> waited_milliseconds then Some (1, st, ws, tr)
             else do {
               (slept, tr) \<leftarrow> supervisor_sleep k SUPERVISOR_POLL_MILLISECONDS tr;
               case slept of
                 Some e \<Rightarrow>
                   Some (-1, st, ws,
                         logger_error k (''workload wait sleep failed: '' @ os_strerror k e) tr)
               | None \<Rightarrow>
                   wait_for_workload_exit k cgroup timeout_milliseconds repeat_sigkill
                     (waited_milliseconds + SUPERVISOR_POLL_MILLISECONDS) st ws tr
             }
           }
     }"

declare wait_for_workload_exit.simps [code]

definition terminate_workload ::
    "kernel \<Rightarrow> SandboxCgroup \<Rightarrow> SandboxTerminationReason \<Rightarrow> SandboxState \<Rightarrow> WorkloadStatus \<Rightarrow> trace \<Rightarrow>
     (int \<times> SandboxState \<times> WorkloadStatus \<times> trace) option" where
  "terminate_workload k cgroup reason st ws tr = do {
     let tr = logger_warn k (''termination policy activated for workload tree: '' @
                             sandbox_termination_reason_name reason) tr;
     (_, st, tr) \<leftarrow> signal_workload k cgroup SIGTERM st tr;
     let tr = logger_warn k (''waiting '' @ show_nat (unat TERMINATION_GRACE_MILLISECONDS) @
                             '' ms for workload-wide SIGTERM shutdown'') tr;
     (wait_result, st, ws, tr) \<leftarrow>
       wait_for_workload_exit k cgroup TERMINATION_GRACE_MILLISECONDS False 0 st ws tr;
     if wait_result = 0
     then Some (0, st, ws,
                logger_info k ''entire workload exited during the SIGTERM grace period'' tr)
     else do {
       let tr = logger_warn k ''workload descendants remain; escalating tree to SIGKILL'' tr;
       (_, st, tr) \<leftarrow> signal_workload k cgroup SIGKILL st tr;
       (wait_result, st, ws, tr) \<leftarrow>
         wait_for_workload_exit k cgroup FORCE_KILL_WAIT_MILLISECONDS True 0 st ws tr;
       if wait_result = 0
       then Some (0, st, ws, logger_info k ''entire workload tree terminated and reaped'' tr)
       else Some (-1, st, ws,
                  logger_error k ''unable to confirm termination of the entire workload tree'' tr)
     }
   }"

subsection \<open>Supervision\<close>

text \<open>The code, \<^verbatim>\<open>*termination_reason\<close>, and the rest. Ending with a reason:\<close>

definition terminate_for ::
    "kernel \<Rightarrow> SandboxCgroup \<Rightarrow> SandboxTerminationReason \<Rightarrow> SandboxState \<Rightarrow> WorkloadStatus \<Rightarrow> trace \<Rightarrow>
     (int \<times> SandboxTerminationReason \<times> SandboxState \<times> WorkloadStatus \<times> trace) option" where
  "terminate_for k cgroup reason st ws tr = do {
     (rc, st, ws, tr) \<leftarrow> terminate_workload k cgroup reason st ws tr;
     Some (rc, reason, st, ws, tr)
   }"

partial_function (option) supervise_workload ::
    "kernel \<Rightarrow> SandboxCgroup \<Rightarrow> SandboxState \<Rightarrow> WorkloadStatus \<Rightarrow> trace \<Rightarrow>
     (int \<times> SandboxTerminationReason \<times> SandboxState \<times> WorkloadStatus \<times> trace) option" where
  "supervise_workload k cgroup st ws tr =
     (case os_signal k tr of
        (operator_signal_number, tr) \<Rightarrow>
          if operator_signal_number \<noteq> 0
          then
            let (operator_signal_number, tr) = os_signal k tr;
                tr = logger_warn k (''controller received operator signal '' @
                                    show_int operator_signal_number) tr;
                (_, st, tr) =
                  sandbox_state_request_termination k SANDBOX_TERMINATION_OPERATOR_SIGNAL st tr
            in terminate_for k cgroup SANDBOX_TERMINATION_OPERATOR_SIGNAL st ws tr
          else do {
            (alive, st, ws, tr) \<leftarrow> poll_workload k cgroup st ws tr;
            case alive of
              None \<Rightarrow> terminate_for k cgroup SANDBOX_TERMINATION_SUPERVISOR_ERROR st ws tr
            | Some workload_alive \<Rightarrow>
                if \<not> workload_alive then Some (0, SANDBOX_TERMINATION_NONE, st, ws, tr)
                else case sandbox_state_snapshot k st tr of
                  (None, st, tr) \<Rightarrow>
                    terminate_for k cgroup SANDBOX_TERMINATION_SUPERVISOR_ERROR st ws tr
                | (Some snapshot, st, tr) \<Rightarrow>
                    if ss_termination_requested snapshot
                    then terminate_for k cgroup (ss_termination_reason snapshot) st ws tr
                    else do {
                      (slept, tr) \<leftarrow> supervisor_sleep k SUPERVISOR_POLL_MILLISECONDS tr;
                      case slept of
                        Some e \<Rightarrow>
                          terminate_for k cgroup SANDBOX_TERMINATION_SUPERVISOR_ERROR st ws
                            (logger_error k (''supervisor sleep failed: '' @ os_strerror k e) tr)
                      | None \<Rightarrow> supervise_workload k cgroup st ws tr
                    }
          })"

declare supervise_workload.simps [code]

subsection \<open>The report\<close>

text \<open>The macros of \<^verbatim>\<open>sys/wait.h\<close> on a status, and \<^verbatim>\<open>%x\<close>.\<close>

definition WIFEXITED :: "nat \<Rightarrow> bool" where
  "WIFEXITED status \<longleftrightarrow> status mod 128 = 0"

definition WEXITSTATUS :: "nat \<Rightarrow> nat" where
  "WEXITSTATUS status = status div 256 mod 256"

definition WIFSIGNALED :: "nat \<Rightarrow> bool" where
  "WIFSIGNALED status \<longleftrightarrow> 0 < status mod 128 \<and> status mod 128 < 127"

definition WTERMSIG :: "nat \<Rightarrow> nat" where
  "WTERMSIG status = status mod 128"

fun show_hex :: "nat \<Rightarrow> string" where
  "show_hex n =
     (let digit = [''0123456789abcdef'' ! (n mod 16)] in
      if n < 16 then digit else show_hex (n div 16) @ digit)"

declare show_hex.simps [simp del]

definition report_child_status ::
    "kernel \<Rightarrow> nat \<Rightarrow> SandboxTerminationReason \<Rightarrow> trace \<Rightarrow> int \<times> trace" where
  "report_child_status k child_status termination_reason tr =
     (if WIFEXITED child_status
      then
        let exit_code = WEXITSTATUS child_status in
        if exit_code = 0 \<and> termination_reason = SANDBOX_TERMINATION_NONE
        then (EXIT_SUCCESS,
              logger_info k
                ''final workload status: normal leader exit (code=0) and no descendants remain'' tr)
        else (EXIT_FAILURE,
              logger_warn k
                (''final workload status: leader exit code='' @ show_nat exit_code @ '' reason='' @
                 sandbox_termination_reason_name termination_reason) tr)
      else if WIFSIGNALED child_status
      then (EXIT_FAILURE,
            logger_warn k
              (''final workload status: leader signal='' @ show_nat (WTERMSIG child_status) @ '' reason='' @
               sandbox_termination_reason_name termination_reason) tr)
      else (EXIT_FAILURE,
            logger_error k
              (''final workload status: unrecognized waitpid status 0x'' @ show_hex child_status) tr))"

subsection \<open>What a supervisor may do\<close>

text \<open>A child that was collected, as the bookkeeping sees it: the first status of the leader counts.\<close>

definition collect :: "pid \<Rightarrow> pid \<times> nat \<Rightarrow> WorkloadStatus \<Rightarrow> WorkloadStatus" where
  "collect leader child ws =
     (let ws = ws\<lparr>ws_reaped_processes := ws_reaped_processes ws + 1\<rparr> in
      if fst child = leader \<and> \<not> ws_leader_status_available ws
      then ws\<lparr>ws_leader_status := snd child, ws_leader_status_available := True\<rparr> else ws)"

text \<open>Events that neither touch the shared state nor another process.\<close>

definition plain :: "sandbox_event \<Rightarrow> bool" where
  "plain e \<longleftrightarrow> io_event e \<or> lock_noise e \<or> (\<exists>n. e = Sync (ReadSignal n)) \<or>
     e = Proc (Waitpid (Inr None_Ready)) \<or> (\<exists>err. e = Proc (Waitpid (Inl err)))"

lemma plain_simps [simp]:
  "plain (Log l)" "plain (Time t)" "plain (Proc (GetPid p))" "plain (Sync (ReadSignal n))"
  "plain (Sync (MutexLock (Inl e)))" "plain (Proc (Waitpid (Inr None_Ready)))"
  "plain (Proc (Waitpid (Inl e)))" "\<not> plain (Proc (Kill p sig res))" "\<not> plain (Proc (Waitpid (Inr (Reaped q m))))"
  "\<not> plain (Sync (MutexLock (Inr s)))" "\<not> plain (Sync (MutexUnlock s u))" "\<not> plain (Proc (Fork child))"
  "plain (File f) \<longleftrightarrow> (\<forall>path m. f \<noteq> Mkdir path m None) \<and> (\<forall>path r. f \<noteq> Rmdir path r)"
  by (auto simp: plain_def lock_noise_def io_event_def [of "Proc x" for x] io_event_def [of "Sync x" for x])

lemma plain_reads: "read_event e \<Longrightarrow> plain e \<and> \<not> writes_file e"
  by (simp add: plain_def read_event_def)

lemma noise_reads: "lock_noise e \<Longrightarrow> plain e \<and> \<not> writes_file e"
  using log_only_reads plain_reads by (auto simp: plain_def lock_noise_def writes_file_def)

lemma plain_io: "io_event e \<Longrightarrow> plain e" and plain_noise: "lock_noise e \<Longrightarrow> plain e"
  and plain_log: "log_only e \<Longrightarrow> plain e"
  by (simp_all add: plain_def log_only_io)

text \<open>A look that found nothing of the workload, from the trace \<open>t\<close> to the trace \<open>tr\<close>.\<close>

definition found_empty :: "kernel \<Rightarrow> SandboxCgroup \<Rightarrow> SandboxState \<Rightarrow> trace \<Rightarrow> trace \<Rightarrow> bool" where
  "found_empty k cgroup st t tr \<longleftrightarrow>
     (if cg_active cgroup then sandbox_cgroup_is_populated k cgroup t = (Inr False, tr)
      else \<exists>leader_alive sample.
        process_tree_sample k (ss_supervisor_pid st) (ss_child_pid st) leader_alive t = (0, sample, tr) \<and>
        ps_process_count sample = 0)"

text \<open>
  The steps of the supervisor, each with the condition under which it may take it: it looks at the
  state at any time; it passes on a request when it has read an operator's signal; it declares the
  leader dead when it has collected its status and the workload dead right behind a look that found
  nothing; it sends signals out of \<open>A\<close> to the process group and to the members of a sample of the
  workload, but never to itself; it collects children.
\<close>

inductive supervision :: "kernel \<Rightarrow> SandboxCgroup \<Rightarrow> signal set \<Rightarrow>
    SandboxState \<times> WorkloadStatus \<times> trace \<Rightarrow>
    SandboxState \<times> WorkloadStatus \<times> trace \<Rightarrow> bool" for k cgroup A c where
  supervision_refl: "supervision k cgroup A c c"
| supervision_event: "supervision k cgroup A c (st, ws, tr) \<Longrightarrow> plain e \<Longrightarrow>
    (writes_file e \<Longrightarrow> SIGKILL \<in> A) \<Longrightarrow> supervision k cgroup A c (st, ws, tr @ [e])"
| supervision_look: "supervision k cgroup A c (st, ws, tr) \<Longrightarrow> monitor_step\<^sup>*\<^sup>* st s \<Longrightarrow>
    supervision k cgroup A c (s, ws, tr @ [Sync (MutexLock (Inr s)), Sync (MutexUnlock s u)])"
| supervision_request: "supervision k cgroup A c (st, ws, tr) \<Longrightarrow> monitor_step\<^sup>*\<^sup>* st s \<Longrightarrow>
    Sync (ReadSignal n) \<in> set tr \<Longrightarrow> n \<noteq> 0 \<Longrightarrow> s' = request_step SANDBOX_TERMINATION_OPERATOR_SIGNAL s \<Longrightarrow>
    supervision k cgroup A c (s', ws, tr @ [Sync (MutexLock (Inr s)), Sync (MutexUnlock s' u)])"
| supervision_leader: "supervision k cgroup A c (st, ws, tr) \<Longrightarrow> monitor_step\<^sup>*\<^sup>* st s \<Longrightarrow>
    ws_leader_status_available ws \<Longrightarrow> s' = leader_step s \<Longrightarrow>
    supervision k cgroup A c (s', ws, tr @ [Sync (MutexLock (Inr s)), Sync (MutexUnlock s' u)])"
| supervision_workload: "supervision k cgroup A c (st, ws, tr) \<Longrightarrow> monitor_step\<^sup>*\<^sup>* st s \<Longrightarrow>
    found_empty k cgroup st t tr \<Longrightarrow> s' = workload_step s \<Longrightarrow>
    supervision k cgroup A c (s', ws, tr @ [Sync (MutexLock (Inr s)), Sync (MutexUnlock s' u)])"
| supervision_group: "supervision k cgroup A c (st, ws, tr) \<Longrightarrow> 0 < ss_child_process_group_id st \<Longrightarrow>
    sig \<in> A \<Longrightarrow> supervision k cgroup A c (st, ws, tr @ [Proc (Kill (- ss_child_process_group_id st) sig r)])"
| supervision_member: "supervision k cgroup A c (st, ws, tr) \<Longrightarrow>
    process_tree_sample k (ss_supervisor_pid st) (ss_child_pid st) a t1 = (0, sample, t2) \<Longrightarrow>
    tr = t2 @ ev \<Longrightarrow> p \<in> set (ps_processes sample) \<Longrightarrow>
    0 < pt_pid p \<Longrightarrow> pt_pid p \<noteq> ss_supervisor_pid st \<Longrightarrow>
    sig \<in> A \<Longrightarrow> supervision k cgroup A c (st, ws, tr @ [Proc (Kill (pt_pid p) sig r)])"
| supervision_child: "supervision k cgroup A c (st, ws, tr) \<Longrightarrow>
    supervision k cgroup A c (st, collect (ss_child_pid st) (p, n) ws, tr @ [Proc (Waitpid (Inr (Reaped p n)))])"

inductive_cases supervisionE: "supervision k cgroup A c c'"

lemma supervision_trans:
  "supervision k cgroup A c2 c3 \<Longrightarrow> supervision k cgroup A c1 c2 \<Longrightarrow> supervision k cgroup A c1 c3"
  by (induction rule: supervision.induct) (blast intro: supervision.intros)+

lemma supervision_events:
  "list_all (\<lambda>e. plain e \<and> (writes_file e \<longrightarrow> SIGKILL \<in> A)) ev \<Longrightarrow>
   supervision k cgroup A (st, ws, tr) (st, ws, tr @ ev)"
proof (induction ev rule: rev_induct)
  case Nil
  show ?case by (simp add: supervision_refl)
next
  case (snoc e ev)
  then have "supervision k cgroup A (st, ws, tr) (st, ws, tr @ ev)" and "plain e"
      and "writes_file e \<Longrightarrow> SIGKILL \<in> A" by simp_all
  from supervision_event [OF this] show ?case by simp
qed

lemma supervision_plain:
  "extends (\<lambda>e. plain e \<and> (writes_file e \<longrightarrow> SIGKILL \<in> A)) tr tr' \<Longrightarrow>
   supervision k cgroup A (st, ws, tr) (st, ws, tr')"
  by (erule extendsE) (simp add: supervision_events)

lemma supervision_io:
  "extends io_event tr tr' \<Longrightarrow> SIGKILL \<in> A \<Longrightarrow> supervision k cgroup A (st, ws, tr) (st, ws, tr')"
  by (intro supervision_plain) (erule extends_mono, simp add: plain_io)

lemma supervision_reads:
  "extends read_event tr tr' \<Longrightarrow> supervision k cgroup A (st, ws, tr) (st, ws, tr')"
  by (intro supervision_plain) (erule extends_mono, simp add: plain_reads)

lemma supervision_noise:
  "extends lock_noise tr tr' \<Longrightarrow> supervision k cgroup A (st, ws, tr) (st, ws, tr')"
  by (intro supervision_plain) (erule extends_mono, simp add: noise_reads)

lemma supervision_quiet:
  "extends log_only tr tr' \<Longrightarrow> supervision k cgroup A (st, ws, tr) (st, ws, tr')"
  by (intro supervision_reads) (erule extends_mono, rule log_only_reads)

lemma supervision_log:
  "supervision k cgroup A (st, ws, tr) (st, ws, logger_info k msg tr)"
  "supervision k cgroup A (st, ws, tr) (st, ws, logger_warn k msg tr)"
  "supervision k cgroup A (st, ws, tr) (st, ws, logger_error k msg tr)"
  by (rule supervision_quiet, rule info.log_extends warn.log_extends error.log_extends)+

text \<open>The invariants, by induction over the steps.\<close>

fun reaped_child :: "sandbox_event \<Rightarrow> (pid \<times> nat) list" where
  "reaped_child (Proc (Waitpid (Inr (Reaped p n)))) = [(p, n)]"
| "reaped_child e = []"

definition reaped_children :: "trace \<Rightarrow> (pid \<times> nat) list" where
  "reaped_children tr = concat (map reaped_child tr)"

lemma reaped_children_simps [simp]:
  "reaped_children [] = []" "reaped_children (tr @ ev) = reaped_children tr @ reaped_children ev"
  "reaped_children (e # tr) = reaped_child e @ reaped_children tr"
  by (simp_all add: reaped_children_def)

lemma plain_no_child: "plain e \<Longrightarrow> reaped_child e = []"
  by (cases e rule: reaped_child.cases) simp_all

lemma plain_no_section: "plain e \<Longrightarrow> \<not> section_event e"
  by (auto simp: plain_def io_event_no_section lock_noise_no_section)

lemma supervision_system:
  assumes "supervision k cgroup A c c'"
  shows "system_step\<^sup>*\<^sup>* (fst c) (fst c') \<and> disciplined system_step (snd (snd c)) (snd (snd c'))"
  using assms
proof (induction rule: supervision.induct)
  case (supervision_event st ws tr e)
  then show ?case
    using disciplined_other [OF _ plain_no_section] by simp
next
  case (supervision_look st ws tr s u)
  moreover have "system_step s s" by (intro system_monitor monitor_looks)
  ultimately show ?case
    using monitor_steps [of st s] by (auto intro: disciplined_section)
next
  case (supervision_request st ws tr s n s' u)
  then show ?case
    using monitor_steps [of st s] operator_request [of s]
    by (auto intro: disciplined_section rtranclp.rtrancl_into_rtrancl)
next
  case (supervision_leader st ws tr s s' u)
  then show ?case
    using monitor_steps [of st s] leader_exits [of s]
    by (auto intro: disciplined_section rtranclp.rtrancl_into_rtrancl)
next
  case (supervision_workload st ws tr s t s' u)
  then show ?case
    using monitor_steps [of st s] workload_exits [of s]
    by (auto intro: disciplined_section rtranclp.rtrancl_into_rtrancl)
next
  case (supervision_group st ws tr sig r)
  then show ?case by (auto intro: disciplined_other)
next
  case (supervision_member st ws tr a t1 sample t2 ev p sig r)
  from supervision_member.IH show ?case
    using disciplined_other [of system_step "snd (snd c)" tr "Proc (Kill (pt_pid p) sig r)"] by simp
next
  case (supervision_child st ws tr p n)
  then show ?case by (auto intro: disciplined_other)
qed simp

lemma supervision_settled:
  assumes "supervision k cgroup A (st, ws, tr) (st', ws', tr')"
  shows "settled st st'" and "\<exists>ev. tr' = tr @ ev"
  using supervision_system [OF assms] system_steps_ok disciplined_prefix by auto

lemma supervision_bookkeeping:
  assumes "supervision k cgroup A c c'"
  shows "\<exists>children. reaped_children (snd (snd c')) = reaped_children (snd (snd c)) @ children \<and>
    fst (snd c') = fold (collect (ss_child_pid (fst c))) children (fst (snd c))"
  using assms
proof (induction rule: supervision.induct)
  case (supervision_event st ws tr e)
  then show ?case by (simp add: plain_no_child)
next
  case (supervision_child st ws tr p n)
  obtain children where "reaped_children tr = reaped_children (snd (snd c)) @ children"
      "ws = fold (collect (ss_child_pid (fst c))) children (fst (snd c))"
    using supervision_child.IH by auto
  moreover have "ss_child_pid st = ss_child_pid (fst c)"
    using supervision_settled(1) [of k cgroup A "fst c" "fst (snd c)" "snd (snd c)"] supervision_child.hyps
    by (simp add: settled_def)
  ultimately show ?case by (intro exI [of _ "children @ [(p, n)]"]) simp
qed simp_all

lemma supervision_mono:
  assumes "supervision k cgroup A c c'" and "A \<subseteq> B"
  shows "supervision k cgroup B c c'"
  using assms(1)
proof (induction rule: supervision.induct)
  case (supervision_event st ws tr e)
  with assms(2) show ?case by (intro supervision.supervision_event) auto
next
  case (supervision_group st ws tr sig r)
  with assms(2) show ?case by (intro supervision.supervision_group) auto
next
  case (supervision_member st ws tr a t1 sample t2 ev p sig r)
  then show ?case
    using assms(2) supervision.supervision_member [of k cgroup B c st ws tr a t1 sample t2 ev p sig r] by blast
qed (blast intro: supervision.intros)+

text \<open>The signals that were sent: to whom, and which.\<close>

fun sent_signal :: "sandbox_event \<Rightarrow> (pid \<times> signal) list" where
  "sent_signal (Proc (Kill p sig r)) = [(p, sig)]"
| "sent_signal e = []"

definition kills :: "trace \<Rightarrow> (pid \<times> signal) list" where
  "kills tr = concat (map sent_signal tr)"

lemma kills_simps [simp]:
  "kills [] = []" "kills (tr @ ev) = kills tr @ kills ev" "kills (e # tr) = sent_signal e @ kills tr"
  by (simp_all add: kills_def)

lemma plain_no_kill: "plain e \<Longrightarrow> sent_signal e = []"
  by (cases e rule: sent_signal.cases) simp_all

lemma plain_kills: "extends plain tr tr' \<Longrightarrow> kills tr' = kills tr"
proof (erule extendsE)
  fix ev assume "tr' = tr @ ev" and "list_all plain ev"
  moreover from this(2) have "kills ev = []" by (induction ev) (simp_all add: plain_no_kill)
  ultimately show ?thesis by simp
qed

lemma supervision_kills:
  assumes "supervision k cgroup A c c'"
  shows "\<exists>sent. kills (snd (snd c')) = kills (snd (snd c)) @ sent \<and> snd ` set sent \<subseteq> A"
  using assms
proof (induction rule: supervision.induct)
  case (supervision_event st ws tr e)
  then show ?case by (simp add: plain_no_kill)
next
  case (supervision_group st ws tr sig r)
  then obtain sent where "kills tr = kills (snd (snd c)) @ sent" "snd ` set sent \<subseteq> A" by auto
  with supervision_group.hyps show ?case
    by (intro exI [of _ "sent @ [(- ss_child_process_group_id st, sig)]"]) simp
next
  case (supervision_member st ws tr a t1 sample t2 ev p sig r)
  then obtain sent where "kills tr = kills (snd (snd c)) @ sent" "snd ` set sent \<subseteq> A" by auto
  with \<open>sig \<in> A\<close> show ?case
    by (intro exI [of _ "sent @ [(pt_pid p, sig)]"]) simp
qed simp_all

text \<open>A signal that the kernel refused to a process that exists.\<close>

fun failed_kill :: "sandbox_event \<Rightarrow> bool" where
  "failed_kill (Proc (Kill p sig r)) \<longleftrightarrow> r \<noteq> None \<and> r \<noteq> Some ESRCH"
| "failed_kill e \<longleftrightarrow> False"

lemma plain_no_failure: "plain e \<Longrightarrow> \<not> failed_kill e"
  by (cases e rule: failed_kill.cases) simp_all

lemma no_failure_plain: "extends plain tr tr' \<Longrightarrow> extends (\<lambda>e. \<not> failed_kill e) tr tr'"
  by (erule extends_mono) (rule plain_no_failure)

lemma no_kill_in: "kills ev = [] \<Longrightarrow> Proc (Kill p sig r) \<notin> set ev"
  by (induction ev) auto

subsection \<open>The code keeps to these steps\<close>

lemma supervision_snapshot:
  assumes "sandbox_state_snapshot k st tr = (r, st', tr')" and "rely monitor_step k"
  shows "supervision k cgroup A (st, ws, tr) (st', ws, tr')"
  using assms(1)
proof (cases rule: snapshot.section_cases)
  case no_lock
  then show ?thesis by (simp add: supervision_noise)
next
  case (locked u)
  show ?thesis
    unfolding locked(1)
    by (rule supervision_trans [OF supervision_quiet [OF locked(2) [unfolded locked(1)]]
        supervision_look [OF supervision_refl relyD [OF assms(2)]]])
qed

lemma supervision_operator:
  assumes "sandbox_state_request_termination k SANDBOX_TERMINATION_OPERATOR_SIGNAL st tr = (r, st', tr')"
    and "rely monitor_step k" and "Sync (ReadSignal n) \<in> set tr" and "n \<noteq> 0"
  shows "supervision k cgroup A (st, ws, tr) (st', ws, tr')"
  using assms(1)
proof (cases rule: request.section_cases)
  case no_lock
  then show ?thesis by (simp add: supervision_noise)
next
  case (locked u)
  show ?thesis
    by (rule supervision_trans [OF supervision_quiet [OF locked(2)]
        supervision_request [OF supervision_refl relyD [OF assms(2)] assms(3,4) locked(1)]])
qed

lemma supervision_mark_leader:
  assumes "sandbox_state_mark_leader_exited k st tr = (r, st', tr')"
    and "rely monitor_step k" and "ws_leader_status_available ws"
  shows "supervision k cgroup A (st, ws, tr) (st', ws, tr')"
  using assms(1)
proof (cases rule: mark_leader.section_cases)
  case no_lock
  then show ?thesis by (simp add: supervision_noise)
next
  case (locked u)
  show ?thesis
    by (rule supervision_trans [OF supervision_quiet [OF locked(2)]
        supervision_leader [OF supervision_refl relyD [OF assms(2)] assms(3) locked(1)]])
qed

lemma supervision_mark_workload:
  assumes "sandbox_state_mark_workload_exited k st tr = (r, st', tr')"
    and "rely monitor_step k" and "found_empty k cgroup st t tr"
  shows "supervision k cgroup A (st, ws, tr) (st', ws, tr')"
  using assms(1)
proof (cases rule: mark_workload.section_cases)
  case no_lock
  then show ?thesis by (simp add: supervision_noise)
next
  case (locked u)
  show ?thesis
    by (rule supervision_trans [OF supervision_quiet [OF locked(2)]
        supervision_workload [OF supervision_refl relyD [OF assms(2)] assms(3) locked(1)]])
qed

lemma supervision_record_child:
  assumes "record_child k p n st ws (tr @ [Proc (Waitpid (Inr (Reaped p n)))]) = (st', ws', tr')"
    and "rely monitor_step k"
  shows "supervision k cgroup A (st, ws, tr) (st', ws', tr')"
proof -
  let ?t = "tr @ [Proc (Waitpid (Inr (Reaped p n)))]"
  let ?ws = "collect (ss_child_pid st) (p, n) ws"
  have first: "supervision k cgroup A (st, ws, tr) (st, ?ws, ?t)"
    by (rule supervision_child [OF supervision_refl])
  have "supervision k cgroup A (st, ?ws, ?t) (st', ws', tr')"
  proof (cases "p = ss_child_pid st \<and> \<not> ws_leader_status_available ws")
    case True
    obtain rc s1 t1 where M: "sandbox_state_mark_leader_exited k st ?t = (rc, s1, t1)"
      by (metis prod_cases3)
    have ws: "ws_leader_status_available ?ws" using True by (simp add: collect_def)
    have "st' = s1" "ws' = ?ws" "\<exists>msg. tr' = logger_info k msg t1"
      using assms(1) True M by (auto simp: record_child_def collect_def Let_def)
    then show ?thesis
      using supervision_trans [OF supervision_log(1) supervision_mark_leader [OF M assms(2) ws]] by auto
  next
    case False
    then have "st' = st" "ws' = ?ws" "\<exists>msg. tr' = logger_info k msg ?t"
      using assms(1) by (auto simp: record_child_def collect_def Let_def)
    then show ?thesis using supervision_log(1) by auto
  qed
  from supervision_trans [OF this first] show ?thesis .
qed

lemma reap_available_children_supervision:
  assumes "reap_available_children k st ws tr = Some res" and "rely monitor_step k"
  shows "supervision k cgroup A (st, ws, tr) (snd res)"
proof -
  have "rely monitor_step k \<longrightarrow> supervision k cgroup A (st, ws, tr) (snd res)"
  proof (rule reap_available_children.raw_induct [where P = "\<lambda>k st ws tr res.
      rely monitor_step k \<longrightarrow> supervision k cgroup A (st, ws, tr) (snd res)", OF _ assms(1)], goal_cases)
    case (1 f k st ws tr res)
    note IH = 1(1) and eq = 1(2)
    let ?t = "tr @ [Proc (Waitpid (o_waitpid k tr))]"
    show ?case
    proof (intro impI)
      assume R: "rely monitor_step k"
      show "supervision k cgroup A (st, ws, tr) (snd res)"
      proof (cases "\<exists>p n. o_waitpid k tr = Inr (Reaped p n)")
        case True
        then obtain p n where W: "o_waitpid k tr = Inr (Reaped p n)" by blast
        obtain st1 ws1 t1 where C: "record_child k p n st ws ?t = (st1, ws1, t1)"
          by (metis prod_cases3)
        from eq W C have "f k st1 ws1 t1 = Some res"
          by (simp add: os_waitpid_def os_call_def)
        from IH [OF this, rule_format, OF R]
        show ?thesis using supervision_record_child [OF C [unfolded W] R] by (rule supervision_trans)
      next
        case False
        then have p: "plain (Proc (Waitpid (o_waitpid k tr)))"
          by (cases "o_waitpid k tr"; cases "projr (o_waitpid k tr)") auto
        have first: "supervision k cgroup A (st, ws, tr) (st, ws, ?t)"
          by (rule supervision_event [OF supervision_refl p]) (simp add: writes_file_def)
        show ?thesis
        proof (cases "o_waitpid k tr = Inl EINTR")
          case True
          with eq have "f k st ws ?t = Some res" by (simp add: os_waitpid_def os_call_def)
          from supervision_trans [OF IH [OF this, rule_format, OF R] first] show ?thesis .
        next
          case noint: False
          with eq False have "\<exists>t. snd res = (st, ws, t) \<and> (t = ?t \<or> (\<exists>msg. t = logger_error k msg ?t))"
            by (auto simp: os_waitpid_def os_call_def split: sum.splits wait_result.splits if_splits)
          then show ?thesis using first supervision_trans [OF supervision_log(3) first] by auto
        qed
      qed
    qed
  qed
  with assms(2) show ?thesis by blast
qed

lemma look_for_workload_result:
  assumes "look_for_workload k cgroup st st tr = (alive, st', tr')" and "rely monitor_step k"
  shows "supervision k cgroup A (st, ws, tr) (st', ws, tr')"
    and "alive = Some False \<Longrightarrow> \<exists>t ev. found_empty k cgroup st tr t \<and> tr' = t @ ev"
proof -
  let ?found = "\<exists>t ev. found_empty k cgroup st tr t \<and> tr' = t @ ev"
  have note_ok: "supervision k cgroup A (st, ws, tr) (s1, ws, t1) \<and> (\<exists>ev. t1 = t @ ev)"
    if N: "note_workload k b st t = (s1, t1)" and io: "extends read_event tr t"
      and e: "\<not> b \<Longrightarrow> found_empty k cgroup st tr t" for b t s1 t1
  proof (cases b)
    case True
    with N io show ?thesis by (simp add: note_workload_def supervision_reads)
  next
    case False
    obtain rc where M: "sandbox_state_mark_workload_exited k st t = (rc, s1, t1)"
      using N False by (auto simp: note_workload_def split: prod.splits)
    note S = supervision_mark_workload [OF M assms(2) e [OF False]]
    from supervision_trans [OF S supervision_reads [OF io]] supervision_settled(2) [OF S]
    show ?thesis by blast
  qed
  have "supervision k cgroup A (st, ws, tr) (st', ws, tr') \<and> (alive = Some False \<longrightarrow> ?found)"
  proof (cases "cg_active cgroup")
    case True
    obtain r t where P: "sandbox_cgroup_is_populated k cgroup tr = (r, t)" by fastforce
    note io = is_populated_reads [OF P]
    show ?thesis
    proof (cases r)
      case (Inl e)
      with assms(1) True P io show ?thesis
        by (auto simp: look_for_workload_def intro!: supervision_reads reads_log)
    next
      case (Inr b)
      obtain s1 t1 where N: "note_workload k b st t = (s1, t1)" by fastforce
      have e: "\<not> b \<Longrightarrow> found_empty k cgroup st tr t"
        using True P Inr by (simp add: found_empty_def)
      with note_ok [OF N io e] assms(1) True P Inr N show ?thesis
        by (auto simp: look_for_workload_def)
    qed
  next
    case False
    obtain rc sample t where P: "process_tree_sample k (ss_supervisor_pid st) (ss_child_pid st)
        (ss_leader_alive st) tr = (rc, sample, t)" by (metis prod_cases3)
    note io = process_tree_sample_reads [OF P]
    show ?thesis
    proof (cases "rc = 0")
      case nz: False
      with assms(1) False P io show ?thesis
        by (auto simp: look_for_workload_def intro!: supervision_reads reads_log)
    next
      case True
      let ?b = "0 < ps_process_count sample"
      obtain s1 t1 where N: "note_workload k ?b st t = (s1, t1)" by fastforce
      have e: "\<not> ?b \<Longrightarrow> found_empty k cgroup st tr t"
        using False True P by (auto simp: found_empty_def)
      with note_ok [OF N io e] assms(1) False P True N show ?thesis
        by (auto simp: look_for_workload_def)
    qed
  qed
  then show "supervision k cgroup A (st, ws, tr) (st', ws, tr')" and "alive = Some False \<Longrightarrow> ?found"
    by auto
qed

text \<open>Somewhere between two traces, a look found nothing of the workload.\<close>

definition empty_between :: "kernel \<Rightarrow> SandboxCgroup \<Rightarrow> SandboxState \<Rightarrow> trace \<Rightarrow> trace \<Rightarrow> bool" where
  "empty_between k cgroup st tr tr' \<longleftrightarrow>
     (\<exists>ev1 t ev2. found_empty k cgroup st (tr @ ev1) t \<and> tr' = t @ ev2)"

lemma found_empty_settled: "settled st st' \<Longrightarrow> found_empty k cgroup st' t tr \<longleftrightarrow> found_empty k cgroup st t tr"
  by (simp add: found_empty_def settled_def)

lemma empty_between_extend:
  assumes "empty_between k cgroup st' t1 t2" and "supervision k cgroup A (st, ws, tr) (st', ws', t1)"
    and "supervision k cgroup A (st2, ws2, t2) (st3, ws3, tr')"
  shows "empty_between k cgroup st tr tr'"
proof -
  obtain ev1 t ev2 where "found_empty k cgroup st' (t1 @ ev1) t" "t2 = t @ ev2"
    using assms(1) by (auto simp: empty_between_def)
  moreover obtain ev3 where "t1 = tr @ ev3"
    using supervision_settled(2) [OF assms(2)] by (rule exE)
  moreover obtain ev4 where "tr' = t2 @ ev4"
    using supervision_settled(2) [OF assms(3)] by (rule exE)
  ultimately show ?thesis
    using found_empty_settled [OF supervision_settled(1) [OF assms(2)]]
    unfolding empty_between_def by (intro exI [of _ "ev3 @ ev1"] exI [of _ t] exI [of _ "ev2 @ ev4"]) simp
qed

lemma poll_workload_result:
  assumes "poll_workload k cgroup st ws tr = Some (alive, st', ws', tr')" and "rely monitor_step k"
  shows "supervision k cgroup A (st, ws, tr) (st', ws', tr')"
    and "alive = Some False \<Longrightarrow> empty_between k cgroup st tr tr'"
proof -
  obtain rc s1 w1 t1 where R: "reap_available_children k st ws tr = Some (rc, s1, w1, t1)"
    using assms(1) by (auto simp: poll_workload_def Option.bind_eq_Some_conv)
  from reap_available_children_supervision [OF R assms(2)]
  have 1: "supervision k cgroup A (st, ws, tr) (s1, w1, t1)" by simp
  obtain snap s2 t2 where S: "sandbox_state_snapshot k s1 t1 = (snap, s2, t2)" by (metis prod_cases3)
  note 2 = supervision_trans [OF supervision_snapshot [OF S assms(2)] 1]
  have "supervision k cgroup A (st, ws, tr) (st', ws', tr') \<and>
    (alive = Some False \<longrightarrow> empty_between k cgroup st tr tr')"
  proof (cases "rc \<noteq> 0 \<or> snap = None")
    case True
    then have "alive = None" and "(st', ws', tr') = (s1, w1, t1) \<or> (st', ws', tr') = (s2, w1, t2)"
      using assms(1) R S by (cases "rc = 0"; simp add: poll_workload_def)+
    with 1 2 show ?thesis by auto
  next
    case False
    then obtain s where s: "snap = Some s" by blast
    with S have "s = s2" using snapshot_Some(1) by auto
    obtain a s3 t3 where L: "look_for_workload k cgroup s2 s2 t2 = (a, s3, t3)" by (metis prod_cases3)
    have eq: "alive = a" "st' = s3" "ws' = w1" "tr' = t3"
      using assms(1) R False S [unfolded s \<open>s = s2\<close>] L by (simp_all add: poll_workload_def)
    note 3 = look_for_workload_result [OF L assms(2)]
    have "a = Some False \<longrightarrow> empty_between k cgroup st tr t3"
      using 3(2) empty_between_extend [OF _ 2 supervision_refl] unfolding empty_between_def
      by (metis append_Nil2)
    with supervision_trans [OF 3(1) 2] eq show ?thesis by simp
  qed
  then show "supervision k cgroup A (st, ws, tr) (st', ws', tr')"
    and "alive = Some False \<Longrightarrow> empty_between k cgroup st tr tr'" by auto
qed

subsection \<open>Signals\<close>

lemma log_kills: "extends log_only tr tr' \<Longrightarrow> kills tr' = kills tr"
  by (intro plain_kills) (erule extends_mono, rule plain_log)

lemma io_kills: "extends io_event tr tr' \<Longrightarrow> kills tr' = kills tr"
  by (intro plain_kills) (erule extends_mono, rule plain_io)

lemma kill_cgroup_result:
  assumes "kill_cgroup k cgroup sig tr = Some (ok, tr')"
  shows "extends io_event tr tr'"
    and "sig \<in> A \<Longrightarrow> supervision k cgroup A (st, ws, tr) (st, ws, tr')"
proof -
  have "extends io_event tr tr' \<and> (tr' = tr \<or> sig = SIGKILL)"
  proof (cases "sig = SIGKILL \<and> cg_active cgroup")
    case True
    then obtain r t where W: "write_text_file k (cg_path cgroup) ''cgroup.kill'' ''1'' tr = Some (r, t)"
      using assms by (auto simp: kill_cgroup_def sandbox_cgroup_kill_def Option.bind_eq_Some_conv)
    note io = write_text_file_result(1) [OF W]
    have "\<exists>msg. tr' = logger_warn k msg t \<or> tr' = logger_error k msg t"
      using assms True W by (auto simp: kill_cgroup_def sandbox_cgroup_kill_def split: option.splits)
    then show ?thesis using io io_log True by auto
  next
    case False
    with assms show ?thesis by (auto simp: kill_cgroup_def)
  qed
  then show "extends io_event tr tr'"
    and "sig \<in> A \<Longrightarrow> supervision k cgroup A (st, ws, tr) (st, ws, tr')"
    by (auto intro: supervision_io supervision_refl)
qed

lemma kill_group_result:
  assumes "kill_group k (ss_child_process_group_id st) sig tr = (signalled, ok, tr')" and "sig \<in> A"
  shows "supervision k cgroup A (st, ws, tr) (st, ws, tr')"
    and "kills tr' = kills tr @ (if 0 < ss_child_process_group_id st
      then [(- ss_child_process_group_id st, sig)] else [])"
    and "\<exists>ev. tr' = tr @ ev \<and>
      (signalled \<longleftrightarrow> Proc (Kill (- ss_child_process_group_id st) sig None) \<in> set ev)"
    and "ok \<Longrightarrow> extends (\<lambda>e. \<not> failed_kill e) tr tr'"
proof -
  let ?g = "ss_child_process_group_id st"
  let ?e = "Proc (Kill (- ?g) sig (o_kill k tr (- ?g) sig))"
  have "supervision k cgroup A (st, ws, tr) (st, ws, tr') \<and>
    kills tr' = kills tr @ (if 0 < ?g then [(- ?g, sig)] else []) \<and>
    (\<exists>ev. tr' = tr @ ev \<and> (signalled \<longleftrightarrow> Proc (Kill (- ?g) sig None) \<in> set ev)) \<and>
    (ok \<longrightarrow> extends (\<lambda>e. \<not> failed_kill e) tr tr')"
  proof (cases "0 < ?g")
    case False
    with assms(1) show ?thesis by (simp add: kill_group_def supervision_refl)
  next
    case True
    let ?t = "tr @ [?e]"
    note first = supervision_group [OF supervision_refl True assms(2)]
    show ?thesis
    proof (cases "o_kill k tr (- ?g) sig = None \<or> o_kill k tr (- ?g) sig = Some ESRCH")
      case ok: True
      then have eq: "tr' = ?t" "signalled \<longleftrightarrow> o_kill k tr (- ?g) sig = None"
        using assms(1) True by (auto simp: kill_group_def os_kill_def os_call_def)
      from ok have "extends (\<lambda>e. \<not> failed_kill e) tr ?t" by auto
      moreover have "\<exists>ev. ?t = tr @ ev \<and> (signalled \<longleftrightarrow> Proc (Kill (- ?g) sig None) \<in> set ev)"
        using eq(2) by (intro exI [of _ "[?e]"]) auto
      ultimately show ?thesis unfolding eq(1) using True first by simp
    next
      case False
      then obtain msg where eq: "tr' = logger_error k msg ?t" "\<not> signalled" "\<not> ok"
        using assms(1) True by (auto simp: kill_group_def os_kill_def os_call_def)
      have l: "extends log_only ?t tr'" unfolding eq(1) by (rule error.log_extends)
      then obtain ev where ev: "tr' = ?t @ ev" by (rule extendsE)
      have "kills tr' = kills ?t" by (rule log_kills [OF l])
      moreover from this have "kills ev = []" unfolding ev by simp
      then have "Proc (Kill (- ?g) sig None) \<notin> set ev" by (rule no_kill_in)
      moreover have "supervision k cgroup A (st, ws, tr) (st, ws, tr')"
        unfolding eq(1) by (rule supervision_trans [OF supervision_log(3) first])
      ultimately show ?thesis using True False eq(2,3) ev by auto
    qed
  qed
  then show "supervision k cgroup A (st, ws, tr) (st, ws, tr')"
    and "kills tr' = kills tr @ (if 0 < ss_child_process_group_id st
      then [(- ss_child_process_group_id st, sig)] else [])"
    and "\<exists>ev. tr' = tr @ ev \<and>
      (signalled \<longleftrightarrow> Proc (Kill (- ss_child_process_group_id st) sig None) \<in> set ev)"
    and "ok \<Longrightarrow> extends (\<lambda>e. \<not> failed_kill e) tr tr'"
    by auto
qed

lemma kill_members_result:
  assumes "kill_members k st g sig ps n ok tr = (n', ok', tr')"
    and "process_tree_sample k (ss_supervisor_pid st) (ss_child_pid st) a t1 = (0, sample, t2)"
    and "sig \<in> A" and "set ps \<subseteq> set (ps_processes sample)" and "\<exists>ev. tr = t2 @ ev"
  shows "supervision k cgroup A (st, ws, tr) (st, ws, tr') \<and>
    kills tr' = kills tr @ map (\<lambda>p. (pt_pid p, sig)) (filter (\<lambda>p. \<not> spared st g p) ps) \<and>
    (ok' \<longrightarrow> ok \<and> extends (\<lambda>e. \<not> failed_kill e) tr tr')"
  using assms(1,4,5)
proof (induction ps arbitrary: n ok tr)
  case Nil
  then show ?case by (simp add: supervision_refl)
next
  case (Cons p ps)
  show ?case
  proof (cases "spared st g p")
    case True
    with Cons.prems Cons.IH [of n ok tr] show ?thesis by simp
  next
    case False
    let ?e = "Proc (Kill (pt_pid p) sig (o_kill k tr (pt_pid p) sig))"
    let ?t = "tr @ [?e]"
    obtain ev where ev: "tr = t2 @ ev" using Cons.prems(3) by blast
    have p: "p \<in> set (ps_processes sample)" "0 < pt_pid p" "pt_pid p \<noteq> ss_supervisor_pid st"
      using Cons.prems(2) False by (auto simp: spared_def)
    have first: "supervision k cgroup A (st, ws, tr) (st, ws, ?t)"
      by (rule supervision_member [OF supervision_refl assms(2) ev p assms(3)])
    obtain n1 ok1 u where rest: "kill_members k st g sig ps n1 ok1 u = (n', ok', tr')"
        and u: "u = ?t \<or> (\<exists>msg. u = logger_error k msg ?t)" and ok1: "ok1 \<longrightarrow> ok \<and> \<not> failed_kill ?e"
      using Cons.prems(1) False by (auto simp: os_kill_def os_call_def split: option.splits if_splits)
    have l: "extends log_only ?t u" using u by (auto intro: error.log_extends)
    note ku = log_kills [OF l]
    from l have ex: "\<exists>ev. u = t2 @ ev"
      using ev by (auto elim!: extendsE)
    have su: "supervision k cgroup A (st, ws, tr) (st, ws, u)"
      using u first supervision_trans [OF supervision_log(3) first] by auto
    have sub: "set ps \<subseteq> set (ps_processes sample)" using Cons.prems(2) by simp
    note ih = Cons.IH [OF rest sub ex]
    have "extends (\<lambda>e. \<not> failed_kill e) ?t u"
      using l by (intro no_failure_plain) (erule extends_mono, rule plain_log)
    moreover have "\<not> failed_kill ?e \<Longrightarrow> extends (\<lambda>e. \<not> failed_kill e) tr ?t"
      by simp
    ultimately have fine: "ok' \<longrightarrow> ok \<and> extends (\<lambda>e. \<not> failed_kill e) tr tr'"
      using ih ok1 extends_trans by metis
    have "supervision k cgroup A (st, ws, tr) (st, ws, tr')"
      using supervision_trans [OF ih [THEN conjunct1] su] .
    moreover have "kills tr' = kills tr @ map (\<lambda>p. (pt_pid p, sig)) (filter (\<lambda>p. \<not> spared st g p) (p # ps))"
      using ih ku False by simp
    ultimately show ?thesis using fine by blast
  qed
qed

text \<open>
  What one round of a signal reaches: the process group, and in the order of a sample all members
  of the workload with a positive PID but the supervisor itself and, if the signal to the group was
  delivered, the members of the group. Without a sample it is the process group only.
\<close>

definition group_signal :: "SandboxState \<Rightarrow> signal \<Rightarrow> (pid \<times> signal) list" where
  "group_signal st sig =
     (if 0 < ss_child_process_group_id st then [(- ss_child_process_group_id st, sig)] else [])"

definition reached :: "kernel \<Rightarrow> SandboxState \<Rightarrow> trace \<Rightarrow> trace \<Rightarrow> signal \<Rightarrow> bool" where
  "reached k st tr tr' sig \<longleftrightarrow>
     (\<exists>ev1 sample t2 ev2.
        process_tree_sample k (ss_supervisor_pid st) (ss_child_pid st) (ss_leader_alive st) (tr @ ev1) =
          (0, sample, t2) \<and> tr' = t2 @ ev2 \<and>
        kills tr' = kills tr @ group_signal st sig @
          map (\<lambda>p. (pt_pid p, sig))
            (filter (\<lambda>p. 0 < pt_pid p \<and> pt_pid p \<noteq> ss_supervisor_pid st \<and>
                (Proc (Kill (- ss_child_process_group_id st) sig None) \<in> set ev1 \<longrightarrow>
                  pt_process_group_id p \<noteq> ss_child_process_group_id st))
              (ps_processes sample)))"

definition unsampled :: "kernel \<Rightarrow> SandboxState \<Rightarrow> trace \<Rightarrow> trace \<Rightarrow> signal \<Rightarrow> bool" where
  "unsampled k st tr tr' sig \<longleftrightarrow>
     (\<exists>ev1 rc sample t2 ev2.
        process_tree_sample k (ss_supervisor_pid st) (ss_child_pid st) (ss_leader_alive st) (tr @ ev1) =
          (rc, sample, t2) \<and> rc \<noteq> 0 \<and> tr' = t2 @ ev2 \<and> kills tr' = kills tr @ group_signal st sig)"

lemma reached_shift:
  assumes "reached k st t1 tr' sig" and "t1 = tr @ ev" and "kills t1 = kills tr"
  shows "reached k st tr tr' sig"
proof -
  have none: "Proc (Kill p s r) \<notin> set ev" for p s r
    using assms(2,3) by (intro no_kill_in) simp
  obtain ev1 sample t2 ev2 where
    P: "process_tree_sample k (ss_supervisor_pid st) (ss_child_pid st) (ss_leader_alive st) (t1 @ ev1) =
        (0, sample, t2)" and tr': "tr' = t2 @ ev2"
    and ks: "kills tr' = kills t1 @ group_signal st sig @
        map (\<lambda>p. (pt_pid p, sig))
          (filter (\<lambda>p. 0 < pt_pid p \<and> pt_pid p \<noteq> ss_supervisor_pid st \<and>
              (Proc (Kill (- ss_child_process_group_id st) sig None) \<in> set ev1 \<longrightarrow>
                pt_process_group_id p \<noteq> ss_child_process_group_id st)) (ps_processes sample))"
    using assms(1) unfolding reached_def by blast
  have P': "process_tree_sample k (ss_supervisor_pid st) (ss_child_pid st) (ss_leader_alive st) (tr @ (ev @ ev1)) =
      (0, sample, t2)" using P assms(2) by simp
  show ?thesis
    unfolding reached_def
    by (intro exI [of _ "ev @ ev1"] exI [of _ sample] exI [of _ t2] exI [of _ ev2] conjI P' tr')
      (simp add: ks assms(3) none)
qed

lemma unsampled_shift:
  assumes "unsampled k st t1 tr' sig" and "t1 = tr @ ev" and "kills t1 = kills tr"
  shows "unsampled k st tr tr' sig"
  using assms unfolding unsampled_def by (metis append.assoc)

lemma signal_processes_result:
  assumes "signal_processes k st sig ok tr = (rc, tr')" and "sig \<in> A"
  shows "supervision k cgroup A (st, ws, tr) (st, ws, tr')"
    and "rc = 0 \<Longrightarrow> reached k st tr tr' sig \<and> extends (\<lambda>e. \<not> failed_kill e) tr tr'"
    and "reached k st tr tr' sig \<or> unsampled k st tr tr' sig"
proof -
  obtain g gok t1 where G: "kill_group k (ss_child_process_group_id st) sig tr = (g, gok, t1)"
    by (metis prod_cases3)
  note g = kill_group_result [OF G assms(2)]
  obtain ev1 where ev1: "t1 = tr @ ev1"
      "g \<longleftrightarrow> Proc (Kill (- ss_child_process_group_id st) sig None) \<in> set ev1"
    using g(3) by blast
  obtain rc2 sample t2 where P: "process_tree_sample k (ss_supervisor_pid st) (ss_child_pid st)
      (ss_leader_alive st) t1 = (rc2, sample, t2)" by (metis prod_cases3)
  note io = process_tree_sample_io [OF P]
  note 2 = supervision_trans [OF supervision_reads [OF process_tree_sample_reads [OF P]] g(1)]
  have k2: "kills t2 = kills tr @ group_signal st sig"
    using io_kills [OF io] g(2) by (simp add: group_signal_def)
  have "supervision k cgroup A (st, ws, tr) (st, ws, tr') \<and>
    (rc = 0 \<longrightarrow> reached k st tr tr' sig \<and> extends (\<lambda>e. \<not> failed_kill e) tr tr') \<and>
    (reached k st tr tr' sig \<or> unsampled k st tr tr' sig)"
  proof (cases "rc2 = 0")
    case False
    then obtain msg where tr': "rc = -1" "tr' = logger_error k msg t2"
      using assms(1) G P by (auto simp: signal_processes_def)
    have log: "extends log_only t2 tr'" unfolding tr'(2) by (rule error.log_extends)
    then obtain ev where ev: "tr' = t2 @ ev" by (rule extendsE)
    have "unsampled k st tr tr' sig"
      unfolding unsampled_def
      by (intro exI [of _ ev1] exI [of _ rc2] exI [of _ sample] exI [of _ t2] exI [of _ ev] conjI
          P [unfolded ev1(1)] False ev) (simp add: log_kills [OF log] k2)
    moreover have "supervision k cgroup A (st, ws, tr) (st, ws, tr')"
      unfolding tr'(2) by (rule supervision_trans [OF supervision_log(3) 2])
    ultimately show ?thesis using tr'(1) by simp
  next
    case True
    obtain n ok' t3 where M: "kill_members k st g sig (ps_processes sample) 0 (ok \<and> gok) t2 = (n, ok', t3)"
      by (metis prod_cases3)
    have ex: "\<exists>ev. t2 = t2 @ ev" by simp
    note m = kill_members_result [OF M P [unfolded True] assms(2) subset_refl ex]
    obtain msg where tr': "tr' = logger_warn k msg t3" "rc = (if ok' then 0 else -1)"
      using assms(1) G P True M by (auto simp: signal_processes_def)
    have log: "extends log_only t3 tr'" unfolding tr' by (rule warn.log_extends)
    obtain ev where ev: "tr' = t2 @ ev"
      using log supervision_settled(2) [OF m [THEN conjunct1]] by (auto simp: extends_def)
    have keep: "(\<lambda>p. \<not> spared st g p) = (\<lambda>p. 0 < pt_pid p \<and> pt_pid p \<noteq> ss_supervisor_pid st \<and>
        (Proc (Kill (- ss_child_process_group_id st) sig None) \<in> set ev1 \<longrightarrow>
          pt_process_group_id p \<noteq> ss_child_process_group_id st))"
      using ev1(2) by (auto simp: spared_def)
    have ks: "kills tr' = kills t2 @ map (\<lambda>p. (pt_pid p, sig))
        (filter (\<lambda>p. \<not> spared st g p) (ps_processes sample))"
      using m log_kills [OF log] by simp
    have "reached k st tr tr' sig"
      unfolding reached_def
      by (intro exI [of _ ev1] exI [of _ sample] exI [of _ t2] exI [of _ ev] conjI
          P [unfolded True ev1(1)] ev) (simp only: ks [unfolded keep] k2 append.assoc)
    moreover have "supervision k cgroup A (st, ws, tr) (st, ws, tr')"
      unfolding tr' using m 2 by (blast intro: supervision_trans supervision_log)
    moreover have "extends (\<lambda>e. \<not> failed_kill e) tr tr'" if "ok'"
    proof -
      from m that have "gok" and 3: "extends (\<lambda>e. \<not> failed_kill e) t2 t3" by auto
      have "extends (\<lambda>e. \<not> failed_kill e) t1 t2"
        using io by (intro no_failure_plain) (erule extends_mono, rule plain_io)
      moreover have "extends (\<lambda>e. \<not> failed_kill e) t3 tr'"
        using log by (intro no_failure_plain) (erule extends_mono, rule plain_log)
      ultimately show ?thesis
        using g(4) [OF \<open>gok\<close>] 3 extends_trans by blast
    qed
    ultimately show ?thesis using tr'(2) by simp
  qed
  then show "supervision k cgroup A (st, ws, tr) (st, ws, tr')"
    and "rc = 0 \<Longrightarrow> reached k st tr tr' sig \<and> extends (\<lambda>e. \<not> failed_kill e) tr tr'"
    and "reached k st tr tr' sig \<or> unsampled k st tr tr' sig" by auto
qed

text \<open>
  One round of a signal: it ends at once when the state cannot be read; otherwise it goes, for
  SIGKILL, through the cgroup if there is one, and then to the process group and the members.
\<close>

definition signal_round ::
    "kernel \<Rightarrow> SandboxCgroup \<Rightarrow> signal \<Rightarrow> SandboxState \<Rightarrow> trace \<Rightarrow> SandboxState \<Rightarrow> trace \<Rightarrow> bool" where
  "signal_round k cgroup sig st tr st' tr' \<longleftrightarrow>
     sandbox_state_snapshot k st tr = (None, st', tr') \<or>
     (\<exists>t1. sandbox_state_snapshot k st tr = (Some st', st', t1) \<and>
        (sig = SIGKILL \<and> cg_active cgroup \<longrightarrow>
           (\<exists>r t ev. sandbox_cgroup_kill k cgroup t1 = Some (r, t) \<and> tr' = t @ ev)) \<and>
        (reached k st' tr tr' sig \<or> unsampled k st' tr tr' sig))"

lemma signal_workload_result:
  assumes "signal_workload k cgroup sig st tr = Some (rc, st', tr')" and "rely monitor_step k"
    and "sig \<in> A"
  shows "supervision k cgroup A (st, ws, tr) (st', ws, tr')"
    and "rc = 0 \<Longrightarrow> reached k st' tr tr' sig \<and> extends (\<lambda>e. \<not> failed_kill e) tr tr'"
    and "signal_round k cgroup sig st tr st' tr'"
proof -
  obtain snap s1 t1 where S: "sandbox_state_snapshot k st tr = (snap, s1, t1)" by (metis prod_cases3)
  note 1 = supervision_snapshot [OF S assms(2), where A = A and ws = ws and cgroup = cgroup]
  have "supervision k cgroup A (st, ws, tr) (st', ws, tr') \<and>
    (rc = 0 \<longrightarrow> reached k st' tr tr' sig \<and> extends (\<lambda>e. \<not> failed_kill e) tr tr') \<and>
    signal_round k cgroup sig st tr st' tr'"
  proof (cases snap)
    case None
    with assms(1) S 1 show ?thesis by (auto simp: signal_workload_def signal_round_def)
  next
    case (Some s)
    with S have s: "s = s1" and t1: "t1 = tr @ [Sync (MutexLock (Inr s1)), Sync (MutexUnlock s1 None)]"
      using snapshot_Some by auto
    obtain ok t2 where C: "kill_cgroup k cgroup sig t1 = Some (ok, t2)"
      using assms(1) S Some by (auto simp: signal_workload_def Option.bind_eq_Some_conv)
    note io = kill_cgroup_result(1) [OF C]
    obtain rc' t3 where P: "signal_processes k s1 sig ok t2 = (rc', t3)" by fastforce
    have eq: "rc = rc'" "st' = s1" "tr' = t3"
      using assms(1) S [unfolded Some s] C P by (simp_all add: signal_workload_def)
    note p = signal_processes_result [OF P assms(3)]
    have ks: "kills t2 = kills tr"
      using io_kills [OF io] t1 by simp
    obtain ev2 where ev2: "t2 = t1 @ ev2" using io by (rule extendsE)
    then have t2: "t2 = tr @ [Sync (MutexLock (Inr s1)), Sync (MutexUnlock s1 None)] @ ev2"
      using t1 by simp
    obtain ev3 where ev3: "t3 = t2 @ ev3"
      using supervision_settled(2) [OF p(1)] by (rule exE)
    have "reached k s1 tr t3 sig \<or> unsampled k s1 tr t3 sig"
      using p(3) reached_shift [OF _ t2 ks] unsampled_shift [OF _ t2 ks] by blast
    moreover have "\<exists>r t ev. sandbox_cgroup_kill k cgroup t1 = Some (r, t) \<and> t3 = t @ ev"
      if act: "sig = SIGKILL \<and> cg_active cgroup"
    proof -
      obtain r t where K: "sandbox_cgroup_kill k cgroup t1 = Some (r, t)"
          and "\<exists>msg. t2 = logger_warn k msg t \<or> t2 = logger_error k msg t"
        using C act by (auto simp: kill_cgroup_def Option.bind_eq_Some_conv split: option.splits)
      then obtain ev where "t2 = t @ ev" using warn.log_appends error.log_appends by metis
      with K ev3 show ?thesis by simp
    qed
    ultimately have "signal_round k cgroup sig st tr s1 t3"
      unfolding signal_round_def using S [unfolded Some s] by blast
    moreover have "extends (\<lambda>e. \<not> failed_kill e) tr t2"
    proof -
      have "extends (\<lambda>e. \<not> failed_kill e) tr t1"
        unfolding t1 by (simp add: extends_def)
      moreover have "extends (\<lambda>e. \<not> failed_kill e) t1 t2"
        using io by (intro no_failure_plain) (erule extends_mono, rule plain_io)
      ultimately show ?thesis by (rule extends_trans)
    qed
    ultimately show ?thesis
      using p(2) reached_shift [OF _ t2 ks] extends_trans
        supervision_trans [OF p(1) supervision_trans [OF kill_cgroup_result(2) [OF C assms(3)] 1]] eq
      by blast
  qed
  then show "supervision k cgroup A (st, ws, tr) (st', ws, tr')"
    and "rc = 0 \<Longrightarrow> reached k st' tr tr' sig \<and> extends (\<lambda>e. \<not> failed_kill e) tr tr'"
    and "signal_round k cgroup sig st tr st' tr'" by auto
qed

end
