(* ===== verification/Supervision.thy ===== *)
theory Supervision
  imports Supervisor
begin

text \<open>
  What the supervisor of \<^verbatim>\<open>Sandbox/Sandbox.c\<close> achieves: how long it waits, how it escalates from
  SIGTERM to SIGKILL, for which reasons it ends the workload, that it returns, and what its books
  say about the children it has collected.
\<close>

subsection \<open>Waiting\<close>

text \<open>
  The time that was slept, in nanoseconds: all of a sleep that ran to its end, and what the kernel
  did not report as remaining of one that a signal interrupted.
\<close>

fun nap :: "sandbox_event \<Rightarrow> nat" where
  "nap (Time (Nanosleep d None)) = nat (ns_of d)"
| "nap (Time (Nanosleep d (Some (e, r)))) = (if e = EINTR then nat (ns_of d - ns_of r) else 0)"
| "nap e = 0"

definition time_slept :: "trace \<Rightarrow> nat" where
  "time_slept tr = sum_list (map nap tr)"

lemma time_slept_simps [simp]:
  "time_slept [] = 0" "time_slept (tr @ ev) = time_slept tr + time_slept ev" "time_slept (e # tr) = nap e + time_slept tr"
  by (simp_all add: time_slept_def)

text \<open>The time from one trace to a later one, in milliseconds at least.\<close>

definition slept_ms :: "nat \<Rightarrow> trace \<Rightarrow> trace \<Rightarrow> bool" where
  "slept_ms milliseconds tr tr' \<longleftrightarrow> milliseconds * 1000000 \<le> time_slept tr' - time_slept tr"

lemma supervision_slept:
  "supervision k cgroup A (st, ws, tr) (st', ws', tr') \<Longrightarrow> time_slept tr \<le> time_slept tr'"
  using supervision_settled(2) by fastforce

text \<open>A sleep that is not given up lasts as long as it should, however often it is interrupted.\<close>

lemma sleep_loop_slept:
  assumes "sleep_loop k d tr = Some (None, tr')"
  shows "time_slept tr + nat (ns_of d) \<le> time_slept tr'"
proof -
  have "fst (None :: errno option, tr') = None \<longrightarrow>
      time_slept tr + nat (ns_of d) \<le> time_slept (snd (None :: errno option, tr'))"
  proof (rule sleep_loop.raw_induct [where P = "\<lambda>k d tr res. fst res = None \<longrightarrow>
      time_slept tr + nat (ns_of d) \<le> time_slept (snd res)", OF _ assms], goal_cases)
    case (1 f k d tr res)
    note IH = 1(1) and eq = 1(2)
    show ?case
    proof (cases "o_nanosleep k tr d")
      case None
      with eq show ?thesis by (auto simp: os_nanosleep_def os_call_def)
    next
      case (Some a)
      obtain e r where a: "a = (e, r)" by fastforce
      with Some eq IH [of k r "tr @ [Time (Nanosleep d (Some (e, r)))]" res] show ?thesis
        by (auto simp: os_nanosleep_def os_call_def split: if_splits)
    qed
  qed
  then show ?thesis by simp
qed

lemma delay_of_ns: "ns_of (delay_of ms) = int (unat ms) * 1000000"
proof -
  have "int (unat ms) = int (unat ms div 1000) * 1000 + int (unat ms mod 1000)"
    by (metis div_mult_mod_eq of_nat_add of_nat_mult of_nat_numeral)
  then show ?thesis
    by (simp add: ns_of_def delay_of_def unat_div unat_mod)
qed

lemma supervisor_sleep_slept:
  "supervisor_sleep k ms tr = Some (None, tr') \<Longrightarrow> time_slept tr + unat ms * 1000000 \<le> time_slept tr'"
  using sleep_loop_slept [of k "delay_of ms" tr tr']
  by (simp add: supervisor_sleep_def delay_of_ns nat_mult_distrib)

lemma supervisor_sleep_reads:
  "supervisor_sleep k ms tr = Some (r, tr') \<Longrightarrow> extends read_event tr tr'"
  using sleep_loop_result [of k "delay_of ms" tr "(r, tr')"]
  by (auto simp: supervisor_sleep_def elim!: extends_mono)

lemma supervisor_sleep_total: "finite_retries b k \<Longrightarrow> total (supervisor_sleep k ms tr)"
  unfolding supervisor_sleep_def by (intro totalI sleep_loop_returns)

text \<open>
  The supervisor has lost track: a look at the workload or at the state failed, or a sleep did.
\<close>

definition lost_track :: "kernel \<Rightarrow> SandboxCgroup \<Rightarrow> trace \<Rightarrow> trace \<Rightarrow> bool" where
  "lost_track k cgroup tr tr' \<longleftrightarrow>
     (\<exists>ev1 t ev2. tr' = t @ ev2 \<and>
        ((\<exists>s w s' w'. poll_workload k cgroup s w (tr @ ev1) = Some (None, s', w', t)) \<or>
         (\<exists>s s'. sandbox_state_snapshot k s (tr @ ev1) = (None, s', t)) \<or>
         (\<exists>e. supervisor_sleep k SUPERVISOR_POLL_MILLISECONDS (tr @ ev1) = Some (Some e, t))))"

lemma lost_trackI:
  assumes "poll_workload k cgroup s w t1 = Some (None, s', w', t2) \<or>
      sandbox_state_snapshot k s t1 = (None, s', t2) \<or>
      supervisor_sleep k SUPERVISOR_POLL_MILLISECONDS t1 = Some (Some e, t2)"
    and "t1 = tr @ ev1" and "tr' = t2 @ ev2"
  shows "lost_track k cgroup tr tr'"
  using assms unfolding lost_track_def by blast

lemma lost_track_extend:
  assumes "lost_track k cgroup t1 t2" and "t1 = tr @ ev3" and "tr' = t2 @ ev4"
  shows "lost_track k cgroup tr tr'"
proof -
  obtain ev1 t ev2 where t: "t2 = t @ ev2"
    "(\<exists>s w s' w'. poll_workload k cgroup s w (t1 @ ev1) = Some (None, s', w', t)) \<or>
     (\<exists>s s'. sandbox_state_snapshot k s (t1 @ ev1) = (None, s', t)) \<or>
     (\<exists>e. supervisor_sleep k SUPERVISOR_POLL_MILLISECONDS (t1 @ ev1) = Some (Some e, t))"
    using assms(1) unfolding lost_track_def by blast
  have "tr' = t @ ev2 @ ev4" "t1 @ ev1 = tr @ ev3 @ ev1" using t(1) assms(2,3) by simp_all
  then show ?thesis using t(2) unfolding lost_track_def by metis
qed

text \<open>How a wait may end: the workload is gone, its time is over, or the supervisor lost track.\<close>

definition waited :: "kernel \<Rightarrow> SandboxCgroup \<Rightarrow> nat \<Rightarrow> SandboxState \<Rightarrow> trace \<Rightarrow> int \<times> trace \<Rightarrow> bool" where
  "waited k cgroup milliseconds st tr res \<longleftrightarrow>
     (case res of (rc, tr') \<Rightarrow>
        rc = 0 \<and> empty_between k cgroup st tr tr' \<or>
        rc = 1 \<and> slept_ms milliseconds tr tr' \<or>
        rc = -1 \<and> lost_track k cgroup tr tr')"

lemma waited_extend:
  assumes "waited k cgroup n st1 t1 (rc, tr')" and "supervision k cgroup A (st, ws, tr) (st1, ws1, t1)"
    and "supervision k cgroup B (st1, ws1, t1) (st', ws', tr')"
    and "m * 1000000 \<le> n * 1000000 + (time_slept t1 - time_slept tr)"
  shows "waited k cgroup m st tr (rc, tr')"
proof -
  obtain ev where ev: "t1 = tr @ ev" using supervision_settled(2) [OF assms(2)] by (rule exE)
  have "empty_between k cgroup st1 t1 tr' \<Longrightarrow> empty_between k cgroup st tr tr'"
    using empty_between_extend [OF _ assms(2) supervision_refl] .
  moreover have "lost_track k cgroup t1 tr' \<Longrightarrow> lost_track k cgroup tr tr'"
    using lost_track_extend [OF _ ev, of k cgroup tr' tr' "[]"] by simp
  moreover have "slept_ms n t1 tr' \<Longrightarrow> slept_ms m tr tr'"
    using assms(4) supervision_slept [OF assms(2)] supervision_slept [OF assms(3)]
    unfolding slept_ms_def by linarith
  ultimately show ?thesis using assms(1) by (auto simp: waited_def)
qed

lemma kill_again_supervision:
  assumes "kill_again k cgroup b st tr = Some (st', tr')" and "rely monitor_step k"
  shows "supervision k cgroup (if b then {SIGKILL} else {}) (st, ws, tr) (st', ws, tr')"
proof (cases b)
  case True
  then obtain rc where "signal_workload k cgroup SIGKILL st tr = Some (rc, st', tr')"
    using assms(1) by (auto simp: kill_again_def Option.bind_eq_Some_conv)
  from signal_workload_result(1) [OF this assms(2), of "{SIGKILL}"] True show ?thesis by simp
next
  case False
  with assms(1) show ?thesis by (simp add: kill_again_def supervision_refl)
qed

lemma unat_add_poll:
  assumes "\<not> timeout \<le> w" and "unat timeout \<le> 2 ^ 31"
  shows "unat (w + SUPERVISOR_POLL_MILLISECONDS) = unat w + 50"
proof -
  have "unat w + 50 < 2 ^ 32"
    using assms by (simp add: word_le_nat_alt)
  then show ?thesis
    by (simp add: SUPERVISOR_POLL_MILLISECONDS_def unat_word_ariths)
qed

lemma wait_for_workload_exit_result:
  assumes "wait_for_workload_exit k cgroup timeout b w st ws tr = Some (rc, st', ws', tr')"
    and "rely monitor_step k" and "unat timeout \<le> 2 ^ 31"
  shows "supervision k cgroup (if b then {SIGKILL} else {}) (st, ws, tr) (st', ws', tr') \<and>
    waited k cgroup (unat timeout - unat w) st tr (rc, tr')"
proof -
  let ?A = "\<lambda>b. if b then {SIGKILL} else {}"
  let ?P = "\<lambda>k cgroup timeout b w st ws tr res. rely monitor_step k \<longrightarrow> unat timeout \<le> 2 ^ 31 \<longrightarrow>
    supervision k cgroup (if b then {SIGKILL} else {}) (st, ws, tr) (snd res) \<and>
    waited k cgroup (unat timeout - unat w) st tr (fst res, snd (snd (snd res)))"
  have "?P k cgroup timeout b w st ws tr (rc, st', ws', tr')"
  proof (rule wait_for_workload_exit.raw_induct [where P = ?P, OF _ assms(1)], goal_cases)
    case (1 f k cgroup timeout b w st ws tr res)
    note IH = 1(1) and eq = 1(2)
    show ?case
    proof (intro impI)
      assume R: "rely monitor_step k" and T: "unat timeout \<le> 2 ^ 31"
      obtain alive s1 w1 t1 where P: "poll_workload k cgroup st ws tr = Some (alive, s1, w1, t1)"
        using eq by (auto simp: Option.bind_eq_Some_conv)
      note p = poll_workload_result(1) [OF P R, where A = "?A b"] poll_workload_result(2) [OF P R]
      obtain ev1 where ev1: "t1 = tr @ ev1" using supervision_settled(2) [OF p(1)] by (rule exE)
      show "supervision k cgroup (?A b) (st, ws, tr) (snd res) \<and>
          waited k cgroup (unat timeout - unat w) st tr (fst res, snd (snd (snd res)))"
      proof (cases alive)
        case None
        with eq P have "res = (-1, s1, w1, t1)" by simp
        moreover have "lost_track k cgroup tr t1"
          using lost_trackI [of k cgroup st ws tr s1 w1 t1 _ tr "[]" t1 "[]"] P None by simp
        ultimately show ?thesis using p(1) by (simp add: waited_def)
      next
        case alive: (Some a)
        show ?thesis
        proof (cases a)
          case False
          with eq P alive have "res = (0, s1, w1, t1)" by simp
          with p(1) p(2) alive False show ?thesis by (simp add: waited_def)
        next
          case True
          obtain s2 t2 where K: "kill_again k cgroup b s1 t1 = Some (s2, t2)"
            using eq P alive True by (auto simp: Option.bind_eq_Some_conv)
          note 2 = supervision_trans [OF kill_again_supervision [OF K R] p(1)]
          obtain ev2 where ev2: "t2 = tr @ ev2" using supervision_settled(2) [OF 2] by (rule exE)
          show ?thesis
          proof (cases "timeout \<le> w")
            case le: True
            with eq P alive True K have "res = (1, s2, w1, t2)" by simp
            moreover have "unat timeout - unat w = 0" using le by (simp add: word_le_nat_alt)
            ultimately show ?thesis using 2 by (simp add: waited_def slept_ms_def)
          next
            case less: False
            obtain r t3 where Z: "supervisor_sleep k SUPERVISOR_POLL_MILLISECONDS t2 = Some (r, t3)"
              using eq P alive True K less by (auto simp: Option.bind_eq_Some_conv)
            note 3 = supervision_trans [OF supervision_reads [OF supervisor_sleep_reads [OF Z]] 2]
            show ?thesis
            proof (cases r)
              case (Some e)
              let ?t4 = "logger_error k (''workload wait sleep failed: '' @ os_strerror k e) t3"
              have res: "res = (-1, s2, w1, ?t4)"
                using eq P alive True K less Z Some by simp
              obtain ev4 where "?t4 = t3 @ ev4" using error.log_appends by blast
              then have "lost_track k cgroup tr ?t4"
                using lost_trackI [of k cgroup _ _ t2 _ _ t3 e tr ev2 ?t4 ev4] Z Some ev2 by simp
              with res supervision_trans [OF supervision_log(3) 3] show ?thesis by (simp add: waited_def)
            next
              case None
              have L: "f k cgroup timeout b (w + SUPERVISOR_POLL_MILLISECONDS) s2 w1 t3 = Some res"
                using eq P alive True K less Z None by simp
              obtain rc st' ws' tr' where res: "res = (rc, st', ws', tr')" by (metis prod_cases4)
              from IH [OF L, rule_format, OF R T]
              have ih: "supervision k cgroup (?A b) (s2, w1, t3) (st', ws', tr')"
                "waited k cgroup (unat timeout - (unat w + 50)) s2 t3 (rc, tr')"
                by (simp_all add: res unat_add_poll [OF less T])
              have "time_slept t2 + 50 * 1000000 \<le> time_slept t3"
                using supervisor_sleep_slept [OF Z [unfolded None]] by (simp add: SUPERVISOR_POLL_MILLISECONDS_def)
              then have "(unat timeout - unat w) * 1000000 \<le>
                  (unat timeout - (unat w + 50)) * 1000000 + (time_slept t3 - time_slept tr)"
                using supervision_slept [OF 2] by simp
              from waited_extend [OF ih(2) 3 ih(1) this] supervision_trans [OF ih(1) 3]
              show ?thesis by (simp add: res)
            qed
          qed
        qed
      qed
    qed
  qed
  with assms(2,3) show ?thesis by simp
qed

subsection \<open>Ending the workload\<close>

text \<open>
  One round of SIGTERM; a wait in which nothing is sent; if a look found nothing of the workload,
  that is all. Otherwise the time of grace was slept through or the supervisor lost track in it, and
  one round of SIGKILL follows, and a second wait with SIGKILL only, which ends with a look that found
  nothing, or without success when its time was slept through or the supervisor lost track in it.
\<close>

definition escalates ::
    "kernel \<Rightarrow> SandboxCgroup \<Rightarrow> SandboxState \<times> WorkloadStatus \<times> trace \<Rightarrow> int \<Rightarrow>
     SandboxState \<times> WorkloadStatus \<times> trace \<Rightarrow> bool" where
  "escalates k cgroup c rc c' \<longleftrightarrow>
     (\<exists>st ws tr t0 s1 t1 s2 w2 t2. c = (st, ws, tr) \<and>
        extends log_only tr t0 \<and> signal_round k cgroup SIGTERM st t0 s1 t1 \<and>
        supervision k cgroup {SIGTERM} (st, ws, t0) (s1, ws, t1) \<and>
        supervision k cgroup {} (s1, ws, t1) (s2, w2, t2) \<and>
        (rc = 0 \<and> empty_between k cgroup s1 t1 t2 \<and> supervision k cgroup {} (s2, w2, t2) c' \<or>
         (slept_ms 1000 t1 t2 \<or> lost_track k cgroup t1 t2) \<and>
         (\<exists>t3 s4 t4. extends log_only t2 t3 \<and> signal_round k cgroup SIGKILL s2 t3 s4 t4 \<and>
            supervision k cgroup {SIGKILL} (s2, w2, t3) (s4, w2, t4) \<and>
            supervision k cgroup {SIGKILL} (s4, w2, t4) c' \<and>
            (rc = 0 \<and> empty_between k cgroup s4 t4 (snd (snd c')) \<or>
             rc = -1 \<and> (slept_ms 5000 t4 (snd (snd c')) \<or> lost_track k cgroup t4 (snd (snd c')))))))"

lemma escalates_supervision:
  assumes "escalates k cgroup c rc c'"
  shows "supervision k cgroup {SIGTERM, SIGKILL} c c'"
    and "rc = 0 \<Longrightarrow> empty_between k cgroup (fst c) (snd (snd c)) (snd (snd c'))" and "rc = 0 \<or> rc = -1"
proof -
  let ?B = "{SIGTERM, SIGKILL}"
  obtain st' ws' tr' where c': "c' = (st', ws', tr')" by (metis prod_cases3)
  obtain st ws tr t0 s1 t1 s2 w2 t2 where c: "c = (st, ws, tr)" "extends log_only tr t0"
    and 1: "supervision k cgroup {SIGTERM} (st, ws, t0) (s1, ws, t1)"
    and 2: "supervision k cgroup {} (s1, ws, t1) (s2, w2, t2)"
    and rest: "rc = 0 \<and> empty_between k cgroup s1 t1 t2 \<and> supervision k cgroup {} (s2, w2, t2) c' \<or>
      (\<exists>t3 s4 t4. extends log_only t2 t3 \<and>
        supervision k cgroup {SIGKILL} (s2, w2, t3) (s4, w2, t4) \<and>
        supervision k cgroup {SIGKILL} (s4, w2, t4) c' \<and>
        (rc = 0 \<and> empty_between k cgroup s4 t4 (snd (snd c')) \<or> rc = -1))"
    using assms unfolding escalates_def by blast
  have sub: "{SIGTERM} \<subseteq> ?B" "{SIGKILL} \<subseteq> ?B" by auto
  note q0 = supervision_trans [OF supervision_mono [OF 1 sub(1)] supervision_quiet [OF c(2)]]
  note q = supervision_trans [OF supervision_mono [OF 2 empty_subsetI] q0]
  have "supervision k cgroup ?B (st, ws, tr) (st', ws', tr') \<and>
    (rc = 0 \<longrightarrow> empty_between k cgroup st tr tr') \<and> (rc = 0 \<or> rc = -1)"
    using rest
  proof
    assume *: "rc = 0 \<and> empty_between k cgroup s1 t1 t2 \<and> supervision k cgroup {} (s2, w2, t2) c'"
    then have 3: "supervision k cgroup {} (s2, w2, t2) (st', ws', tr')" by (simp add: c')
    from * empty_between_extend [OF _ q0 supervision_mono [OF 3 empty_subsetI]] have "empty_between k cgroup st tr tr'" by blast
    with * supervision_trans [OF supervision_mono [OF 3 empty_subsetI] q] show ?thesis by blast
  next
    assume "\<exists>t3 s4 t4. extends log_only t2 t3 \<and>
        supervision k cgroup {SIGKILL} (s2, w2, t3) (s4, w2, t4) \<and>
        supervision k cgroup {SIGKILL} (s4, w2, t4) c' \<and>
        (rc = 0 \<and> empty_between k cgroup s4 t4 (snd (snd c')) \<or> rc = -1)"
    then obtain t3 s4 t4 where 3: "extends log_only t2 t3"
      "supervision k cgroup {SIGKILL} (s2, w2, t3) (s4, w2, t4)"
      "supervision k cgroup {SIGKILL} (s4, w2, t4) (st', ws', tr')"
      "rc = 0 \<and> empty_between k cgroup s4 t4 tr' \<or> rc = -1"
      unfolding c' by auto
    note q4 = supervision_trans [OF supervision_mono [OF 3(2) sub(2)]
        supervision_trans [OF supervision_quiet [OF 3(1)] q]]
    from empty_between_extend [OF _ q4 supervision_refl]
    have "empty_between k cgroup s4 t4 tr' \<Longrightarrow> empty_between k cgroup st tr tr'" .
    with 3(4) supervision_trans [OF supervision_mono [OF 3(3) sub(2)] q4] show ?thesis by auto
  qed
  then show "supervision k cgroup {SIGTERM, SIGKILL} c c'"
    and "rc = 0 \<Longrightarrow> empty_between k cgroup (fst c) (snd (snd c)) (snd (snd c'))" and "rc = 0 \<or> rc = -1"
    by (auto simp: c c')
qed

lemma escalatesI:
  assumes "extends log_only tr t0" and "signal_round k cgroup SIGTERM st t0 s1 t1"
    and "supervision k cgroup {SIGTERM} (st, ws, t0) (s1, ws, t1)"
    and "supervision k cgroup {} (s1, ws, t1) (s2, w2, t2)"
  shows "empty_between k cgroup s1 t1 t2 \<Longrightarrow> supervision k cgroup {} (s2, w2, t2) c' \<Longrightarrow>
      escalates k cgroup (st, ws, tr) 0 c'"
    and "slept_ms 1000 t1 t2 \<or> lost_track k cgroup t1 t2 \<Longrightarrow> extends log_only t2 t3 \<Longrightarrow>
      signal_round k cgroup SIGKILL s2 t3 s4 t4 \<Longrightarrow>
      supervision k cgroup {SIGKILL} (s2, w2, t3) (s4, w2, t4) \<Longrightarrow>
      supervision k cgroup {SIGKILL} (s4, w2, t4) c' \<Longrightarrow>
      rc = 0 \<and> empty_between k cgroup s4 t4 (snd (snd c')) \<or>
        rc = -1 \<and> (slept_ms 5000 t4 (snd (snd c')) \<or> lost_track k cgroup t4 (snd (snd c'))) \<Longrightarrow>
      escalates k cgroup (st, ws, tr) rc c'"
proof -
  show "escalates k cgroup (st, ws, tr) 0 c'"
    if "empty_between k cgroup s1 t1 t2" and "supervision k cgroup {} (s2, w2, t2) c'"
    unfolding escalates_def
    by (intro exI conjI, rule refl, (rule assms)+, intro disjI1 conjI refl that)
  show "escalates k cgroup (st, ws, tr) rc c'"
    if "slept_ms 1000 t1 t2 \<or> lost_track k cgroup t1 t2" and "extends log_only t2 t3"
      and "signal_round k cgroup SIGKILL s2 t3 s4 t4"
      and "supervision k cgroup {SIGKILL} (s2, w2, t3) (s4, w2, t4)"
      and "supervision k cgroup {SIGKILL} (s4, w2, t4) c'"
      and "rc = 0 \<and> empty_between k cgroup s4 t4 (snd (snd c')) \<or>
        rc = -1 \<and> (slept_ms 5000 t4 (snd (snd c')) \<or> lost_track k cgroup t4 (snd (snd c')))"
    unfolding escalates_def
    by (intro exI conjI, rule refl, (rule assms)+, rule disjI2, intro exI conjI, (rule that)+)
qed

lemma unat_times: "unat TERMINATION_GRACE_MILLISECONDS = 1000" "unat FORCE_KILL_WAIT_MILLISECONDS = 5000"
  by (simp_all add: TERMINATION_GRACE_MILLISECONDS_def FORCE_KILL_WAIT_MILLISECONDS_def)

lemma terminate_workload_result:
  assumes "terminate_workload k cgroup reason st ws tr = Some (rc, st', ws', tr')"
    and R: "rely monitor_step k"
  shows "escalates k cgroup (st, ws, tr) rc (st', ws', tr')"
proof -
  let ?t0 = "logger_warn k (''termination policy activated for workload tree: '' @
      sandbox_termination_reason_name reason) tr"
  obtain r1 s1 t1 where S: "signal_workload k cgroup SIGTERM st ?t0 = Some (r1, s1, t1)"
    using assms(1) by (auto simp: terminate_workload_def Let_def Option.bind_eq_Some_conv)
  let ?t1 = "logger_warn k (''waiting '' @ show_nat (unat TERMINATION_GRACE_MILLISECONDS) @
      '' ms for workload-wide SIGTERM shutdown'') t1"
  obtain r2 s2 w2 t2 where W: "wait_for_workload_exit k cgroup TERMINATION_GRACE_MILLISECONDS False 0
      s1 ws ?t1 = Some (r2, s2, w2, t2)"
    using assms(1) S by (auto simp: terminate_workload_def Let_def Option.bind_eq_Some_conv)
  have T: "unat TERMINATION_GRACE_MILLISECONDS \<le> 2 ^ 31" by (simp add: unat_times)
  note w = wait_for_workload_exit_result [OF W R T]
  have one: "supervision k cgroup {SIGTERM} (st, ws, ?t0) (s1, ws, t1)"
    using signal_workload_result(1) [OF S R] by blast
  have round1: "signal_round k cgroup SIGTERM st ?t0 s1 t1"
    using signal_workload_result(3) [OF S R] by blast
  have log1: "supervision k cgroup {} (s1, ws, t1) (s1, ws, ?t1)" by (rule supervision_log(2))
  have w2: "supervision k cgroup {} (s1, ws, ?t1) (s2, w2, t2)" using w by simp
  note two = supervision_trans [OF w2 log1]
  have "waited k cgroup 1000 s1 ?t1 (r2, t2)" using w by (simp add: unat_times)
  from waited_extend [OF this log1 w2, of 1000] have out: "waited k cgroup 1000 s1 t1 (r2, t2)" by simp
  show ?thesis
  proof (cases "r2 = 0")
    case True
    then obtain msg where eq: "rc = 0" "st' = s2" "ws' = w2" "tr' = logger_info k msg t2"
      using assms(1) S W by (auto simp: terminate_workload_def Let_def)
    have log: "supervision k cgroup {} (s2, w2, t2) (st', ws', tr')"
      unfolding eq by (rule supervision_log)
    have "empty_between k cgroup s1 t1 t2" using out True by (auto simp: waited_def)
    from escalatesI(1) [OF warn.log_extends round1 one two this log] show ?thesis
      unfolding eq(1) .
  next
    case False
    have grace: "slept_ms 1000 t1 t2 \<or> lost_track k cgroup t1 t2"
      using out False by (auto simp: waited_def)
    let ?t3 = "logger_warn k ''workload descendants remain; escalating tree to SIGKILL'' t2"
    obtain r4 s4 t4 where S4: "signal_workload k cgroup SIGKILL s2 ?t3 = Some (r4, s4, t4)"
      using assms(1) S W False by (auto simp: terminate_workload_def Let_def Option.bind_eq_Some_conv)
    obtain r5 s5 w5 t5 where W5: "wait_for_workload_exit k cgroup FORCE_KILL_WAIT_MILLISECONDS True 0
        s4 w2 t4 = Some (r5, s5, w5, t5)"
      using assms(1) S W False S4 by (auto simp: terminate_workload_def Let_def Option.bind_eq_Some_conv)
    have four: "supervision k cgroup {SIGKILL} (s2, w2, ?t3) (s4, w2, t4)"
      using signal_workload_result(1) [OF S4 R] by blast
    have T5: "unat FORCE_KILL_WAIT_MILLISECONDS \<le> 2 ^ 31" by (simp add: unat_times)
    from wait_for_workload_exit_result [OF W5 R T5]
    have s5: "supervision k cgroup {SIGKILL} (s4, w2, t4) (s5, w5, t5)"
      and w5: "waited k cgroup 5000 s4 t4 (r5, t5)" by (simp_all add: unat_times)
    obtain msg where eq: "rc = (if r5 = 0 then 0 else -1)" "st' = s5" "ws' = w5"
      and tr': "tr' = logger_info k msg t5 \<or> tr' = logger_error k msg t5"
      using assms(1) S W False S4 W5 by (auto simp: terminate_workload_def Let_def split: if_splits)
    have log: "supervision k cgroup A (s5, w5, t5) (st', ws', tr')" for A
      using tr' unfolding eq by (auto intro: supervision_log)
    obtain ev where ev: "tr' = t5 @ ev" using supervision_settled(2) [OF log] by (rule exE)
    have "empty_between k cgroup s4 t4 t5 \<Longrightarrow> empty_between k cgroup s4 t4 tr'"
      using empty_between_extend [OF _ supervision_refl log] .
    moreover have "lost_track k cgroup t4 t5 \<Longrightarrow> lost_track k cgroup t4 tr'"
      using lost_track_extend [of k cgroup t4 t5 t4 "[]" tr' ev] ev by simp
    moreover have "slept_ms 5000 t4 t5 \<Longrightarrow> slept_ms 5000 t4 tr'"
      using ev by (simp add: slept_ms_def)
    ultimately have last: "rc = 0 \<and> empty_between k cgroup s4 t4 tr' \<or>
        rc = -1 \<and> (slept_ms 5000 t4 tr' \<or> lost_track k cgroup t4 tr')"
      using w5 eq(1) by (auto simp: waited_def)
    have round2: "signal_round k cgroup SIGKILL s2 ?t3 s4 t4"
      using signal_workload_result(3) [OF S4 R] by blast
    from last have "rc = 0 \<and> empty_between k cgroup s4 t4 (snd (snd (st', ws', tr'))) \<or>
        rc = -1 \<and> (slept_ms 5000 t4 (snd (snd (st', ws', tr'))) \<or>
          lost_track k cgroup t4 (snd (snd (st', ws', tr'))))"
      by (simp only: snd_conv)
    from escalatesI(2) [OF warn.log_extends round1 one two grace warn.log_extends round2 four
        supervision_trans [OF log s5] this] show ?thesis .
  qed
qed

subsection \<open>Supervising\<close>

text \<open>Why a workload is ended: what the reason stands for.\<close>

definition justified ::
    "kernel \<Rightarrow> SandboxCgroup \<Rightarrow> SandboxTerminationReason \<Rightarrow> SandboxState \<Rightarrow> trace \<Rightarrow> trace \<Rightarrow> bool" where
  "justified k cgroup reason st tr tr' \<longleftrightarrow>
     reason = SANDBOX_TERMINATION_OPERATOR_SIGNAL \<and>
       (\<exists>n ev. n \<noteq> 0 \<and> tr' = tr @ ev \<and> Sync (ReadSignal n) \<in> set ev) \<or>
     reason = SANDBOX_TERMINATION_SUPERVISOR_ERROR \<and> lost_track k cgroup tr tr' \<or>
     ss_termination_requested st \<and> ss_termination_reason st = reason"

lemma justified_extend:
  assumes "justified k cgroup reason st t1 tr'" and "t1 = tr @ ev"
  shows "justified k cgroup reason st tr tr'"
proof -
  have "lost_track k cgroup t1 tr' \<Longrightarrow> lost_track k cgroup tr tr'"
    using lost_track_extend [of k cgroup t1 tr' tr ev tr' "[]"] assms(2) by simp
  moreover have "\<exists>n ev. n \<noteq> 0 \<and> tr' = t1 @ ev \<and> Sync (ReadSignal n) \<in> set ev \<Longrightarrow>
      \<exists>n ev. n \<noteq> 0 \<and> tr' = tr @ ev \<and> Sync (ReadSignal n) \<in> set ev"
    using assms(2) by fastforce
  ultimately show ?thesis using assms(1) unfolding justified_def by blast
qed

text \<open>
  How supervision ends: with nothing found and no signal sent, or with the workload being ended for
  a reason that is justified.
\<close>

definition supervised ::
    "kernel \<Rightarrow> SandboxCgroup \<Rightarrow> SandboxState \<Rightarrow> WorkloadStatus \<Rightarrow> trace \<Rightarrow>
     int \<times> SandboxTerminationReason \<times> SandboxState \<times> WorkloadStatus \<times> trace \<Rightarrow> bool" where
  "supervised k cgroup st ws tr res \<longleftrightarrow>
     (case res of (rc, reason, st', ws', tr') \<Rightarrow>
        rc = 0 \<and> reason = SANDBOX_TERMINATION_NONE \<and>
          supervision k cgroup {} (st, ws, tr) (st', ws', tr') \<and> empty_between k cgroup st tr tr' \<or>
        (\<exists>s1 w1 t1. supervision k cgroup {} (st, ws, tr) (s1, w1, t1) \<and>
           justified k cgroup reason s1 tr t1 \<and>
           terminate_workload k cgroup reason s1 w1 t1 = Some (rc, st', ws', tr')))"

lemma supervised_end:
  assumes "terminate_for k cgroup reason s1 w1 t1 = Some res"
    and "supervision k cgroup {} (st, ws, tr) (s1, w1, t1)" and "justified k cgroup reason s1 tr t1"
  shows "supervised k cgroup st ws tr res"
proof -
  obtain rc st' ws' tr' where "terminate_workload k cgroup reason s1 w1 t1 = Some (rc, st', ws', tr')"
      and "res = (rc, reason, st', ws', tr')"
    using assms(1) by (auto simp: terminate_for_def Option.bind_eq_Some_conv)
  with assms(2,3) show ?thesis unfolding supervised_def by auto
qed

lemma supervised_extend:
  assumes "supervised k cgroup s1 w1 t1 res" and "supervision k cgroup {} (st, ws, tr) (s1, w1, t1)"
  shows "supervised k cgroup st ws tr res"
proof -
  obtain rc reason st' ws' tr' where res: "res = (rc, reason, st', ws', tr')" by (metis prod_cases5)
  obtain ev where ev: "t1 = tr @ ev" using supervision_settled(2) [OF assms(2)] by (rule exE)
  show ?thesis
  proof (cases "reason = SANDBOX_TERMINATION_NONE \<and> rc = 0 \<and>
      supervision k cgroup {} (s1, w1, t1) (st', ws', tr') \<and> empty_between k cgroup s1 t1 tr'")
    case True
    with supervision_trans [OF _ assms(2)] empty_between_extend [OF _ assms(2) supervision_refl]
    show ?thesis by (simp add: supervised_def res)
  next
    case False
    then obtain s2 w2 t2 where "supervision k cgroup {} (s1, w1, t1) (s2, w2, t2)"
        "justified k cgroup reason s2 t1 t2"
        "terminate_workload k cgroup reason s2 w2 t2 = Some (rc, st', ws', tr')"
      using assms(1) by (auto simp: supervised_def res)
    with supervision_trans [OF _ assms(2)] justified_extend [OF _ ev] show ?thesis
      unfolding supervised_def res by auto
  qed
qed

lemma supervise_workload_result:
  assumes "supervise_workload k cgroup st ws tr = Some res" and "rely monitor_step k"
  shows "supervised k cgroup st ws tr res"
proof -
  have "rely monitor_step k \<longrightarrow> supervised k cgroup st ws tr res"
  proof (rule supervise_workload.raw_induct [where P = "\<lambda>k cgroup st ws tr res.
      rely monitor_step k \<longrightarrow> supervised k cgroup st ws tr res", OF _ assms(1)], goal_cases)
    case (1 f k cgroup st ws tr res)
    note IH = 1(1) and eq = 1(2)
    let ?n = "o_signal k tr"
    let ?t1 = "tr @ [Sync (ReadSignal ?n)]"
    have sig: "os_signal k t = (o_signal k t, t @ [Sync (ReadSignal (o_signal k t))])" for t
      by (simp add: os_signal_def os_call_def)
    have 1: "supervision k cgroup {} (st, ws, t) (st, ws, t @ [Sync (ReadSignal n)])" for n t
      by (rule supervision_events) (simp add: writes_file_def)
    show ?case
    proof (intro impI)
      assume R: "rely monitor_step k"
      show "supervised k cgroup st ws tr res"
      proof (cases "?n = 0")
        case False
        let ?t2 = "?t1 @ [Sync (ReadSignal (o_signal k ?t1))]"
        let ?t3 = "logger_warn k (''controller received operator signal '' @ show_int (o_signal k ?t1)) ?t2"
        obtain r s4 t4 where Q: "sandbox_state_request_termination k SANDBOX_TERMINATION_OPERATOR_SIGNAL st ?t3 =
            (r, s4, t4)" by (metis prod_cases3)
        have E: "terminate_for k cgroup SANDBOX_TERMINATION_OPERATOR_SIGNAL s4 ws t4 = Some res"
          using eq False Q unfolding sig by (simp add: Let_def sig)
        obtain ev where ev: "?t3 = ?t2 @ ev" using warn.log_appends by blast
        have "Sync (ReadSignal ?n) \<in> set ?t3" unfolding ev by simp
        note q = supervision_operator [OF Q R this False, of cgroup "{}" ws]
        have "supervision k cgroup {} (st, ws, tr) (s4, ws, t4)"
          using supervision_trans [OF q supervision_trans [OF supervision_log(2) supervision_trans [OF 1 1]]] .
        moreover obtain ev4 where "t4 = ?t3 @ ev4" using supervision_settled(2) [OF q] by (rule exE)
        then have "t4 = tr @ Sync (ReadSignal ?n) # Sync (ReadSignal (o_signal k ?t1)) # ev @ ev4"
          unfolding ev by simp
        then have "justified k cgroup SANDBOX_TERMINATION_OPERATOR_SIGNAL s4 tr t4"
          unfolding justified_def using False
          by (intro disjI1 conjI exI [of _ ?n]
              exI [of _ "Sync (ReadSignal ?n) # Sync (ReadSignal (o_signal k ?t1)) # ev @ ev4"]) simp_all
        ultimately show ?thesis using supervised_end [OF E] by blast
      next
        case True
        obtain alive s2 w2 t2 where P: "poll_workload k cgroup st ws ?t1 = Some (alive, s2, w2, t2)"
          using eq True unfolding sig by (auto simp: Option.bind_eq_Some_conv)
        note p = poll_workload_result(1) [OF P R, where A = "{}"] poll_workload_result(2) [OF P R]
        have 2: "supervision k cgroup {} (st, ws, tr) (s2, w2, t2)"
          using supervision_trans [OF p(1) 1] .
        obtain ev2 where ev2: "t2 = tr @ ev2" using supervision_settled(2) [OF 2] by (rule exE)
        show ?thesis
        proof (cases alive)
          case None
          with eq True P have E: "terminate_for k cgroup SANDBOX_TERMINATION_SUPERVISOR_ERROR s2 w2 t2 = Some res"
            unfolding sig by simp
          have "lost_track k cgroup tr t2"
            using lost_trackI [of k cgroup st ws ?t1 s2 w2 t2 _ tr "[Sync (ReadSignal ?n)]" t2 "[]"] P None by simp
          then have "justified k cgroup SANDBOX_TERMINATION_SUPERVISOR_ERROR s2 tr t2"
            by (simp add: justified_def)
          with supervised_end [OF E 2] show ?thesis .
        next
          case alive: (Some a)
          show ?thesis
          proof (cases a)
            case False
            with eq True P alive have "res = (0, SANDBOX_TERMINATION_NONE, s2, w2, t2)"
              unfolding sig by simp
            moreover have "empty_between k cgroup st tr t2"
              using p(2) alive False empty_between_extend [OF _ 1 supervision_refl] by blast
            ultimately show ?thesis using 2 by (simp add: supervised_def)
          next
            case a: True
            obtain snap s3 t3 where S: "sandbox_state_snapshot k s2 t2 = (snap, s3, t3)" by (metis prod_cases3)
            note 3 = supervision_trans [OF supervision_snapshot [OF S R] 2]
            obtain ev3 where ev3: "t3 = tr @ ev3" using supervision_settled(2) [OF 3] by (rule exE)
            show ?thesis
            proof (cases snap)
              case None
              with eq True P alive a S have E:
                  "terminate_for k cgroup SANDBOX_TERMINATION_SUPERVISOR_ERROR s3 w2 t3 = Some res"
                unfolding sig by simp
              have "lost_track k cgroup tr t3"
                using lost_trackI [of k cgroup s2 _ t2 s3 _ t3 _ tr ev2 t3 "[]"] S None ev2 by simp
              then have "justified k cgroup SANDBOX_TERMINATION_SUPERVISOR_ERROR s3 tr t3"
                by (simp add: justified_def)
              with supervised_end [OF E 3] show ?thesis .
            next
              case (Some s)
              with S have s: "s = s3" using snapshot_Some(1) by blast
              show ?thesis
              proof (cases "ss_termination_requested s3")
                case requested: True
                with eq True P alive a S Some s have E:
                    "terminate_for k cgroup (ss_termination_reason s3) s3 w2 t3 = Some res"
                  unfolding sig by simp
                have "justified k cgroup (ss_termination_reason s3) s3 tr t3"
                  using requested by (simp add: justified_def)
                with supervised_end [OF E 3] show ?thesis .
              next
                case not_requested: False
                obtain r t4 where Z: "supervisor_sleep k SUPERVISOR_POLL_MILLISECONDS t3 = Some (r, t4)"
                  using eq True P alive a S Some s not_requested unfolding sig
                  by (auto simp: Option.bind_eq_Some_conv)
                note 4 = supervision_trans [OF supervision_reads [OF supervisor_sleep_reads [OF Z]] 3]
                show ?thesis
                proof (cases r)
                  case r: (Some e)
                  let ?t5 = "logger_error k (''supervisor sleep failed: '' @ os_strerror k e) t4"
                  have E: "terminate_for k cgroup SANDBOX_TERMINATION_SUPERVISOR_ERROR s3 w2 ?t5 = Some res"
                    using eq True P alive a S Some s not_requested Z r unfolding sig by simp
                  obtain ev5 where "?t5 = t4 @ ev5" using error.log_appends by blast
                  then have "lost_track k cgroup tr ?t5"
                    using lost_trackI [of k cgroup _ _ t3 _ _ t4 e tr ev3 ?t5 ev5] Z r ev3 by simp
                  then have "justified k cgroup SANDBOX_TERMINATION_SUPERVISOR_ERROR s3 tr ?t5"
                    by (simp add: justified_def)
                  with supervised_end [OF E supervision_trans [OF supervision_log(3) 4]] show ?thesis .
                next
                  case None
                  have "f k cgroup s3 w2 t4 = Some res"
                    using eq True P alive a S Some s not_requested Z None unfolding sig by simp
                  from supervised_extend [OF IH [OF this, rule_format, OF R] 4] show ?thesis .
                qed
              qed
            qed
          qed
        qed
      qed
    qed
  qed
  with assms(2) show ?thesis by blast
qed

subsection \<open>The supervisor returns\<close>

lemma mark_leader_prefix:
  "sandbox_state_mark_leader_exited k st tr = (rc, st', tr') \<Longrightarrow> \<exists>ev. tr' = tr @ ev"
  using mark_leader.guarantee [where P = "\<lambda>_ _. True"] disciplined_prefix by blast

lemma record_child_prefix:
  assumes "record_child k p n st ws tr = (st', ws', tr')"
  shows "\<exists>ev. tr' = tr @ ev"
proof -
  obtain rc s1 t1 where M: "sandbox_state_mark_leader_exited k st tr = (rc, s1, t1)" by (metis prod_cases3)
  obtain ev where ev: "t1 = tr @ ev" using mark_leader_prefix [OF M] by (rule exE)
  have "\<exists>msg. tr' = logger_info k msg t1 \<or> tr' = logger_info k msg tr"
    using assms M by (auto simp: record_child_def Let_def split: if_splits)
  then show ?thesis using ev info.log_appends by (metis append.assoc)
qed

lemma reap_available_children_total:
  assumes "finite_retries b k"
  shows "total (reap_available_children k st ws tr)"
proof (induction "b - retries tr" arbitrary: st ws tr rule: less_induct)
  case less
  let ?t = "tr @ [Proc (Waitpid (o_waitpid k tr))]"
  have lt: "o_waitpid k tr = Inl EINTR \<Longrightarrow> retries tr < b"
    "o_waitpid k tr = Inr (Reaped p n) \<Longrightarrow> retries tr < b" for p n
    using assms unfolding finite_retries_def by blast+
  show ?case
  proof (cases "o_waitpid k tr")
    case (Inl e)
    show ?thesis
    proof (cases "e = EINTR")
      case True
      then have "total (reap_available_children k st ws ?t)"
        using lt Inl by (intro less) simp
      with Inl True show ?thesis
        by (subst reap_available_children.simps) (simp add: os_waitpid_def os_call_def)
    next
      case False
      with Inl show ?thesis
        by (subst reap_available_children.simps) (simp add: os_waitpid_def os_call_def)
    qed
  next
    case (Inr r)
    show ?thesis
    proof (cases r)
      case (Reaped p n)
      obtain s1 w1 t1 where C: "record_child k p n st ws ?t = (s1, w1, t1)" by (metis prod_cases3)
      obtain ev where "t1 = ?t @ ev" using record_child_prefix [OF C] by (rule exE)
      then have "total (reap_available_children k s1 w1 t1)"
        using lt(2) Inr Reaped by (intro less) simp
      with Inr Reaped C show ?thesis
        by (subst reap_available_children.simps) (simp add: os_waitpid_def os_call_def)
    next
      case None_Ready
      with Inr show ?thesis
        by (subst reap_available_children.simps) (simp add: os_waitpid_def os_call_def)
    qed
  qed
qed

lemma reap_available_children_prefix:
  assumes "reap_available_children k st ws tr = Some res"
  shows "\<exists>ev. snd (snd (snd res)) = tr @ ev"
proof (rule reap_available_children.raw_induct [where P = "\<lambda>k st ws tr res. \<exists>ev. snd (snd (snd res)) = tr @ ev",
    OF _ assms], goal_cases)
  case (1 f k st ws tr res)
  note IH = 1(1) and eq = 1(2)
  let ?t = "tr @ [Proc (Waitpid (o_waitpid k tr))]"
  have step: "\<exists>ev. u = tr @ ev" if "\<exists>ev. u = ?t @ ev" for u
    using that by auto
  show ?case
  proof (cases "\<exists>p n. o_waitpid k tr = Inr (Reaped p n)")
    case True
    then obtain p n where W: "o_waitpid k tr = Inr (Reaped p n)" by blast
    obtain s1 w1 t1 where C: "record_child k p n st ws ?t = (s1, w1, t1)" by (metis prod_cases3)
    with eq W have "f k s1 w1 t1 = Some res" by (simp add: os_waitpid_def os_call_def)
    from IH [OF this] record_child_prefix [OF C] show ?thesis by (intro step) auto
  next
    case False
    show ?thesis
    proof (cases "o_waitpid k tr = Inl EINTR")
      case True
      with eq have "f k st ws ?t = Some res" by (simp add: os_waitpid_def os_call_def)
      from IH [OF this] show ?thesis by (rule step)
    next
      case noint: False
      with eq False have "\<exists>t. res = (fst res, st, ws, t) \<and> (t = ?t \<or> (\<exists>msg. t = logger_error k msg ?t))"
        by (auto simp: os_waitpid_def os_call_def split: sum.splits wait_result.splits if_splits)
      then obtain t where t: "res = (fst res, st, ws, t)" "t = ?t \<or> (\<exists>msg. t = logger_error k msg ?t)"
        by blast
      have "\<exists>ev. t = ?t @ ev" using t(2) error.log_appends [of k _ ?t] by (metis append_Nil2)
      moreover have "snd (snd (snd res)) = t" by (subst t(1)) simp
      ultimately show ?thesis using step by simp
    qed
  qed
qed

lemma mark_workload_prefix:
  "sandbox_state_mark_workload_exited k st tr = (rc, st', tr') \<Longrightarrow> \<exists>ev. tr' = tr @ ev"
  using mark_workload.guarantee [where P = "\<lambda>_ _. True"] disciplined_prefix by blast

lemma note_workload_prefix: "note_workload k alive st tr = (st', tr') \<Longrightarrow> \<exists>ev. tr' = tr @ ev"
  by (auto simp: note_workload_def dest: mark_workload_prefix split: if_splits prod.splits)

lemma look_for_workload_prefix:
  assumes "look_for_workload k cgroup s st tr = (alive, st', tr')"
  shows "\<exists>ev. tr' = tr @ ev"
proof -
  obtain t where t: "\<exists>ev. t = tr @ ev"
      and tr': "tr' = t \<or> (\<exists>b. note_workload k b st t = (st', tr')) \<or> (\<exists>msg. tr' = logger_error k msg t)"
  proof (cases "cg_active cgroup")
    case True
    obtain r t where P: "sandbox_cgroup_is_populated k cgroup tr = (r, t)" by fastforce
    have "\<exists>ev. t = tr @ ev" using is_populated_io [OF P] by (auto elim: extendsE)
    with assms True P show thesis
      by (intro that [of t]) (auto simp: look_for_workload_def split: sum.splits prod.splits)
  next
    case False
    obtain rc sample t where P: "process_tree_sample k (ss_supervisor_pid s) (ss_child_pid s)
        (ss_leader_alive s) tr = (rc, sample, t)" by (metis prod_cases3)
    have "\<exists>ev. t = tr @ ev" using process_tree_sample_io [OF P] by (auto elim: extendsE)
    with assms False P show thesis
      by (intro that [of t]) (auto simp: look_for_workload_def Let_def split: prod.splits if_splits)
  qed
  from t obtain ev1 where ev1: "t = tr @ ev1" by (rule exE)
  have "\<exists>ev. tr' = t @ ev"
    using tr' note_workload_prefix error.log_appends by (metis append_Nil2)
  then obtain ev2 where "tr' = t @ ev2" by (rule exE)
  then have "tr' = tr @ ev1 @ ev2" unfolding ev1 by simp
  then show ?thesis by (rule exI)
qed

lemma poll_workload_prefix:
  assumes "poll_workload k cgroup st ws tr = Some (alive, st', ws', tr')"
  shows "\<exists>ev. tr' = tr @ ev"
proof -
  obtain rc s1 w1 t1 where R: "reap_available_children k st ws tr = Some (rc, s1, w1, t1)"
    using assms by (auto simp: poll_workload_def Option.bind_eq_Some_conv)
  obtain snap s2 t2 where S: "sandbox_state_snapshot k s1 t1 = (snap, s2, t2)" by (metis prod_cases3)
  obtain ev1 where 1: "t1 = tr @ ev1" using reap_available_children_prefix [OF R] by auto
  obtain ev2 where 2: "t2 = t1 @ ev2"
    using snapshot.guarantee [OF S, where P = "\<lambda>_ _. True"] disciplined_prefix by blast
  show ?thesis
  proof (cases "rc \<noteq> 0 \<or> snap = None")
    case True
    then have "tr' = t1 \<or> tr' = t2"
      using assms R S by (cases "rc = 0"; simp add: poll_workload_def)
    then show ?thesis using 1 2 by auto
  next
    case False
    then obtain s where s: "snap = Some s" "rc = 0" by blast
    obtain a s3 t3 where L: "look_for_workload k cgroup s s2 t2 = (a, s3, t3)" by (metis prod_cases3)
    have "tr' = t3" using assms R S s L by (simp add: poll_workload_def)
    with look_for_workload_prefix [OF L] 1 2 show ?thesis by auto
  qed
qed

lemma poll_workload_total: "finite_retries b k \<Longrightarrow> total (poll_workload k cgroup st ws tr)"
  unfolding poll_workload_def by (intro total_rules reap_available_children_total)

lemma signal_workload_total: "finite_retries b k \<Longrightarrow> total (signal_workload k cgroup sig st tr)"
  unfolding signal_workload_def kill_cgroup_def sandbox_cgroup_kill_def
  by (intro total_rules write_text_file_total)

lemma kill_again_total: "finite_retries b k \<Longrightarrow> total (kill_again k cgroup again st tr)"
  unfolding kill_again_def by (intro total_rules signal_workload_total)

lemma wait_for_workload_exit_total:
  assumes "finite_retries b k" and "unat timeout \<le> 2 ^ 31"
  shows "total (wait_for_workload_exit k cgroup timeout again w st ws tr)"
proof (induction "unat timeout - unat w" arbitrary: w st ws tr rule: less_induct)
  case less
  show ?case
  proof (subst wait_for_workload_exit.simps, intro total_rules poll_workload_total [OF assms(1)]
      kill_again_total [OF assms(1)] supervisor_sleep_total [OF assms(1)] less)
    assume "\<not> timeout \<le> w"
    from unat_add_poll [OF this assms(2)] this
    show "unat timeout - unat (w + SUPERVISOR_POLL_MILLISECONDS) < unat timeout - unat w"
      by (simp add: word_le_nat_alt)
  qed
qed

lemma terminate_workload_total:
  "finite_retries b k \<Longrightarrow> total (terminate_workload k cgroup reason st ws tr)"
  unfolding terminate_workload_def
  by (intro total_rules signal_workload_total wait_for_workload_exit_total; simp add: unat_times)

lemma terminate_for_total: "finite_retries b k \<Longrightarrow> total (terminate_for k cgroup reason st ws tr)"
  unfolding terminate_for_def by (intro total_rules terminate_workload_total)

text \<open>After \<open>n\<close> uses of the mutex, the operator has sent a signal, or a request for termination stands.\<close>

definition ended_after :: "nat \<Rightarrow> kernel \<Rightarrow> bool" where
  "ended_after n k \<longleftrightarrow>
     (\<forall>tr. n \<le> locks tr \<longrightarrow> o_signal k tr \<noteq> 0) \<or>
     (\<forall>tr st. n \<le> locks tr \<longrightarrow> ss_termination_requested (o_others k tr st))"

lemma supervise_workload_total:
  assumes "finite_retries b k" and "ended_after n k"
  shows "total (supervise_workload k cgroup st ws tr)"
proof -
  note basics = total_rules terminate_for_total [OF assms(1)] poll_workload_total [OF assms(1)]
    supervisor_sleep_total [OF assms(1)]
  show ?thesis
  proof (induction "n - locks tr" arbitrary: st ws tr rule: less_induct)
    case less
    show ?case
    proof (subst supervise_workload.simps, intro basics)
      fix sig t1 x alive y s1 z w1 t2 living a a' snapshot s2 t3 x' slept t4
      assume sig: "os_signal k tr = (sig, t1)" "\<not> sig \<noteq> 0"
        and P: "poll_workload k cgroup st ws t1 = Some x" "x = (alive, y)" "y = (s1, z)" "z = (w1, t2)"
        and S: "sandbox_state_snapshot k s1 t2 = (a, a')" "a = Some snapshot" "a' = (s2, t3)"
        and run: "\<not> ss_termination_requested snapshot"
        and Z: "supervisor_sleep k SUPERVISOR_POLL_MILLISECONDS t3 = Some x'" "x' = (slept, t4)"
      obtain ev where ev: "t2 = t1 @ ev"
        using poll_workload_prefix [OF P(1) [unfolded P(2-4)]] by (rule exE)
      have t1: "t1 = tr @ [Sync (ReadSignal sig)]" "sig = o_signal k tr"
        using sig(1) by (auto simp: os_signal_def os_call_def)
      note snap = snapshot_Some [OF S(1) [unfolded S(2,3)]]
      obtain ev4 where ev4: "t4 = t3 @ ev4"
        using supervisor_sleep_reads [OF Z(1) [unfolded Z(2)]] by (auto elim: extendsE)
      have "locks tr < n"
      proof (rule ccontr)
        assume "\<not> locks tr < n"
        then have n: "n \<le> locks tr" "n \<le> locks t2" by (simp_all add: ev t1)
        from assms(2) show False
          unfolding ended_after_def
        proof
          assume "\<forall>tr. n \<le> locks tr \<longrightarrow> o_signal k tr \<noteq> 0"
          then have "o_signal k tr \<noteq> 0" using n(1) by simp
          with sig(2) t1(2) show False by simp
        next
          assume "\<forall>tr st. n \<le> locks tr \<longrightarrow> ss_termination_requested (o_others k tr st)"
          then have "ss_termination_requested (o_others k t2 s1)" using n(2) by simp
          with run snap(1,2) show False by simp
        qed
      qed
      moreover have "locks tr < locks t4" by (simp add: ev ev4 snap(3) t1(1) locks_def lock_event_def)
      ultimately show "total (supervise_workload k cgroup s2 w1 t4)"
        by (intro less) linarith
    qed
  qed
qed

subsection \<open>What the books say\<close>

lemma collect_simps [simp]:
  "ws_reaped_processes (collect l c ws) = ws_reaped_processes ws + 1"
  "ws_leader_status_available (collect l c ws) \<longleftrightarrow> ws_leader_status_available ws \<or> fst c = l"
  "ws_leader_status (collect l c ws) =
     (if fst c = l \<and> \<not> ws_leader_status_available ws then snd c else ws_leader_status ws)"
  by (auto simp: collect_def Let_def)

lemma collect_known: "ws_leader_status_available ws \<Longrightarrow>
    ws_leader_status_available (fold (collect l) cs ws) \<and>
    ws_leader_status (fold (collect l) cs ws) = ws_leader_status ws"
  by (induction cs arbitrary: ws) simp_all

lemma collect_first:
  "\<not> ws_leader_status_available ws \<Longrightarrow>
   (if ws_leader_status_available (fold (collect l) cs ws)
    then map_of cs l = Some (ws_leader_status (fold (collect l) cs ws)) else map_of cs l = None)"
proof (induction cs arbitrary: ws)
  case (Cons c cs)
  show ?case
  proof (cases "fst c = l")
    case True
    with Cons.prems collect_known [of "collect l c ws" l cs] show ?thesis by (cases c) simp
  next
    case False
    with Cons.prems Cons.IH [of "collect l c ws"] show ?thesis by (cases c) simp
  qed
qed simp

lemma collect_count:
  "ws_reaped_processes (fold (collect l) cs ws) = ws_reaped_processes ws + of_nat (length cs)"
  by (induction cs arbitrary: ws) (simp_all add: algebra_simps)

text \<open>The status of the leader is the first one that \<^verbatim>\<open>waitpid\<close> gave for it, and nothing else.\<close>

definition booked :: "pid \<Rightarrow> trace \<Rightarrow> trace \<Rightarrow> WorkloadStatus \<Rightarrow> WorkloadStatus \<Rightarrow> bool" where
  "booked leader tr tr' ws ws' \<longleftrightarrow>
     (\<exists>children. reaped_children tr' = reaped_children tr @ children \<and>
        ws_reaped_processes ws' = ws_reaped_processes ws + of_nat (length children) \<and>
        (if ws_leader_status_available ws
         then ws_leader_status_available ws' \<and> ws_leader_status ws' = ws_leader_status ws
         else map_of children leader =
           (if ws_leader_status_available ws' then Some (ws_leader_status ws') else None)))"

lemma supervision_booked:
  assumes "supervision k cgroup A (st, ws, tr) (st', ws', tr')"
  shows "booked (ss_child_pid st) tr tr' ws ws'"
proof -
  obtain cs where "reaped_children tr' = reaped_children tr @ cs"
      "ws' = fold (collect (ss_child_pid st)) cs ws"
    using supervision_bookkeeping [OF assms] by auto
  then show ?thesis
    using collect_first [of ws "ss_child_pid st" cs] collect_known [of ws "ss_child_pid st" cs]
    unfolding booked_def by (intro exI [of _ cs]) (auto simp: collect_count split: if_splits)
qed

lemma supervised_supervision:
  assumes "supervised k cgroup st ws tr (rc, reason, st', ws', tr')" and "rely monitor_step k"
  shows "supervision k cgroup {SIGTERM, SIGKILL} (st, ws, tr) (st', ws', tr')"
    and "rc = 0 \<Longrightarrow> empty_between k cgroup st tr tr'" and "rc = 0 \<or> rc = -1"
proof -
  have "supervision k cgroup {SIGTERM, SIGKILL} (st, ws, tr) (st', ws', tr') \<and>
    (rc = 0 \<longrightarrow> empty_between k cgroup st tr tr') \<and> (rc = 0 \<or> rc = -1)"
  proof (cases "rc = 0 \<and> supervision k cgroup {} (st, ws, tr) (st', ws', tr') \<and> empty_between k cgroup st tr tr'")
    case True
    with supervision_mono [of k cgroup "{}" "(st, ws, tr)" "(st', ws', tr')"] show ?thesis by simp
  next
    case False
    then obtain s1 w1 t1 where 1: "supervision k cgroup {} (st, ws, tr) (s1, w1, t1)"
        and T: "terminate_workload k cgroup reason s1 w1 t1 = Some (rc, st', ws', tr')"
      using assms(1) by (auto simp: supervised_def)
    note t = escalates_supervision [OF terminate_workload_result [OF T assms(2)]]
    have "rc = 0 \<Longrightarrow> empty_between k cgroup st tr tr'"
      using t(2) empty_between_extend [OF _ 1 supervision_refl] by simp
    with supervision_trans [OF t(1) supervision_mono [OF 1 empty_subsetI]] t(3) show ?thesis by blast
  qed
  then show "supervision k cgroup {SIGTERM, SIGKILL} (st, ws, tr) (st', ws', tr')"
    and "rc = 0 \<Longrightarrow> empty_between k cgroup st tr tr'" and "rc = 0 \<or> rc = -1" by auto
qed

text \<open>
  A finding: with a cgroup, a leader that exits between the call of \<^verbatim>\<open>waitpid\<close> and the look at the cgroup
  leaves the cgroup empty before its status has been collected. The supervisor then returns success
  without that status, and \<^verbatim>\<open>main\<close>, which does not call \<^verbatim>\<open>waitpid\<close> again, ends with exit code 1.
\<close>

lemma leader_status_missed:
  assumes "cg_active cgroup" and "o_signal k tr = 0"
    and "o_waitpid k (tr @ [Sync (ReadSignal 0)]) = Inr None_Ready"
    and "sandbox_state_snapshot k st (tr @ [Sync (ReadSignal 0), Proc (Waitpid (Inr None_Ready))]) =
      (Some snapshot, st1, t1)"
    and "sandbox_cgroup_is_populated k cgroup t1 = (Inr False, t2)"
  shows "\<exists>st' tr'. supervise_workload k cgroup st ws tr = Some (0, SANDBOX_TERMINATION_NONE, st', ws, tr')"
proof -
  let ?t0 = "tr @ [Sync (ReadSignal 0)]"
  have W: "reap_available_children k st ws ?t0 = Some (0, st, ws, ?t0 @ [Proc (Waitpid (Inr None_Ready))])"
    using assms(3) by (subst reap_available_children.simps) (simp add: os_waitpid_def os_call_def)
  obtain rc st' t' where M: "sandbox_state_mark_workload_exited k st1 t2 = (rc, st', t')"
    by (metis prod_cases3)
  have "poll_workload k cgroup st ws ?t0 = Some (Some False, st', ws, t')"
    using assms(1,4,5) W M by (simp add: poll_workload_def look_for_workload_def note_workload_def)
  then have "supervise_workload k cgroup st ws tr = Some (0, SANDBOX_TERMINATION_NONE, st', ws, t')"
    using assms(2) by (subst supervise_workload.simps) (simp add: os_signal_def os_call_def)
  then show ?thesis by blast
qed

subsection \<open>Properties\<close>

text \<open>A machine whose operator has already sent a signal.\<close>

definition demo_signalled :: kernel where
  "demo_signalled = demo_os\<lparr>o_signal := (\<lambda>_. 2)\<rparr>"

definition no_status :: WorkloadStatus where
  "no_status = \<lparr>ws_leader_status = 0, ws_leader_status_available = False, ws_reaped_processes = 0\<rparr>"

lemma demo_signalled_ok: "finite_retries 0 demo_signalled" "ended_after 0 demo_signalled"
    "rely monitor_step demo_signalled"
  by (simp_all add: finite_retries_def ended_after_def rely_def demo_signalled_def demo_os_def)

text \<open>
  C24: supervision ends for a reason. When \<^verbatim>\<open>supervise_workload\<close> returns, either it returns 0 with no
  reason, has sent no signal, and has looked and found nothing of the workload; or it has ended the
  workload for its reason, without any signal before that: an operator's signal that was read, the
  reason that some monitor's request left in the state, or an error of its own by which it had lost
  track. Whenever the code is 0, a look has found nothing of the workload.
\<close>

theorem supervise_workload_outcome:
  assumes "supervise_workload k cgroup st ws tr = Some (rc, reason, st', ws', tr')"
    and "rely monitor_step k"
  shows "supervised k cgroup st ws tr (rc, reason, st', ws', tr') \<and>
    (rc = 0 \<longrightarrow> empty_between k cgroup st tr tr')"
  using supervise_workload_result [OF assms] supervised_supervision(2) [OF _ assms(2)] by blast

lemma supervise_workload_outcome_witness:
  "\<exists>rc reason st' ws' tr'. supervise_workload demo_signalled no_cgroup demo_running no_status [] =
      Some (rc, reason, st', ws', tr') \<and>
    supervised demo_signalled no_cgroup demo_running no_status [] (rc, reason, st', ws', tr')"
proof -
  from supervise_workload_total [OF demo_signalled_ok(1,2)] obtain res
    where "supervise_workload demo_signalled no_cgroup demo_running no_status [] = Some res"
    by (rule totalE)
  moreover obtain rc reason st' ws' tr' where res: "res = (rc, reason, st', ws', tr')" by (metis prod_cases5)
  ultimately show ?thesis
    using supervise_workload_outcome [OF _ demo_signalled_ok(3)] unfolding res by blast
qed

text \<open>
  C25: the supervisor keeps to its steps. While the other threads keep to the steps of monitors, a run
  of \<^verbatim>\<open>supervise_workload\<close> is a sequence of steps of \<open>supervision\<close>: it sends SIGTERM and SIGKILL only, to
  the process group of the workload and to members of a sample of the workload and never to itself;
  it declares the leader dead only with its status collected and the workload dead only behind a look
  that found nothing. So the shared state moves by steps of the system under the discipline of its
  mutex and keeps its invariant, and the books agree with what \<^verbatim>\<open>waitpid\<close> gave: the number of
  children, and the first status of the leader.
\<close>

theorem supervise_workload_steps:
  assumes "supervise_workload k cgroup st ws tr = Some (rc, reason, st', ws', tr')"
    and "rely monitor_step k"
  shows "supervision k cgroup {SIGTERM, SIGKILL} (st, ws, tr) (st', ws', tr') \<and>
    system_step\<^sup>*\<^sup>* st st' \<and> settled st st' \<and> (state_ok st \<longrightarrow> state_ok st') \<and>
    disciplined system_step tr tr' \<and> booked (ss_child_pid st) tr tr' ws ws'"
proof -
  note s = supervised_supervision(1) [OF supervise_workload_result [OF assms] assms(2)]
  from supervision_system [OF s] supervision_booked [OF s] system_steps_ok [of st st'] s
  show ?thesis by simp
qed

lemma supervise_workload_steps_witness:
  "\<exists>rc reason st' ws' tr'. supervise_workload demo_signalled no_cgroup demo_running no_status [] =
      Some (rc, reason, st', ws', tr') \<and> state_ok st' \<and> booked 200 [] tr' no_status ws'"
proof -
  from supervise_workload_total [OF demo_signalled_ok(1,2)] obtain res
    where "supervise_workload demo_signalled no_cgroup demo_running no_status [] = Some res"
    by (rule totalE)
  moreover obtain rc reason st' ws' tr' where res: "res = (rc, reason, st', ws', tr')" by (metis prod_cases5)
  moreover have "state_ok demo_running" "ss_child_pid demo_running = 200"
    by (simp_all add: state_ok_def demo_running_def)
  ultimately show ?thesis
    using supervise_workload_steps [OF _ demo_signalled_ok(3)] unfolding res by metis
qed

text \<open>
  C27: SIGTERM first, SIGKILL later. \<^verbatim>\<open>terminate_workload\<close> makes one round of SIGTERM, to the group and
  the members of the workload, and waits without sending anything. It sends SIGKILL (also through the
  cgroup, if there is one) only if the sleeps of that wait took a whole second or the supervisor lost
  track of the workload in it, and otherwise returns 0 behind a look that found nothing of the
  workload. After the round of SIGKILL it sends SIGKILL only, and returns 0 only when a look has found
  nothing, and -1 only if the sleeps of the second wait took five seconds or the supervisor lost track
  in it. Time is that of the calls of \<^verbatim>\<open>nanosleep\<close>, in nanoseconds, interrupted ones included.
\<close>

theorem terminate_workload_escalates:
  assumes "terminate_workload k cgroup reason st ws tr = Some (rc, st', ws', tr')"
    and "rely monitor_step k"
  shows "escalates k cgroup (st, ws, tr) rc (st', ws', tr')"
  using assms by (rule terminate_workload_result)

lemma terminate_workload_escalates_witness:
  "\<exists>rc st' ws' tr'. terminate_workload demo_signalled no_cgroup SANDBOX_TERMINATION_TIMEOUT demo_running
      no_status [] = Some (rc, st', ws', tr') \<and>
    escalates demo_signalled no_cgroup (demo_running, no_status, []) rc (st', ws', tr')"
proof -
  from terminate_workload_total [OF demo_signalled_ok(1)] obtain res where
    "terminate_workload demo_signalled no_cgroup SANDBOX_TERMINATION_TIMEOUT demo_running no_status [] = Some res"
    by (rule totalE)
  moreover obtain rc st' ws' tr' where res: "res = (rc, st', ws', tr')" by (metis prod_cases4)
  ultimately show ?thesis
    using terminate_workload_escalates [OF _ demo_signalled_ok(3)] unfolding res by blast
qed

text \<open>
  C28: a signal reaches the whole workload. When \<^verbatim>\<open>signal_workload\<close> returns 0, it has signalled exactly
  the process group of the workload and then, in order, every member of a sample of the workload but
  the members of the group if the signal to the group was delivered, non-positive PIDs and the
  supervisor itself; nobody else got a signal, and the kernel refused none of them but for processes
  that no longer exist.
\<close>

theorem signal_workload_reaches:
  assumes "signal_workload k cgroup sig st tr = Some (0, st', tr')" and "rely monitor_step k"
  shows "reached k st' tr tr' sig \<and> extends (\<lambda>e. \<not> failed_kill e) tr tr'"
  using signal_workload_result(2) [OF assms(1,2)] by blast

lemma signal_workload_reaches_witness:
  "\<exists>st' tr'. signal_workload demo_os no_cgroup SIGTERM demo_running [] = Some (0, st', tr') \<and>
     reached demo_os st' [] tr' SIGTERM"
proof -
  obtain t1 where S: "sandbox_state_snapshot demo_os demo_running [] = (Some demo_running, demo_running, t1)"
    by (simp add: sandbox_state_snapshot_def lock_state_def unlock_state_def os_lock_def os_unlock_def os_call_def
        Let_def demo_os_def)
  obtain t2 where G: "kill_group demo_os 200 SIGTERM t1 = (True, True, t2)"
    by (simp add: kill_group_def os_kill_def os_call_def demo_os_def)
  have E: "select_closure [] [] = []"
    by (subst select_closure.simps) (simp add: select_round_def)
  obtain t3 where P: "process_tree_sample demo_os 100 200 True t2 = (0, zero_sample, t3)"
    by (simp add: process_tree_sample_def collect_all_processes_def os_opendir_def os_closedir_def os_alloc_def
        os_call_def demo_os_def E initial_selection_def Let_def)
  have ids: "ss_supervisor_pid demo_running = 100" "ss_child_pid demo_running = 200"
      "ss_child_process_group_id demo_running = 200" "ss_leader_alive demo_running"
    by (simp_all add: demo_running_def)
  obtain t4 where Q: "signal_processes demo_os demo_running SIGTERM True t1 = (0, t4)"
    by (simp add: signal_processes_def ids G P)
  have "signal_workload demo_os no_cgroup SIGTERM demo_running [] = Some (0, demo_running, t4)"
    by (simp add: signal_workload_def S Q kill_cgroup_def)
  moreover have "rely monitor_step demo_os" by (simp add: rely_def demo_os_def)
  ultimately show ?thesis using signal_workload_reaches by blast
qed

end
