(* ===== verification/Sandbox_Main.thy ===== *)
theory Sandbox_Main
  imports Supervision
begin

text \<open>
  The controller of the sandbox: \<^verbatim>\<open>main\<close> of \<^verbatim>\<open>Sandbox/Sandbox.c\<close>, from its command line to its exit
  code, put together from the options, the cgroup, the launch of the child, the monitor threads and
  the supervisor. Its local variables are the record \<open>controller\<close>; the jump to \<^verbatim>\<open>cleanup\<close> is the boolean
  \<open>False\<close> of the stages before it. The process that \<^verbatim>\<open>fork\<close> makes continues the trace as the child.
\<close>

definition MONITOR_POLL_MILLISECONDS :: u32 where
  "MONITOR_POLL_MILLISECONDS = 100"

definition MEMORY_POLL_MILLISECONDS :: u32 where
  "MEMORY_POLL_MILLISECONDS = 25"

definition CPU_POLL_MILLISECONDS :: u32 where
  "CPU_POLL_MILLISECONDS = 250"

record controller =
  c_options :: SandboxOptions
  c_state :: SandboxState
  c_cgroup :: SandboxCgroup
  c_status :: WorkloadStatus
  c_reason :: SandboxTerminationReason
  c_launch_read :: fd
  c_launch_write :: fd
  c_child_started :: bool
  c_workload_finished :: bool
  c_timeout_started :: bool
  c_memory_started :: bool
  c_cpu_started :: bool

definition initial_controller :: "SandboxOptions \<Rightarrow> SandboxState \<Rightarrow> controller" where
  "initial_controller options st =
     \<lparr>c_options = options, c_state = st, c_cgroup = no_cgroup,
      c_status = \<lparr>ws_leader_status = 0, ws_leader_status_available = False, ws_reaped_processes = 0\<rparr>,
      c_reason = SANDBOX_TERMINATION_NONE, c_launch_read = -1, c_launch_write = -1,
      c_child_started = False, c_workload_finished = False, c_timeout_started = False,
      c_memory_started = False, c_cpu_started = False\<rparr>"

text \<open>The end of a process: the exit code of the controller, or that of a child, which is in its trace.\<close>

datatype process_end = Controller_Exit int | Child_End

subsection \<open>Up to the fork\<close>

definition prepare_launch :: "kernel \<Rightarrow> controller \<Rightarrow> trace \<Rightarrow> (bool \<times> controller \<times> trace) option" where
  "prepare_launch k c tr =
     (case enable_child_subreaper k tr of (rc, tr) \<Rightarrow>
        if rc \<noteq> 0 then Some (False, c, tr)
        else case install_operator_signal_handlers k tr of
          (Some e, tr) \<Rightarrow>
            Some (False, c, logger_error k (''operator signal handler setup failed: '' @ os_strerror k e) tr)
        | (None, tr) \<Rightarrow>
            let tr = logger_info k
                  (''sandbox controller starting: target='' @ target_path (c_options c) @ '' timeout='' @
                   show_nat (unat (timeout_seconds (c_options c))) @ '' seconds memory_limit='' @
                   show_nat (unat (memory_limit_kilobytes (c_options c))) @ '' kB'') tr
            in do {
              (_, cgroup, tr) \<leftarrow> sandbox_cgroup_prepare k (memory_limit_kilobytes (c_options c)) tr;
              let c = c\<lparr>c_cgroup := cgroup\<rparr>;
              case os_pipe k tr of
                (Inl e, tr) \<Rightarrow>
                  Some (False, c,
                        logger_error k (''launch synchronization pipe failed: '' @ os_strerror k e) tr)
              | (Inr (rd, wr), tr) \<Rightarrow> Some (True, c\<lparr>c_launch_read := rd, c_launch_write := wr\<rparr>, tr)
            })"

subsection \<open>The parent behind the fork\<close>

definition group_child :: "kernel \<Rightarrow> pid \<Rightarrow> controller \<Rightarrow> trace \<Rightarrow> controller \<times> trace" where
  "group_child k child_pid c tr =
     (case os_setpgid k child_pid child_pid tr of
        (Some e, tr) \<Rightarrow>
          if e \<noteq> EACCES \<and> e \<noteq> ESRCH
          then (c\<lparr>c_reason := SANDBOX_TERMINATION_SUPERVISOR_ERROR\<rparr>,
                logger_error k (''parent setpgid('' @ show_int child_pid @ '') failed: '' @
                                os_strerror k e) tr)
          else (c, tr)
      | (None, tr) \<Rightarrow> (c, tr))"

definition attach_child :: "kernel \<Rightarrow> pid \<Rightarrow> controller \<Rightarrow> trace \<Rightarrow> (controller \<times> trace) option" where
  "attach_child k child_pid c tr =
     (if cg_active (c_cgroup c)
      then do {
        (r, tr) \<leftarrow> sandbox_cgroup_attach k (c_cgroup c) child_pid tr;
        case r of
          Some e \<Rightarrow>
            Some (c\<lparr>c_reason := SANDBOX_TERMINATION_SUPERVISOR_ERROR\<rparr>,
                  logger_error k (''could not attach PID '' @ show_int child_pid @
                                  '' to sandbox cgroup: '' @ os_strerror k e) tr)
        | None \<Rightarrow> Some (c, tr)
      }
      else Some (c, tr))"

definition heed_operator :: "kernel \<Rightarrow> controller \<Rightarrow> trace \<Rightarrow> controller \<times> trace" where
  "heed_operator k c tr =
     (case os_signal k tr of
        (operator_signal_number, tr) \<Rightarrow>
          if operator_signal_number \<noteq> 0
          then case os_signal k tr of
            (operator_signal_number, tr) \<Rightarrow>
              (c\<lparr>c_reason := SANDBOX_TERMINATION_OPERATOR_SIGNAL\<rparr>,
               logger_warn k (''operator signal '' @ show_int operator_signal_number @
                              '' received during workload setup'') tr)
          else (c, tr))"

definition let_child_go :: "kernel \<Rightarrow> controller \<Rightarrow> trace \<Rightarrow> (controller \<times> trace) option" where
  "let_child_go k c tr =
     (if c_reason c = SANDBOX_TERMINATION_NONE
      then do {
        (r, tr) \<leftarrow> release_child k (c_launch_write c) tr;
        case r of
          Some e \<Rightarrow>
            Some (c\<lparr>c_reason := SANDBOX_TERMINATION_SUPERVISOR_ERROR\<rparr>,
                  logger_error k (''could not release isolated child: '' @ os_strerror k e) tr)
        | None \<Rightarrow> Some (c, tr)
      }
      else Some (c, tr))"

definition announce :: "kernel \<Rightarrow> pid \<Rightarrow> controller \<Rightarrow> trace \<Rightarrow> trace" where
  "announce k child_pid c tr =
     (case os_getpid k tr of (self, tr) \<Rightarrow>
        logger_info k
          ''child hardening active: Landlock filesystem allowlist, seccomp network deny, minimal environment, closed FDs, PR_SET_PDEATHSIG=SIGKILL''
          (logger_info k
            (''supervising workload: leader PID='' @ show_int child_pid @ '' PGID='' @ show_int child_pid @
             '' subreaper PID='' @ show_int self @ '' membership='' @
             (if cg_active (c_cgroup c) then ''cgroup v2'' else ''process-tree ancestry'')) tr))"

definition start_child :: "kernel \<Rightarrow> pid \<Rightarrow> controller \<Rightarrow> trace \<Rightarrow> (bool \<times> controller \<times> trace) option" where
  "start_child k child_pid c tr =
     (case os_close k (c_launch_read c) tr of (_, tr) \<Rightarrow>
      case group_child k child_pid (c\<lparr>c_child_started := True, c_launch_read := -1\<rparr>) tr of (c, tr) \<Rightarrow>
      case sandbox_state_set_workload k child_pid child_pid (c_state c) tr of
        (rc, st, tr) \<Rightarrow>
          let c = c\<lparr>c_state := st\<rparr> in
          if rc \<noteq> 0
          then
            let tr = logger_error k ''unable to initialize workload process-tree state'' tr;
                (_, tr) = os_kill k child_pid SIGKILL tr;
                tr = os_wait_child child_pid tr
            in Some (False, c\<lparr>c_child_started := False\<rparr>, tr)
          else do {
            (c, tr) \<leftarrow> attach_child k child_pid c tr;
            let (c, tr) = heed_operator k c tr;
            (c, tr) \<leftarrow> let_child_go k c tr;
            let (_, tr) = os_close k (c_launch_write c) tr;
            let c = c\<lparr>c_launch_write := -1\<rparr>;
            Some (True, c, announce k child_pid c tr)
          })"

subsection \<open>Threads\<close>

text \<open>What a thread runs, with the configuration that it is given.\<close>

definition monitor_body ::
    "kernel \<Rightarrow> (u64 \<Rightarrow> int \<Rightarrow> u64 \<Rightarrow> string) \<Rightarrow> controller \<Rightarrow> monitor_thread \<Rightarrow> SandboxState \<Rightarrow> trace \<Rightarrow>
     (SandboxState \<times> trace) option" where
  "monitor_body k percent c thread st tr =
     (case thread of
        Timeout_Monitor \<Rightarrow>
          timeout_monitor_thread k (timeout_seconds (c_options c)) MONITOR_POLL_MILLISECONDS st tr
      | Memory_Monitor \<Rightarrow>
          memory_monitor_thread k (c_cgroup c) (memory_limit_kilobytes (c_options c))
            MEMORY_POLL_MILLISECONDS st tr
      | Cpu_Monitor \<Rightarrow> cpu_monitor_thread k percent CPU_POLL_MILLISECONDS st tr)"

definition thread_name :: "monitor_thread \<Rightarrow> string" where
  "thread_name thread =
     (case thread of
        Timeout_Monitor \<Rightarrow> ''timeout'' | Memory_Monitor \<Rightarrow> ''memory'' | Cpu_Monitor \<Rightarrow> ''CPU'')"

definition start_thread ::
    "kernel \<Rightarrow> monitor_thread \<Rightarrow> controller \<Rightarrow> trace \<Rightarrow> bool \<times> controller \<times> trace" where
  "start_thread k thread c tr =
     (case os_create k thread tr of
        (Some e, tr) \<Rightarrow>
          let tr = logger_error k (thread_name thread @ '' monitor thread creation failed: '' @
                                   os_strerror k e) tr
          in (case sandbox_state_request_termination k SANDBOX_TERMINATION_MONITOR_ERROR (c_state c) tr of
                (_, st, tr) \<Rightarrow> (False, c\<lparr>c_state := st\<rparr>, tr))
      | (None, tr) \<Rightarrow> (True, c, tr))"

definition start_monitors :: "kernel \<Rightarrow> controller \<Rightarrow> trace \<Rightarrow> controller \<times> trace" where
  "start_monitors k c tr =
     (case start_thread k Timeout_Monitor c tr of (started, c, tr) \<Rightarrow>
      let c = c\<lparr>c_timeout_started := started\<rparr> in
      case (if 0 < memory_limit_kilobytes (c_options c) then start_thread k Memory_Monitor c tr
            else (False, c, tr)) of (started, c, tr) \<Rightarrow>
      let c = c\<lparr>c_memory_started := started\<rparr> in
      case start_thread k Cpu_Monitor c tr of (started, c, tr) \<Rightarrow>
        (c\<lparr>c_cpu_started := started\<rparr>, tr))"

definition join_thread :: "kernel \<Rightarrow> monitor_thread \<Rightarrow> bool \<Rightarrow> trace \<Rightarrow> trace" where
  "join_thread k thread started tr =
     (if started
      then case os_join k thread tr of
        (Some e, tr) \<Rightarrow>
          logger_error k (thread_name thread @ '' monitor thread join failed: '' @ os_strerror k e) tr
      | (None, tr) \<Rightarrow> tr
      else tr)"

subsection \<open>Supervision and cleanup\<close>

definition end_workload :: "kernel \<Rightarrow> controller \<Rightarrow> trace \<Rightarrow> (controller \<times> trace) option" where
  "end_workload k c tr = do {
     (rc, st, ws, tr) \<leftarrow> terminate_workload k (c_cgroup c) (c_reason c) (c_state c) (c_status c) tr;
     Some (c\<lparr>c_state := st, c_status := ws,
             c_workload_finished := c_workload_finished c \<or> rc = 0\<rparr>, tr)
   }"

definition watch_workload :: "kernel \<Rightarrow> controller \<Rightarrow> trace \<Rightarrow> (controller \<times> trace) option" where
  "watch_workload k c tr =
     (if c_reason c \<noteq> SANDBOX_TERMINATION_NONE then end_workload k c tr
      else do {
        (rc, reason, st, ws, tr) \<leftarrow> supervise_workload k (c_cgroup c) (c_state c) (c_status c) tr;
        Some (c\<lparr>c_state := st, c_status := ws, c_reason := reason,
                c_workload_finished := c_workload_finished c \<or> rc = 0\<rparr>, tr)
      })"

definition close_launch :: "kernel \<Rightarrow> fd \<Rightarrow> trace \<Rightarrow> trace" where
  "close_launch k descriptor tr =
     (if 0 \<le> descriptor then snd (os_close k descriptor tr) else tr)"

definition finish_workload :: "kernel \<Rightarrow> controller \<Rightarrow> trace \<Rightarrow> (controller \<times> trace) option" where
  "finish_workload k c tr =
     (if c_child_started c \<and> \<not> c_workload_finished c
      then
        let c = (if c_reason c = SANDBOX_TERMINATION_NONE
                 then c\<lparr>c_reason := SANDBOX_TERMINATION_SUPERVISOR_ERROR\<rparr> else c);
            tr = logger_warn k ''performing cleanup for an active workload tree'' tr
        in end_workload k c tr
      else Some (c, tr))"

definition report_workload :: "kernel \<Rightarrow> controller \<Rightarrow> trace \<Rightarrow> int \<times> trace" where
  "report_workload k c tr =
     (if c_workload_finished c \<and> ws_leader_status_available (c_status c)
      then report_child_status k (ws_leader_status (c_status c)) (c_reason c)
             (logger_info k (''workload cleanup complete: reaped_processes='' @
                             show_nat (unat (ws_reaped_processes (c_status c)))) tr)
      else if c_child_started c
      then (EXIT_FAILURE, logger_error k ''original workload leader status was not collected'' tr)
      else (EXIT_FAILURE, tr))"

definition cleanup :: "kernel \<Rightarrow> controller \<Rightarrow> trace \<Rightarrow> (int \<times> trace) option" where
  "cleanup k c tr = do {
     let tr = close_launch k (c_launch_write c) (close_launch k (c_launch_read c) tr);
     (c, tr) \<leftarrow> finish_workload k c tr;
     let (st, tr) =
       (if c_child_started c \<and> c_workload_finished c
        then snd (sandbox_state_mark_workload_exited k (c_state c) tr) else (c_state c, tr));
     let tr = join_thread k Timeout_Monitor (c_timeout_started c) tr;
     let tr = join_thread k Memory_Monitor (c_memory_started c) tr;
     let tr = join_thread k Cpu_Monitor (c_cpu_started c) tr;
     let (exit_code, tr) = report_workload k c tr;
     let tr = (if cg_active (c_cgroup c)
               then snd (snd (sandbox_cgroup_destroy k (c_cgroup c) tr)) else tr);
     let (_, tr) = sandbox_state_destroy k tr;
     Some (exit_code, tr)
   }"

definition run_parent :: "kernel \<Rightarrow> pid \<Rightarrow> controller \<Rightarrow> trace \<Rightarrow> (controller \<times> trace) option" where
  "run_parent k child_pid c tr = do {
     (go_on, c, tr) \<leftarrow> start_child k child_pid c tr;
     if go_on
     then case start_monitors k c tr of (c, tr) \<Rightarrow> watch_workload k c tr
     else Some (c, tr)
   }"

text \<open>\<open>None\<close> is the child, which does not come back.\<close>

definition sandbox_run ::
    "kernel \<Rightarrow> headers \<Rightarrow> pid \<Rightarrow> controller \<Rightarrow> trace \<Rightarrow> (controller option \<times> trace) option" where
  "sandbox_run k h supervisor_pid c tr = do {
     (go_on, c, tr) \<leftarrow> prepare_launch k c tr;
     if \<not> go_on then Some (Some c, tr)
     else case os_fork k tr of
       (Inl e, tr) \<Rightarrow> Some (Some c, logger_error k (''fork() failed: '' @ os_strerror k e) tr)
     | (Inr child_pid, tr) \<Rightarrow>
         if child_pid = 0
         then do {
           tr \<leftarrow> run_sandbox_child k h (c_options c) (c_launch_read c) (c_launch_write c)
                  supervisor_pid tr;
           Some (None, tr)
         }
         else do {
           (c, tr) \<leftarrow> run_parent k child_pid c tr;
           Some (Some c, tr)
         }
   }"

definition sandbox_main ::
    "kernel \<Rightarrow> headers \<Rightarrow> string list \<Rightarrow> trace \<Rightarrow> (process_end \<times> trace) option" where
  "sandbox_main k h argv tr =
     (case os_getpid k tr of (supervisor_pid, tr) \<Rightarrow>
      case parse_options argv tr of
        (None, tr) \<Rightarrow>
          Some (Controller_Exit EXIT_FAILURE,
                print_usage (case argv of [] \<Rightarrow> ''(null)'' | program # _ \<Rightarrow> program) tr)
      | (Some options, tr) \<Rightarrow>
          case sandbox_state_init k tr of
            (rc, st, tr) \<Rightarrow>
              if rc \<noteq> 0 then Some (Controller_Exit EXIT_FAILURE, tr)
              else do {
                (r, tr) \<leftarrow> sandbox_run k h supervisor_pid (initial_controller options st) tr;
                case r of
                  None \<Rightarrow> Some (Child_End, tr)
                | Some c \<Rightarrow> do {
                    (exit_code, tr) \<leftarrow> cleanup k c tr;
                    Some (Controller_Exit exit_code, tr)
                  }
              })"

end
