(* ===== verification/Main_Stages.thy ===== *)
theory Main_Stages
  imports Sandbox_Main
begin

text \<open>
  The stages of \<^verbatim>\<open>main\<close> of the sandbox: what each leaves to be taken back, what it does to the
  controller's variables and to the shared state, and that most of them touch no process.
\<close>

subsection \<open>What the controller has set up\<close>

text \<open>
  What a trace leaves standing: the threads that were created, in order; the directory that was made
  and not removed (a removal that fails leaves it); the ends of pipes that are open (\<^verbatim>\<open>close\<close> frees a
  descriptor on Linux whatever it reports).
\<close>

fun created_thread :: "sandbox_event \<Rightarrow> monitor_thread list" where
  "created_thread (Sync (ThreadCreate t None)) = [t]"
| "created_thread e = []"

definition created :: "trace \<Rightarrow> monitor_thread list" where
  "created tr = concat (map created_thread tr)"

fun directory_step :: "string option \<Rightarrow> sandbox_event \<Rightarrow> string option" where
  "directory_step d (File (Mkdir p m None)) = Some p"
| "directory_step d (File (Rmdir p None)) = (if d = Some p then None else d)"
| "directory_step d e = d"

definition standing :: "trace \<Rightarrow> string option" where
  "standing tr = foldl directory_step None tr"

fun ends_step :: "fd set \<Rightarrow> sandbox_event \<Rightarrow> fd set" where
  "ends_step E (Proc (Pipe (Inr (rd, wr)))) = insert rd (insert wr E)"
| "ends_step E (File (Close d r)) = E - {d}"
| "ends_step E e = E"

definition open_ends :: "trace \<Rightarrow> fd set" where
  "open_ends tr = foldl ends_step {} tr"

lemma standing_simps [simp]:
  "created [] = []" "created (tr @ ev) = created tr @ created ev" "created (e # tr) = created_thread e @ created tr"
  "standing [] = None" "standing (tr @ [e]) = directory_step (standing tr) e"
  "open_ends [] = {}" "open_ends (tr @ [e]) = ends_step (open_ends tr) e"
  by (simp_all add: created_def standing_def open_ends_def)

text \<open>
  The calls by which the controller takes things back, and the events that neither set up nor take
  back anything.
\<close>

fun teardown :: "sandbox_event \<Rightarrow> bool" where
  "teardown (Sync (ThreadJoin t r)) \<longleftrightarrow> True"
| "teardown (Sync (MutexDestroy r)) \<longleftrightarrow> True"
| "teardown e \<longleftrightarrow> False"

fun free :: "sandbox_event \<Rightarrow> bool" where
  "free (Sync (ThreadCreate t r)) \<longleftrightarrow> r \<noteq> None"
| "free (Sync (ThreadJoin t r)) \<longleftrightarrow> False"
| "free (Sync (MutexInit r)) \<longleftrightarrow> r \<noteq> None"
| "free (Sync (MutexDestroy r)) \<longleftrightarrow> False"
| "free (Proc (Pipe r)) \<longleftrightarrow> isl r"
| "free (File (Mkdir p m r)) \<longleftrightarrow> r \<noteq> None"
| "free (File (Rmdir p r)) \<longleftrightarrow> False"
| "free e \<longleftrightarrow> True"

lemma free_File: "free (File f) \<longleftrightarrow> (\<forall>p m. f \<noteq> Mkdir p m None) \<and> (\<forall>p r. f \<noteq> Rmdir p r)"
  by (cases "File f" rule: free.cases) auto

lemma free_event:
  "free e \<Longrightarrow> created_thread e = [] \<and> directory_step d e = d \<and> ends_step E e \<subseteq> E \<and> \<not> teardown e"
  by (cases e rule: free.cases) (auto simp: isl_def)

lemma free_keeps:
  assumes "extends free tr tr'"
  shows "created tr' = created tr" and "standing tr' = standing tr" and "open_ends tr' \<subseteq> open_ends tr"
    and "list_all (\<lambda>e. \<not> teardown e) tr \<Longrightarrow> list_all (\<lambda>e. \<not> teardown e) tr'"
proof -
  from assms obtain ev where tr': "tr' = tr @ ev" and ev: "list_all free ev" by (rule extendsE)
  have "created (tr @ ev) = created tr \<and> standing (tr @ ev) = standing tr \<and>
      open_ends (tr @ ev) \<subseteq> open_ends tr \<and> list_all (\<lambda>e. \<not> teardown e) ev"
    using ev
  proof (induction ev rule: rev_induct)
    case (snoc e ev)
    then have e: "free e" and IH: "created (tr @ ev) = created tr" "standing (tr @ ev) = standing tr"
        "open_ends (tr @ ev) \<subseteq> open_ends tr" "list_all (\<lambda>e. \<not> teardown e) ev" by simp_all
    note n = free_event [OF e, of "standing (tr @ ev)" "open_ends (tr @ ev)"]
    have "standing ((tr @ ev) @ [e]) = standing tr"
      unfolding standing_simps(5) using n IH(2) by simp
    moreover have "open_ends ((tr @ ev) @ [e]) \<subseteq> open_ends tr"
      unfolding standing_simps(7) using n IH(3) by blast
    moreover have "created ((tr @ ev) @ [e]) = created tr"
      unfolding standing_simps(2) using n IH(1) by simp
    ultimately show ?case using n IH(4) unfolding append_assoc by simp
  qed simp
  then show "created tr' = created tr" and "standing tr' = standing tr" and "open_ends tr' \<subseteq> open_ends tr"
    and "list_all (\<lambda>e. \<not> teardown e) tr \<Longrightarrow> list_all (\<lambda>e. \<not> teardown e) tr'"
    unfolding tr' by simp_all
qed

text \<open>Events that concern no child and no process: they collect no child and send no signal.\<close>

definition calm :: "sandbox_event \<Rightarrow> bool" where
  "calm e \<longleftrightarrow> reaped_child e = [] \<and> sent_signal e = []"

lemma calm_simps [simp]:
  "calm (Log l)" "calm (Time t)" "calm (Harden h)" "calm (Sync s)" "calm (File f)"
  "calm (Proc (GetPid p))" "calm (Proc (Setpgid p q j))" "calm (Proc (SigAction g d j))" "calm (Proc (Pipe r))"
  "calm (Proc (Fork fk))"
  by (simp_all add: calm_def)

lemma plain_free: "plain e \<Longrightarrow> free e"
  by (cases e rule: free.cases) (auto simp: plain_def io_event_def lock_noise_def log_only_def)

lemma calm_children: "extends calm tr tr' \<Longrightarrow> reaped_children tr' = reaped_children tr"
  and calm_kills: "extends calm tr tr' \<Longrightarrow> kills tr' = kills tr"
  by (auto elim!: extendsE simp: reaped_children_def kills_def calm_def list_all_iff)

lemma free_supervision: "supervision k cgroup A c c' \<Longrightarrow> extends free (snd (snd c)) (snd (snd c'))"
proof (induction rule: supervision.induct)
  case (supervision_event st ws tr e)
  then show ?case using plain_free [of e] by (auto intro: extends_snoc)
next
  case (supervision_member st ws tr a t1 sample t2 ev p sig r)
  then show ?case using extends_snoc [of free "snd (snd c)" tr "Proc (Kill (pt_pid p) sig r)"] by simp
qed (auto intro: extends_snoc simp: extends_def)

text \<open>Both at once: what the stages of the controller mostly do.\<close>

definition quiet :: "sandbox_event \<Rightarrow> bool" where
  "quiet e \<longleftrightarrow> calm e \<and> free e"

lemma io_quiet: "io_event e \<Longrightarrow> quiet e"
  by (simp add: quiet_def calm_def plain_free [OF plain_io] plain_no_child [OF plain_io] plain_no_kill [OF plain_io])

lemma quiet_simps [simp]:
  "quiet (Log l)" "quiet (Time t)" "quiet (Harden h)" "quiet (Sync (MutexLock r))" "quiet (Sync (MutexUnlock s u))"
  "quiet (Sync (ReadSignal n))" "quiet (Sync (MutexInit (Some e)))"
  "quiet (Sync (ThreadCreate th (Some e)))" "quiet (Proc (GetPid p))" "quiet (Proc (Setpgid p q j))"
  "quiet (Proc (SigAction g d j))" "quiet (Proc (Fork fk))" "quiet (Proc (Pipe (Inl e)))"
  "quiet (File f) \<longleftrightarrow> (\<forall>p m. f \<noteq> Mkdir p m None) \<and> (\<forall>p r. f \<noteq> Rmdir p r)"
  by (simp_all add: quiet_def free_File)

lemma log_quiet: "log_only e \<Longrightarrow> quiet e"
  by (auto simp: log_only_def split: sandbox_event.splits)

lemma quiet_log:
  assumes "extends quiet tr0 tr"
  shows "extends quiet tr0 (logger_info k msg tr)" "extends quiet tr0 (logger_warn k msg tr)"
    "extends quiet tr0 (logger_error k msg tr)"
  using logger_extends [where P = quiet, OF log_quiet assms] by simp_all

lemma noise_quiet: "lock_noise e \<Longrightarrow> quiet e"
  by (auto simp: lock_noise_def log_quiet)

lemma quiet_free: "extends quiet tr tr' \<Longrightarrow> extends free tr tr'"
  and quiet_calm: "extends quiet tr tr' \<Longrightarrow> extends calm tr tr'"
  and io_extends_quiet: "extends io_event tr tr' \<Longrightarrow> extends quiet tr tr'"
  using io_quiet by (auto elim!: extends_mono simp: quiet_def)

context state_operation
begin

lemma quiet_section:
  assumes "operation k st tr = (r, st', tr')"
  shows "extends quiet tr tr'"
  using assms
proof (cases rule: section_cases)
  case no_lock
  then show ?thesis by (auto elim!: extends_mono intro: noise_quiet)
next
  case (locked u)
  have "list_all quiet [Sync (MutexLock (Inr (o_others k tr st))), Sync (MutexUnlock st' u)]" by simp
  with extends_mono [OF locked(2) log_quiet] show ?thesis by (rule extends_step)
qed

end

subsection \<open>The stages\<close>

text \<open>
  The cgroup of the controller is the directory that stands. Without one none stands, or the kernel
  has refused the limit in it and its removal was tried (\<^verbatim>\<open>sandbox_cgroup_prepare\<close> ignores the result).
\<close>

definition abandoned :: "kernel \<Rightarrow> trace \<Rightarrow> bool" where
  "abandoned k tr \<longleftrightarrow> (\<exists>path limit t u ev. limit_refused k path limit t u \<and> tr = u @ ev)"

definition uses_cgroup :: "kernel \<Rightarrow> SandboxCgroup \<Rightarrow> trace \<Rightarrow> bool" where
  "uses_cgroup k cgroup tr \<longleftrightarrow>
     (if cg_active cgroup then standing tr = Some (cg_path cgroup)
      else cgroup = no_cgroup \<and> (standing tr = None \<or> abandoned k tr))"

definition started_threads :: "controller \<Rightarrow> monitor_thread list" where
  "started_threads c =
     (if c_timeout_started c then [Timeout_Monitor] else []) @
     (if c_memory_started c then [Memory_Monitor] else []) @
     (if c_cpu_started c then [Cpu_Monitor] else [])"

text \<open>The variables of the controller say what is set up, and nothing has been torn down yet.\<close>

definition holds :: "kernel \<Rightarrow> controller \<Rightarrow> trace \<Rightarrow> bool" where
  "holds k c tr \<longleftrightarrow>
     created tr = started_threads c \<and> uses_cgroup k (c_cgroup c) tr \<and>
     open_ends tr \<subseteq> {d \<in> {c_launch_read c, c_launch_write c}. 0 \<le> d} \<and>
     Sync (MutexInit None) \<in> set tr \<and> list_all (\<lambda>e. \<not> teardown e) tr"

lemma abandoned_append: "abandoned k tr \<Longrightarrow> abandoned k (tr @ ev)"
  unfolding abandoned_def by fastforce

lemma uses_cgroup_free:
  assumes "uses_cgroup k cgroup tr" and "extends free tr tr'"
  shows "uses_cgroup k cgroup tr'"
proof -
  obtain ev where "tr' = tr @ ev" using assms(2) by (rule extendsE)
  then have "abandoned k tr \<Longrightarrow> abandoned k tr'" by (simp add: abandoned_append)
  with assms(1) free_keeps(2) [OF assms(2)] show ?thesis
    by (auto simp: uses_cgroup_def split: if_splits)
qed

lemma holds_free:
  assumes "holds k c tr" and "extends free tr tr'"
  shows "holds k c tr'"
proof -
  obtain ev where "tr' = tr @ ev" using assms(2) by (rule extendsE)
  then have "set tr \<subseteq> set tr'" by simp
  with assms(1) free_keeps [OF assms(2)] uses_cgroup_free [OF _ assms(2)] show ?thesis
    unfolding holds_def by (metis subset_iff subset_trans)
qed

lemma holds_quiet:
  assumes "holds k c tr" and "extends quiet tr tr'"
  shows "holds k c tr'"
  using holds_free [OF assms(1) quiet_free [OF assms(2)]] .

lemma holds_cong:
  "c_timeout_started c' = c_timeout_started c \<Longrightarrow> c_memory_started c' = c_memory_started c \<Longrightarrow>
   c_cpu_started c' = c_cpu_started c \<Longrightarrow> c_cgroup c' = c_cgroup c \<Longrightarrow>
   c_launch_read c' = c_launch_read c \<Longrightarrow> c_launch_write c' = c_launch_write c \<Longrightarrow>
   holds k c' tr \<longleftrightarrow> holds k c tr"
  by (simp add: holds_def started_threads_def)

lemma holds_reason [simp]: "holds k (c\<lparr>c_reason := r\<rparr>) tr \<longleftrightarrow> holds k c tr"
  by (rule holds_cong) simp_all

lemma set_handlers_quiet:
  "set_handlers k d signals tr = (r, tr') \<Longrightarrow> extends quiet tr tr'"
proof (induction signals arbitrary: tr)
  case (Cons s signals)
  show ?case
  proof (cases "o_sigaction k tr s")
    case None
    with Cons.prems have "set_handlers k d signals (tr @ [Proc (SigAction s d None)]) = (r, tr')"
      by (simp add: os_sigaction_def os_call_def)
    from Cons.IH [OF this] show ?thesis by (rule extends_step) simp
  next
    case (Some e)
    with Cons.prems show ?thesis by (auto simp: os_sigaction_def os_call_def)
  qed
qed simp

lemma install_handlers_quiet:
  assumes "install_operator_signal_handlers k tr = (r, tr')"
  shows "extends quiet tr tr'"
proof -
  obtain r1 t1 where H: "set_handlers k Record_Signal [SIGINT, SIGTERM, SIGHUP] tr = (r1, t1)" by fastforce
  note q = set_handlers_quiet [OF H]
  from assms H have "tr' = t1 \<or> (\<exists>x. tr' = t1 @ [Proc (SigAction SIGPIPE Ignore x)])"
    by (auto simp: install_operator_signal_handlers_def os_sigaction_def os_call_def split: option.splits)
  with q show ?thesis by (auto intro: extends_snoc)
qed

lemma subreaper_quiet: "enable_child_subreaper k tr = (rc, tr') \<Longrightarrow> extends quiet tr tr'"
  by (auto simp: enable_child_subreaper_def os_prctl_def os_call_def intro!: quiet_log
      split: option.splits)

lemma cgroup_made_result:
  assumes "cgroup_made k tr cg tr'" and "standing tr = None"
  shows "uses_cgroup k cg tr'" and "created tr' = created tr" and "open_ends tr' \<subseteq> open_ends tr"
    and "list_all (\<lambda>e. \<not> teardown e) tr \<Longrightarrow> list_all (\<lambda>e. \<not> teardown e) tr'"
    and "kills tr' = kills tr" and "reaped_children tr' = reaped_children tr" and "\<exists>ev. tr' = tr @ ev"
proof -
  have io: "extends io_event a b \<Longrightarrow> created b = created a \<and> standing b = standing a \<and> open_ends b \<subseteq> open_ends a \<and>
      (list_all (\<lambda>e. \<not> teardown e) a \<longrightarrow> list_all (\<lambda>e. \<not> teardown e) b) \<and>
      kills b = kills a \<and> reaped_children b = reaped_children a \<and> (\<exists>ev. b = a @ ev)" for a b
    using free_keeps [OF quiet_free [OF io_extends_quiet]] calm_kills [OF quiet_calm [OF io_extends_quiet]]
      calm_children [OF quiet_calm [OF io_extends_quiet]] by (auto elim: extendsE)
  have "uses_cgroup k cg tr' \<and> created tr' = created tr \<and> open_ends tr' \<subseteq> open_ends tr \<and>
    (list_all (\<lambda>e. \<not> teardown e) tr \<longrightarrow> list_all (\<lambda>e. \<not> teardown e) tr') \<and>
    kills tr' = kills tr \<and> reaped_children tr' = reaped_children tr \<and> (\<exists>ev. tr' = tr @ ev)"
    using assms(1) unfolding cgroup_made_def
  proof (elim disjE conjE exE)
    assume "cg = no_cgroup" "extends io_event tr tr'"
    with io [of tr tr'] assms(2) show ?thesis by (simp add: uses_cgroup_def no_cgroup_def)
  next
    fix path t1 t2
    assume t: "extends io_event tr t1" "t2 = t1 @ [File (Mkdir path 448 None)]" "extends io_event t2 tr'"
      and cg: "cg = \<lparr>cg_path = path, cg_active = True\<rparr>"
    from io [OF t(1)] have m: "standing t2 = Some path \<and> created t2 = created tr \<and> open_ends t2 \<subseteq> open_ends tr \<and>
        (list_all (\<lambda>e. \<not> teardown e) tr \<longrightarrow> list_all (\<lambda>e. \<not> teardown e) t2) \<and>
        kills t2 = kills tr \<and> reaped_children t2 = reaped_children tr \<and> (\<exists>ev. t2 = tr @ ev)"
      by (auto simp: t(2))
    with io [OF t(3)] show ?thesis by (auto simp: uses_cgroup_def cg)
  next
    fix path t1 t2 limit t r
    assume t: "extends io_event tr t1" "t2 = t1 @ [File (Mkdir path 448 None)]" "extends io_event t2 t"
        "tr' = t @ [File (Rmdir path r)]"
      and cg: "cg = no_cgroup" and l: "limit_refused k path limit t2 tr'"
    from io [OF t(1)] have m: "created t2 = created tr \<and> open_ends t2 \<subseteq> open_ends tr \<and>
        (list_all (\<lambda>e. \<not> teardown e) tr \<longrightarrow> list_all (\<lambda>e. \<not> teardown e) t2) \<and>
        kills t2 = kills tr \<and> reaped_children t2 = reaped_children tr \<and> (\<exists>ev. t2 = tr @ ev)"
      by (auto simp: t(2))
    have "abandoned k tr'" using l unfolding abandoned_def by blast
    with m io [OF t(3)] show ?thesis by (auto simp: uses_cgroup_def cg no_cgroup_def t(4))
  qed
  then show "uses_cgroup k cg tr'" and "created tr' = created tr" and "open_ends tr' \<subseteq> open_ends tr"
    and "list_all (\<lambda>e. \<not> teardown e) tr \<Longrightarrow> list_all (\<lambda>e. \<not> teardown e) tr'"
    and "kills tr' = kills tr" and "reaped_children tr' = reaped_children tr" and "\<exists>ev. tr' = tr @ ev"
    by blast+
qed

lemma prepare_launch_result:
  assumes "prepare_launch k c tr = Some (go, c', tr')" and "holds k c tr" and "standing tr = None"
    and "c_launch_read c = -1" "c_launch_write c = -1" "c_cgroup c = no_cgroup"
  shows "holds k c' tr'"
    and "\<exists>cg rd wr. c' = c\<lparr>c_cgroup := cg, c_launch_read := rd, c_launch_write := wr\<rparr>"
    and "kills tr' = kills tr" and "reaped_children tr' = reaped_children tr"
    and "go \<Longrightarrow> Proc (Pipe (Inr (c_launch_read c', c_launch_write c'))) \<in> set tr' \<and>
      0 \<le> c_launch_read c' \<and> 0 \<le> c_launch_write c'"
    and "\<exists>ev. tr' = tr @ ev"
proof -
  obtain rc t1 where S: "enable_child_subreaper k tr = (rc, t1)" by fastforce
  note q1 = subreaper_quiet [OF S]
  obtain r2 t2 where H: "install_operator_signal_handlers k t1 = (r2, t2)" by fastforce
  note q2 = extends_trans [OF q1 install_handlers_quiet [OF H]]
  let ?ok = "(\<exists>cg rd wr. c' = c\<lparr>c_cgroup := cg, c_launch_read := rd, c_launch_write := wr\<rparr>) \<and>
    holds k c' tr' \<and> kills tr' = kills tr \<and> reaped_children tr' = reaped_children tr \<and>
    (go \<longrightarrow> Proc (Pipe (Inr (c_launch_read c', c_launch_write c'))) \<in> set tr' \<and>
      0 \<le> c_launch_read c' \<and> 0 \<le> c_launch_write c') \<and> (\<exists>ev. tr' = tr @ ev)"
  have early: ?ok if "go = False" "c' = c" "extends quiet tr tr'"
  proof -
    have "c = c\<lparr>c_cgroup := c_cgroup c, c_launch_read := c_launch_read c, c_launch_write := c_launch_write c\<rparr>"
      by simp
    then have "\<exists>cg rd wr. c' = c\<lparr>c_cgroup := cg, c_launch_read := rd, c_launch_write := wr\<rparr>"
      unfolding that(2) by blast
    then show ?thesis
      using that holds_quiet [OF assms(2) that(3)] calm_kills [OF quiet_calm [OF that(3)]]
        calm_children [OF quiet_calm [OF that(3)]] by (auto elim: extendsE)
  qed
  have ?ok
  proof (cases "rc = 0 \<and> r2 = None")
    case False
    then have "go = False \<and> c' = c \<and> (tr' = t1 \<or> (\<exists>msg. tr' = logger_error k msg t2))"
      using assms(1) S H by (auto simp: prepare_launch_def split: if_splits option.splits)
    then show ?thesis using early q1 q2 quiet_log(3) [OF q2] by auto
  next
    case True
    define t3 where "t3 = logger_info k
        (''sandbox controller starting: target='' @ target_path (c_options c) @ '' timeout='' @
         show_nat (unat (timeout_seconds (c_options c))) @ '' seconds memory_limit='' @
         show_nat (unat (memory_limit_kilobytes (c_options c))) @ '' kB'') t2"
    have q3: "extends quiet tr t3"
      unfolding t3_def by (rule quiet_log(1) [OF q2])
    obtain x cg t4 where C: "sandbox_cgroup_prepare k (memory_limit_kilobytes (c_options c)) t3 = Some (x, cg, t4)"
      using assms(1) S H True by (auto simp: prepare_launch_def t3_def Let_def Option.bind_eq_Some_conv)
    have h3: "holds k c t3" "standing t3 = None"
      using holds_quiet [OF assms(2) q3] free_keeps(2) [OF quiet_free [OF q3]] assms(3) by simp_all
    note m = cgroup_made_result [OF sandbox_cgroup_prepare_result(2) [OF C] h3(2)]
    let ?c = "c\<lparr>c_cgroup := cg\<rparr>"
    obtain ev4 where ev4: "t4 = t3 @ ev4" using m(7) by (rule exE)
    have h4: "holds k ?c t4"
      using h3(1) m(1-4) by (auto simp: holds_def started_threads_def ev4)
    have k4: "kills t4 = kills tr" "reaped_children t4 = reaped_children tr" "\<exists>ev. t4 = tr @ ev"
      using m(5,6) calm_kills [OF quiet_calm [OF q3]] calm_children [OF quiet_calm [OF q3]] q3 ev4
      by (auto elim: extendsE)
    show ?thesis
    proof (cases "o_pipe k t4")
      case (Inl e)
      let ?t5 = "t4 @ [Proc (Pipe (Inl e))]"
      have "go = False \<and> c' = ?c \<and> (\<exists>msg. tr' = logger_error k msg ?t5)"
        using assms(1) S H True C Inl by (auto simp: prepare_launch_def t3_def Let_def os_pipe_def os_call_def)
      then obtain msg where eq: "go = False" "c' = ?c" "tr' = logger_error k msg ?t5" by blast
      have "extends quiet t4 ?t5" by simp
      from quiet_log(3) [OF this] have q: "extends quiet t4 tr'" unfolding eq(3) .
      have "?c = c\<lparr>c_cgroup := cg, c_launch_read := c_launch_read c, c_launch_write := c_launch_write c\<rparr>"
        by simp
      then have ex: "\<exists>cg rd wr. c' = c\<lparr>c_cgroup := cg, c_launch_read := rd, c_launch_write := wr\<rparr>"
        unfolding eq(2) by blast
      have "kills tr' = kills tr" "reaped_children tr' = reaped_children tr" "\<exists>ev. tr' = tr @ ev"
        using calm_kills [OF quiet_calm [OF q]] calm_children [OF quiet_calm [OF q]] k4 q by (auto elim: extendsE)
      moreover have "holds k c' tr'" unfolding eq(2) by (rule holds_quiet [OF h4 q])
      ultimately show ?thesis using ex eq(1) by blast
    next
      case (Inr p)
      obtain rd wr where p: "p = (rd, wr)" by fastforce
      let ?c' = "c\<lparr>c_cgroup := cg, c_launch_read := int rd, c_launch_write := int wr\<rparr>"
      have eq: "go" "c' = ?c'" "tr' = t4 @ [Proc (Pipe (Inr (int rd, int wr)))]"
        using assms(1) S H True C Inr p by (auto simp: prepare_launch_def t3_def Let_def os_pipe_def os_call_def)
      have "open_ends t4 = {}"
        using h4 assms(4,5) by (auto simp: holds_def)
      then have "holds k c' tr'"
        using h4 abandoned_append [of k t4]
        by (auto simp: holds_def eq(2,3) started_threads_def uses_cgroup_def)
      moreover have "kills tr' = kills tr" "reaped_children tr' = reaped_children tr" "\<exists>ev. tr' = tr @ ev"
        using k4 by (auto simp: eq(3))
      ultimately show ?thesis unfolding eq(2) by (auto simp: eq(1,3))
    qed
  qed
  then show "holds k c' tr'"
    and "\<exists>cg rd wr. c' = c\<lparr>c_cgroup := cg, c_launch_read := rd, c_launch_write := wr\<rparr>"
    and "kills tr' = kills tr" and "reaped_children tr' = reaped_children tr"
    and "go \<Longrightarrow> Proc (Pipe (Inr (c_launch_read c', c_launch_write c'))) \<in> set tr' \<and>
      0 \<le> c_launch_read c' \<and> 0 \<le> c_launch_write c'"
    and "\<exists>ev. tr' = tr @ ev"
    by blast+
qed

text \<open>A stage that can only give a reason to end, and is quiet.\<close>

definition may_object :: "controller \<Rightarrow> trace \<Rightarrow> controller \<times> trace \<Rightarrow> bool" where
  "may_object c tr res \<longleftrightarrow>
     (case res of (c', tr') \<Rightarrow>
        extends quiet tr tr' \<and>
        (c' = c \<or> (\<exists>r. r \<noteq> SANDBOX_TERMINATION_NONE \<and> c' = c\<lparr>c_reason := r\<rparr>)))"

lemma may_object_trans:
  "may_object c2 t2 (c3, t3) \<Longrightarrow> may_object c1 t1 (c2, t2) \<Longrightarrow> may_object c1 t1 (c3, t3)"
  by (auto simp: may_object_def intro: extends_trans)

lemma may_object_fields:
  assumes "may_object c tr (c', tr')"
  shows "extends quiet tr tr'" "c_state c' = c_state c" "c_status c' = c_status c" "c_cgroup c' = c_cgroup c"
    "c_options c' = c_options c"
    "c_child_started c' = c_child_started c" "c_workload_finished c' = c_workload_finished c"
    "c_launch_write c' = c_launch_write c" "holds k c' t = holds k c t"
    "c_reason c' = SANDBOX_TERMINATION_NONE \<Longrightarrow> c' = c"
    "c_timeout_started c' = c_timeout_started c" "c_memory_started c' = c_memory_started c"
    "c_cpu_started c' = c_cpu_started c" "c_launch_read c' = c_launch_read c"
  using assms by (auto simp: may_object_def)

lemma group_child_objects: "may_object c tr (group_child k p c tr)"
  by (auto simp: may_object_def group_child_def os_setpgid_def os_call_def intro!: quiet_log
      split: option.splits)

lemma attach_child_objects:
  assumes "attach_child k p c tr = Some (c', tr')"
  shows "may_object c tr (c', tr')"
proof (cases "cg_active (c_cgroup c)")
  case True
  then obtain r t where W: "write_text_file k (cg_path (c_cgroup c)) ''cgroup.procs'' (show_int p) tr = Some (r, t)"
    using assms by (auto simp: attach_child_def sandbox_cgroup_attach_def Option.bind_eq_Some_conv)
  have q: "extends quiet tr t" using io_extends_quiet [OF write_text_file_result(1) [OF W]] .
  have "c' = c \<and> tr' = t \<or> c' = c\<lparr>c_reason := SANDBOX_TERMINATION_SUPERVISOR_ERROR\<rparr> \<and>
      (\<exists>msg. tr' = logger_error k msg t)"
    using assms True W by (auto simp: attach_child_def sandbox_cgroup_attach_def split: option.splits)
  then show ?thesis using q quiet_log(3) [OF q] by (auto simp: may_object_def)
next
  case False
  with assms show ?thesis by (simp add: attach_child_def may_object_def)
qed

lemma heed_operator_objects: "may_object c tr (heed_operator k c tr)"
  by (auto simp: may_object_def heed_operator_def os_signal_def os_call_def intro!: quiet_log)

text \<open>The byte that permits the launch.\<close>

definition permission_written :: "fd \<Rightarrow> trace \<Rightarrow> bool" where
  "permission_written wr tr \<longleftrightarrow> File (Write wr [CHR 0x01] (Inr 1)) \<in> set tr"

lemma let_child_go_objects:
  assumes "let_child_go k c tr = Some (c', tr')"
  shows "may_object c tr (c', tr')"
    and "c_reason c' = SANDBOX_TERMINATION_NONE \<Longrightarrow>
      c_reason c = SANDBOX_TERMINATION_NONE \<and> permission_written (c_launch_write c) tr'"
proof -
  have "may_object c tr (c', tr') \<and> (c_reason c' = SANDBOX_TERMINATION_NONE \<longrightarrow>
      c_reason c = SANDBOX_TERMINATION_NONE \<and> permission_written (c_launch_write c) tr')"
  proof (cases "c_reason c = SANDBOX_TERMINATION_NONE")
    case True
    then obtain r t where R: "release_child k (c_launch_write c) tr = Some (r, t)"
      using assms by (auto simp: let_child_go_def Option.bind_eq_Some_conv)
    then obtain w u where w: "write_retry k (c_launch_write c) [CHR 0x01] tr = Some (w, u)"
      by (auto simp: release_child_def Option.bind_eq_Some_conv)
    with R have W: "write_retry k (c_launch_write c) [CHR 0x01] tr = Some (w, t)"
        and r: "r = None \<Longrightarrow> w = Inr 1"
      by (auto simp: release_child_def split: sum.splits if_splits)
    obtain ev where ev: "list_all (\<lambda>e. e = File (Write (c_launch_write c) [CHR 0x01] (Inl EINTR))) ev"
        "t = tr @ ev @ [File (Write (c_launch_write c) [CHR 0x01] w)]"
      using write_retry_result [OF W] by auto
    have q: "extends quiet tr t" using ev by (auto simp: list_all_iff)
    have "c' = c \<and> tr' = t \<and> r = None \<or> c' = c\<lparr>c_reason := SANDBOX_TERMINATION_SUPERVISOR_ERROR\<rparr> \<and>
        (\<exists>msg. tr' = logger_error k msg t)"
      using assms True R by (auto simp: let_child_go_def split: option.splits)
    then show ?thesis using q quiet_log(3) [OF q] True r ev(2)
      by (auto simp: may_object_def permission_written_def)
  next
    case False
    with assms show ?thesis by (auto simp: let_child_go_def may_object_def)
  qed
  then show "may_object c tr (c', tr')" and "c_reason c' = SANDBOX_TERMINATION_NONE \<Longrightarrow>
      c_reason c = SANDBOX_TERMINATION_NONE \<and> permission_written (c_launch_write c) tr'" by auto
qed

lemma announce_quiet: "extends quiet tr (announce k p c tr)"
  unfolding announce_def os_getpid_def os_call_def prod.case
  by (intro quiet_log) simp

lemma holds_close:
  assumes "holds k c tr"
  shows "holds k (c\<lparr>c_launch_read := -1\<rparr>) (tr @ [File (Close (c_launch_read c) r)])"
    and "holds k (c\<lparr>c_launch_write := -1\<rparr>) (tr @ [File (Close (c_launch_write c) r)])"
  using assms abandoned_append [of k tr]
  by (auto simp: holds_def started_threads_def uses_cgroup_def)

text \<open>What holds when the child is there and its workload is registered.\<close>

definition launched :: "pid \<Rightarrow> controller \<Rightarrow> controller \<Rightarrow> trace \<Rightarrow> trace \<Rightarrow> bool" where
  "launched p c c' tr tr' \<longleftrightarrow>
     extends quiet tr tr' \<and> 0 < p \<and> c_child_started c' \<and> c_workload_finished c' = c_workload_finished c \<and>
     c_status c' = c_status c \<and> c_cgroup c' = c_cgroup c \<and> state_ok (c_state c') \<and>
     ss_child_pid (c_state c') = p \<and> ss_child_process_group_id (c_state c') = p \<and>
     ss_supervisor_pid (c_state c') = ss_supervisor_pid (c_state c) \<and>
     c_timeout_started c' = c_timeout_started c \<and> c_memory_started c' = c_memory_started c \<and>
     c_cpu_started c' = c_cpu_started c \<and>
     (c_reason c' = SANDBOX_TERMINATION_NONE \<longrightarrow> permission_written (c_launch_write c) tr')"

lemma start_child_result:
  assumes "start_child k p c tr = Some (go, c', tr')" and "holds k c tr" and R: "rely monitor_step k"
  shows "holds k c' tr'"
    and "go \<Longrightarrow> launched p c c' tr tr'"
    and "\<not> go \<Longrightarrow> \<not> c_child_started c' \<and> c_workload_finished c' = c_workload_finished c"
    and "\<exists>ev. tr' = tr @ ev"
proof -
  let ?t1 = "tr @ [File (Close (c_launch_read c) (o_close k tr (c_launch_read c)))]"
  let ?c1 = "c\<lparr>c_child_started := True, c_launch_read := -1\<rparr>"
  obtain c2 t2 where G: "group_child k p ?c1 ?t1 = (c2, t2)" by fastforce
  note g = may_object_fields [OF group_child_objects [of ?c1 ?t1 k p, unfolded G]]
  obtain rc st t3 where S: "sandbox_state_set_workload k p p (c_state c2) t2 = (rc, st, t3)"
    by (metis prod_cases3)
  have q3: "extends quiet t2 t3" by (rule set_workload.quiet_section [OF S])
  have t1: "extends quiet tr ?t1" by simp
  note q = extends_trans [OF extends_trans [OF t1 g(1)] q3]
  let ?c3 = "c2\<lparr>c_state := st\<rparr>"
  have "holds k ?c1 ?t1"
    using holds_close(1) [OF assms(2)] holds_cong [of ?c1 "c\<lparr>c_launch_read := -1\<rparr>"] by simp
  then have "holds k c2 t2" using holds_quiet [OF _ g(1)] g(9) by blast
  then have h3: "holds k ?c3 t3" using holds_quiet [OF _ q3] holds_cong [of ?c3 c2] by simp
  let ?ok = "holds k c' tr' \<and> (go \<longrightarrow> launched p c c' tr tr') \<and>
    (\<not> go \<longrightarrow> \<not> c_child_started c' \<and> c_workload_finished c' = c_workload_finished c) \<and> (\<exists>ev. tr' = tr @ ev)"
  have ?ok
  proof (cases "rc = 0")
    case False
    define t4 where "t4 = logger_error k ''unable to initialize workload process-tree state'' t3"
    have eq: "go = False" "c' = ?c3\<lparr>c_child_started := False\<rparr>"
        "tr' = t4 @ [Proc (Kill p SIGKILL (o_kill k t4 p SIGKILL)), Proc (WaitChild p)]"
      using assms(1) G S False
      by (auto simp: start_child_def os_close_def os_kill_def os_wait_child_def os_call_def t4_def Let_def)
    have "extends free t3 t4" unfolding t4_def using quiet_free [OF quiet_log(3) [OF extends_refl]] .
    then have f: "extends free t3 tr'" unfolding eq(3) by (rule extends_app) simp
    have "holds k c' tr'"
      unfolding eq(2) using holds_free [OF h3 f] holds_cong [of "?c3\<lparr>c_child_started := False\<rparr>" ?c3] by simp
    moreover have "\<exists>ev. tr' = tr @ ev"
      using extends_trans [OF quiet_free [OF q] f] by (auto elim: extendsE)
    ultimately show ?thesis using g(7) eq(1,2) by simp
  next
    case True
    obtain c4 t4 where A: "attach_child k p ?c3 t3 = Some (c4, t4)"
      using assms(1) G S True
      by (auto simp: start_child_def os_close_def os_call_def Let_def Option.bind_eq_Some_conv)
    obtain c5 t5 where H: "heed_operator k c4 t4 = (c5, t5)" by fastforce
    obtain c6 t6 where L: "let_child_go k c5 t5 = Some (c6, t6)"
      using assms(1) G S True A H
      by (auto simp: start_child_def os_close_def os_call_def Let_def Option.bind_eq_Some_conv)
    let ?t7 = "t6 @ [File (Close (c_launch_write c6) (o_close k t6 (c_launch_write c6)))]"
    let ?c7 = "c6\<lparr>c_launch_write := -1\<rparr>"
    have eq: "go" "c' = ?c7" "tr' = announce k p ?c7 ?t7"
      using assms(1) G S True A H L by (auto simp: start_child_def os_close_def os_call_def Let_def)
    have M: "may_object ?c3 t3 (c6, t6)"
      using may_object_trans [OF let_child_go_objects(1) [OF L]
        may_object_trans [OF heed_operator_objects [of c4 t4 k, unfolded H] attach_child_objects [OF A]]] .
    note m = may_object_fields [OF M]
    have "holds k c6 t6" using holds_quiet [OF h3 m(1)] m(9) by blast
    from holds_quiet [OF holds_close(2) [OF this] announce_quiet] have "holds k c' tr'"
      unfolding eq .
    moreover have q': "extends quiet tr tr'"
    proof -
      have "extends quiet t6 ?t7" by simp
      from extends_trans [OF extends_trans [OF extends_trans [OF q m(1)] this] announce_quiet]
      show ?thesis unfolding eq(3) .
    qed
    moreover have "permission_written (c_launch_write c) tr'" if "c_reason c' = SANDBOX_TERMINATION_NONE"
    proof -
      have "permission_written (c_launch_write c5) t6"
        using let_child_go_objects(2) [OF L] that by (simp add: eq(2))
      moreover have "c_launch_write c5 = c_launch_write c"
        using may_object_fields(8) [OF let_child_go_objects(1) [OF L]] m(8) g(8) by simp
      moreover have "\<exists>ev. tr' = t6 @ ev"
        using announce_quiet [of ?t7 k p ?c7] unfolding eq(3) by (auto elim: extendsE)
      ultimately show ?thesis by (auto simp: permission_written_def)
    qed
    moreover have st: "st = start_step p p (o_others k t2 (c_state c2))" "0 < p"
      using set_workload_result [OF S True] S True
      by (auto simp: sandbox_state_set_workload_def split: if_splits)
    have "settled (c_state c2) (o_others k t2 (c_state c2))"
      using system_steps_ok [OF monitor_steps [OF relyD [OF R]]] by blast
    then have "ss_supervisor_pid st = ss_supervisor_pid (c_state c)"
      using g(2) by (simp add: st(1) start_step_def settled_def)
    moreover have "c_child_started c'" "c_workload_finished c' = c_workload_finished c" "c_status c' = c_status c"
        "c_cgroup c' = c_cgroup c" "c_state c' = st" "c_timeout_started c' = c_timeout_started c"
        "c_memory_started c' = c_memory_started c" "c_cpu_started c' = c_cpu_started c"
      using m(2-7) m(11-13) g(2-7) g(11-13) by (simp_all add: eq(2))
    moreover have "ss_child_pid st = p" "ss_child_process_group_id st = p" "state_ok st"
      by (simp_all add: st(1)) (simp_all add: start_step_def)
    moreover have "\<exists>ev. tr' = tr @ ev" using q' by (auto elim: extendsE)
    ultimately show ?thesis
      using st(2) eq(1) by (simp add: launched_def)
  qed
  then show "holds k c' tr'" and "go \<Longrightarrow> launched p c c' tr tr'"
    and "\<not> go \<Longrightarrow> \<not> c_child_started c' \<and> c_workload_finished c' = c_workload_finished c"
    and "\<exists>ev. tr' = tr @ ev" by blast+
qed

lemma request_effect:
  assumes "sandbox_state_request_termination k SANDBOX_TERMINATION_MONITOR_ERROR st tr = (rc, st', tr')"
    and "rely monitor_step k"
  shows "settled st st' \<and> (state_ok st \<longrightarrow> state_ok st')"
proof -
  have "system_step s (request_step SANDBOX_TERMINATION_MONITOR_ERROR s)" for s
    by (rule system_request) simp_all
  from request.effect [OF assms(1) rely_system [OF assms(2)] this] show ?thesis
    by (rule system_steps_ok)
qed

text \<open>
  The rely of the controller is the guarantee of the threads that it starts: each keeps to the steps of
  a monitor.
\<close>

lemma monitor_body_guarantee:
  assumes "monitor_body k percent c thread st tr = Some res"
  shows "disciplined monitor_step tr (snd res)"
proof -
  have "disciplined (requests monitor_reasons) tr (snd res)"
  proof (cases thread)
    case Timeout_Monitor
    with assms have "timeout_monitor_thread k (timeout_seconds (c_options c)) MONITOR_POLL_MILLISECONDS st tr = Some res"
      by (simp add: monitor_body_def)
    from disciplined_requests_mono [OF _ timeout_monitor_result(1) [OF this]] show ?thesis
      by (simp add: monitor_reasons_def)
  next
    case Memory_Monitor
    with assms have "memory_monitor_thread k (c_cgroup c) (memory_limit_kilobytes (c_options c))
        MEMORY_POLL_MILLISECONDS st tr = Some res"
      by (simp add: monitor_body_def)
    from disciplined_requests_mono [OF _ memory_monitor_result [OF this]] show ?thesis
      by (auto simp: memory_reasons_def monitor_reasons_def)
  next
    case Cpu_Monitor
    with assms have "cpu_monitor_thread k percent CPU_POLL_MILLISECONDS st tr = Some res"
      by (simp add: monitor_body_def)
    from disciplined_requests_mono [OF _ cpu_monitor_result [OF this]] show ?thesis
      by (simp add: monitor_reasons_def)
  qed
  then show ?thesis
    by (rule disciplined_mono) (rule requests_monitor_step [OF subset_refl])
qed

text \<open>A stage that starts threads: it changes the state at most, and is calm.\<close>

definition thread_stage :: "controller \<Rightarrow> trace \<Rightarrow> controller \<Rightarrow> trace \<Rightarrow> bool" where
  "thread_stage c tr c' tr' \<longleftrightarrow>
     extends calm tr tr' \<and> settled (c_state c) (c_state c') \<and>
     (state_ok (c_state c) \<longrightarrow> state_ok (c_state c')) \<and>
     c_options c' = c_options c \<and> c_cgroup c' = c_cgroup c \<and> c_status c' = c_status c \<and>
     c_reason c' = c_reason c \<and> c_child_started c' = c_child_started c \<and>
     c_workload_finished c' = c_workload_finished c"

lemma thread_stage_refl: "thread_stage c tr c tr"
  by (simp add: thread_stage_def)

lemma thread_stage_trans:
  "thread_stage c2 t2 c3 t3 \<Longrightarrow> thread_stage c1 t1 c2 t2 \<Longrightarrow> thread_stage c1 t1 c3 t3"
  unfolding thread_stage_def by (auto intro: extends_trans settled_trans)

lemma thread_stage_flags:
  "thread_stage c tr (c\<lparr>c_timeout_started := b\<rparr>) tr" "thread_stage c tr (c\<lparr>c_memory_started := b\<rparr>) tr"
  "thread_stage c tr (c\<lparr>c_cpu_started := b\<rparr>) tr"
  by (simp_all add: thread_stage_def)

lemma start_thread_result:
  assumes "start_thread k th c tr = (b, c', tr')" and "rely monitor_step k"
  shows "thread_stage c tr c' tr'" and "\<exists>st. c' = c\<lparr>c_state := st\<rparr>"
    and "if b then tr' = tr @ [Sync (ThreadCreate th None)] else extends quiet tr tr'"
proof -
  have "thread_stage c tr c' tr' \<and> (\<exists>st. c' = c\<lparr>c_state := st\<rparr>) \<and>
    (if b then tr' = tr @ [Sync (ThreadCreate th None)] else extends quiet tr tr')"
  proof (cases "o_create k tr th")
    case None
    with assms(1) have eq: "b" "c' = c" "tr' = tr @ [Sync (ThreadCreate th None)]"
      by (auto simp: start_thread_def os_create_def os_call_def)
    have "c = c\<lparr>c_state := c_state c\<rparr>" by simp
    then have "\<exists>st. c = c\<lparr>c_state := st\<rparr>" by blast
    moreover have "thread_stage c tr c tr'"
      using thread_stage_refl [of c tr] by (simp add: thread_stage_def eq(3))
    ultimately show ?thesis by (simp add: eq)
  next
    case (Some e)
    let ?t1 = "tr @ [Sync (ThreadCreate th (Some e))]"
    define t2 where "t2 = logger_error k (thread_name th @ '' monitor thread creation failed: '' @ os_strerror k e) ?t1"
    obtain rc st t3 where R: "sandbox_state_request_termination k SANDBOX_TERMINATION_MONITOR_ERROR (c_state c) t2 =
        (rc, st, t3)" by (metis prod_cases3)
    have eq: "\<not> b" "c' = c\<lparr>c_state := st\<rparr>" "tr' = t3"
      using assms(1) Some R by (auto simp: start_thread_def os_create_def os_call_def t2_def Let_def)
    have "extends quiet tr ?t1" by simp
    from quiet_log(3) [OF this] have "extends quiet tr t2" unfolding t2_def .
    from extends_trans [OF this request.quiet_section [OF R]] have q: "extends quiet tr tr'" unfolding eq .
    have "thread_stage c tr c' tr'"
      using quiet_calm [OF q] request_effect [OF R assms(2)] by (simp add: thread_stage_def eq)
    then show ?thesis using q eq(1,2) by auto
  qed
  then show "thread_stage c tr c' tr'" and "\<exists>st. c' = c\<lparr>c_state := st\<rparr>"
    and "if b then tr' = tr @ [Sync (ThreadCreate th None)] else extends quiet tr tr'" by blast+
qed

text \<open>A thread more, in the trace as in the variables.\<close>

lemma holds_thread:
  assumes "holds k c tr" and "if b then tr' = tr @ [Sync (ThreadCreate th None)] else extends quiet tr tr'"
    and "started_threads c' = started_threads c @ (if b then [th] else [])"
    and "c_cgroup c' = c_cgroup c" "c_launch_read c' = c_launch_read c" "c_launch_write c' = c_launch_write c"
  shows "holds k c' tr'"
proof (cases b)
  case True
  with assms abandoned_append [of k tr] show ?thesis
    by (auto simp: holds_def uses_cgroup_def)
next
  case False
  with assms holds_quiet [OF assms(1), of tr'] show ?thesis by (simp add: holds_def)
qed

lemma start_monitors_result:
  assumes "start_monitors k c tr = (c', tr')" and "rely monitor_step k" and "holds k c tr"
    and "\<not> c_timeout_started c" "\<not> c_memory_started c" "\<not> c_cpu_started c"
  shows "thread_stage c tr c' tr'" and "holds k c' tr'"
proof -
  obtain b1 c1 t1 where 1: "start_thread k Timeout_Monitor c tr = (b1, c1, t1)" by (metis prod_cases3)
  let ?c1 = "c1\<lparr>c_timeout_started := b1\<rparr>"
  obtain b2 c2 t2 where 2: "(if 0 < memory_limit_kilobytes (c_options ?c1) then start_thread k Memory_Monitor ?c1 t1
      else (False, ?c1, t1)) = (b2, c2, t2)" by (metis prod_cases3)
  let ?c2 = "c2\<lparr>c_memory_started := b2\<rparr>"
  obtain b3 c3 t3 where 3: "start_thread k Cpu_Monitor ?c2 t2 = (b3, c3, t3)" by (metis prod_cases3)
  have eq: "c' = c3\<lparr>c_cpu_started := b3\<rparr>" "tr' = t3"
    using assms(1) 1 2 3 by (simp_all add: start_monitors_def Let_def)
  note r1 = start_thread_result [OF 1 assms(2)]
  have r2: "thread_stage ?c1 t1 c2 t2" "\<exists>st. c2 = ?c1\<lparr>c_state := st\<rparr>"
      "if b2 then t2 = t1 @ [Sync (ThreadCreate Memory_Monitor None)] else extends quiet t1 t2"
  proof -
    have same: "\<exists>st. ?c1 = ?c1\<lparr>c_state := st\<rparr>" by (rule exI [of _ "c_state ?c1"]) simp
    show "thread_stage ?c1 t1 c2 t2" "\<exists>st. c2 = ?c1\<lparr>c_state := st\<rparr>"
        "if b2 then t2 = t1 @ [Sync (ThreadCreate Memory_Monitor None)] else extends quiet t1 t2"
      using 2 start_thread_result [OF _ assms(2), of Memory_Monitor ?c1 t1 b2 c2 t2] thread_stage_refl [of ?c1 t1] same
      by (auto split: if_splits)
  qed
  note r3 = start_thread_result [OF 3 assms(2)]
  obtain s1 where c1: "c1 = c\<lparr>c_state := s1\<rparr>" using r1(2) by (rule exE)
  obtain s2 where c2: "c2 = ?c1\<lparr>c_state := s2\<rparr>" using r2(2) by (rule exE)
  obtain s3 where c3: "c3 = ?c2\<lparr>c_state := s3\<rparr>" using r3(2) by (rule exE)
  show "thread_stage c tr c' tr'"
    unfolding eq
    by (rule thread_stage_trans [OF thread_stage_flags(3) thread_stage_trans [OF r3(1)
        thread_stage_trans [OF thread_stage_flags(2) thread_stage_trans [OF r2(1)
        thread_stage_trans [OF thread_stage_flags(1) r1(1)]]]]])
  have "holds k ?c1 t1"
    by (rule holds_thread [OF assms(3) r1(3)]) (use assms(4-6) in \<open>simp_all add: c1 started_threads_def\<close>)
  then have "holds k ?c2 t2"
    by (rule holds_thread [OF _ r2(3)]) (use assms(5,6) in \<open>simp_all add: c2 c1 started_threads_def\<close>)
  then show "holds k c' tr'"
    unfolding eq
    by (rule holds_thread [OF _ r3(3)]) (use assms(6) in \<open>simp_all add: c3 c2 c1 started_threads_def\<close>)
qed

lemma end_workload_result:
  assumes "end_workload k c tr = Some (c', tr')" and "rely monitor_step k"
  shows "supervision k (c_cgroup c) {SIGTERM, SIGKILL} (c_state c, c_status c, tr) (c_state c', c_status c', tr')"
    and "\<exists>st ws b. c' = c\<lparr>c_state := st, c_status := ws, c_workload_finished := b\<rparr>"
proof -
  obtain rc st ws where T: "terminate_workload k (c_cgroup c) (c_reason c) (c_state c) (c_status c) tr =
      Some (rc, st, ws, tr')"
    and c': "c' = c\<lparr>c_state := st, c_status := ws, c_workload_finished := c_workload_finished c \<or> rc = 0\<rparr>"
    using assms(1) by (auto simp: end_workload_def Option.bind_eq_Some_conv)
  from escalates_supervision(1) [OF terminate_workload_result [OF T assms(2)]]
  show "supervision k (c_cgroup c) {SIGTERM, SIGKILL} (c_state c, c_status c, tr) (c_state c', c_status c', tr')"
    by (simp add: c')
  show "\<exists>st ws b. c' = c\<lparr>c_state := st, c_status := ws, c_workload_finished := b\<rparr>"
    using c' by blast
qed

lemma watch_workload_result:
  assumes "watch_workload k c tr = Some (c', tr')" and "rely monitor_step k"
  shows "supervision k (c_cgroup c) {SIGTERM, SIGKILL} (c_state c, c_status c, tr) (c_state c', c_status c', tr')"
    and "\<exists>st ws r b. c' = c\<lparr>c_state := st, c_status := ws, c_reason := r, c_workload_finished := b\<rparr>"
    and "c_reason c' = SANDBOX_TERMINATION_NONE \<Longrightarrow> c_workload_finished c' \<Longrightarrow> \<not> c_workload_finished c \<Longrightarrow>
      state_ok (c_state c) \<Longrightarrow>
      c_reason c = SANDBOX_TERMINATION_NONE \<and> kills tr' = kills tr \<and>
      empty_between k (c_cgroup c) (c_state c) tr tr'"
proof -
  let ?S = "supervision k (c_cgroup c) {SIGTERM, SIGKILL} (c_state c, c_status c, tr) (c_state c', c_status c', tr')"
  let ?E = "\<exists>st ws r b. c' = c\<lparr>c_state := st, c_status := ws, c_reason := r, c_workload_finished := b\<rparr>"
  let ?N = "c_reason c' = SANDBOX_TERMINATION_NONE \<longrightarrow> c_workload_finished c' \<longrightarrow> \<not> c_workload_finished c \<longrightarrow>
      state_ok (c_state c) \<longrightarrow>
      c_reason c = SANDBOX_TERMINATION_NONE \<and> kills tr' = kills tr \<and>
      empty_between k (c_cgroup c) (c_state c) tr tr'"
  have "?S \<and> ?E \<and> ?N"
  proof (cases "c_reason c = SANDBOX_TERMINATION_NONE")
    case False
    with assms(1) have E: "end_workload k c tr = Some (c', tr')" by (simp add: watch_workload_def)
    note e = end_workload_result [OF E assms(2)]
    obtain st ws b where c': "c' = c\<lparr>c_state := st, c_status := ws, c_workload_finished := b\<rparr>"
      using e(2) by blast
    have "c' = c\<lparr>c_state := st, c_status := ws, c_reason := c_reason c, c_workload_finished := b\<rparr>"
      by (simp add: c')
    then have ?E by blast
    moreover have ?N using False by (simp add: c')
    ultimately show ?thesis using e(1) by blast
  next
    case True
    obtain rc reason st ws where V: "supervise_workload k (c_cgroup c) (c_state c) (c_status c) tr =
        Some (rc, reason, st, ws, tr')"
      and c': "c' = c\<lparr>c_state := st, c_status := ws, c_reason := reason,
        c_workload_finished := c_workload_finished c \<or> rc = 0\<rparr>"
      using assms(1) True by (auto simp: watch_workload_def Option.bind_eq_Some_conv)
    note v = supervise_workload_result [OF V assms(2)]
    have ?S using supervised_supervision(1) [OF v assms(2)] by (simp add: c')
    moreover have ?E using c' by blast
    moreover have ?N
    proof (intro impI)
      assume "c_reason c' = SANDBOX_TERMINATION_NONE" and ok: "state_ok (c_state c)"
      then have none: "reason = SANDBOX_TERMINATION_NONE" by (simp add: c')
      have "\<not> justified k (c_cgroup c) reason s1 tr t1"
        if s: "supervision k (c_cgroup c) {} (c_state c, c_status c, tr) (s1, w1, t1)" for s1 w1 t1
      proof -
        have "state_ok s1" using supervision_system [OF s] system_steps_ok [of "c_state c" s1] ok by simp
        then show ?thesis by (auto simp: justified_def none state_ok_def)
      qed
      then have "supervision k (c_cgroup c) {} (c_state c, c_status c, tr) (st, ws, tr')"
          and e: "empty_between k (c_cgroup c) (c_state c) tr tr'"
        using v by (auto simp: supervised_def)
      from supervision_kills [OF this(1)] have "kills tr' = kills tr" by auto
      with e True show "c_reason c = SANDBOX_TERMINATION_NONE \<and> kills tr' = kills tr \<and>
        empty_between k (c_cgroup c) (c_state c) tr tr'" by blast
    qed
    ultimately show ?thesis by blast
  qed
  then show ?S and ?E and "c_reason c' = SANDBOX_TERMINATION_NONE \<Longrightarrow> c_workload_finished c' \<Longrightarrow>
      \<not> c_workload_finished c \<Longrightarrow> state_ok (c_state c) \<Longrightarrow>
      c_reason c = SANDBOX_TERMINATION_NONE \<and> kills tr' = kills tr \<and>
      empty_between k (c_cgroup c) (c_state c) tr tr'" by blast+
qed

subsection \<open>Cleaning up\<close>

text \<open>
  The line that tells of a call of the cleanup that failed, and a sequence of such calls, each with
  its line directly behind it, and with nothing else between them but other lines.
\<close>

fun complaint :: "kernel \<Rightarrow> sandbox_event \<Rightarrow> trace \<Rightarrow> trace" where
  "complaint k (Sync (ThreadJoin t (Some e))) tr =
     logger_error k (thread_name t @ '' monitor thread join failed: '' @ os_strerror k e) tr"
| "complaint k (Sync (MutexDestroy (Some e))) tr =
     logger_error k (''shared-state mutex destruction failed: '' @ os_strerror k e) tr"
| "complaint k (File (Rmdir p (Some e))) tr =
     logger_warn k (''could not remove sandbox cgroup '' @ p @ '': '' @ os_strerror k e) tr"
| "complaint k e tr = tr"

inductive winds_down :: "kernel \<Rightarrow> trace \<Rightarrow> sandbox_event list \<Rightarrow> trace \<Rightarrow> bool" for k tr where
  winds_none: "winds_down k tr [] tr"
| winds_log: "winds_down k tr es t \<Longrightarrow> extends log_only t t' \<Longrightarrow> winds_down k tr es t'"
| winds_step: "winds_down k tr es t \<Longrightarrow> winds_down k tr (es @ [e]) (complaint k e (t @ [e]))"

lemma complaint_logs: "extends log_only tr (complaint k e tr)"
  by (cases "(k, e, tr)" rule: complaint.cases)
    (auto simp: error.log_extends warn.log_extends)

lemma winds_calm:
  "winds_down k tr es tr' \<Longrightarrow> list_all calm es \<Longrightarrow> extends calm tr tr'"
proof (induction rule: winds_down.induct)
  case (winds_log es t t')
  have "extends calm t t'"
    using winds_log.hyps(2) log_quiet by (auto elim!: extends_mono simp: quiet_def)
  with winds_log show ?case by (blast intro: extends_trans)
next
  case (winds_step es t e)
  then have "extends calm tr (t @ [e])" by (auto intro: extends_snoc)
  moreover have "extends calm (t @ [e]) (complaint k e (t @ [e]))"
    by (rule extends_mono [OF complaint_logs]) (use log_quiet in \<open>auto simp: quiet_def\<close>)
  ultimately show ?case by (rule extends_trans)
qed simp

lemma close_launch_quiet: "extends quiet tr (close_launch k d tr)"
  by (simp add: close_launch_def os_close_def os_call_def)

lemma close_launch_ends:
  "open_ends (close_launch k d tr) = open_ends tr - (if 0 \<le> d then {d} else {})"
  by (simp add: close_launch_def os_close_def os_call_def)

lemma join_thread_winds:
  assumes "winds_down k d es tr"
  shows "\<exists>r. winds_down k d (es @ (if b then [Sync (ThreadJoin th r)] else [])) (join_thread k th b tr)"
proof (cases b)
  case True
  let ?e = "Sync (ThreadJoin th (o_join k tr th))"
  have "join_thread k th b tr = complaint k ?e (tr @ [?e])"
    using True by (simp add: join_thread_def os_join_def os_call_def split: option.split)
  with winds_step [OF assms, of ?e] True show ?thesis by auto
next
  case False
  with assms show ?thesis by (simp add: join_thread_def)
qed

lemma report_workload_logs: "report_workload k c tr = (code, tr') \<Longrightarrow> extends log_only tr tr'"
  by (auto simp: report_workload_def report_child_status_def Let_def
      intro!: logger_extends [where P = log_only] split: if_splits)

lemma report_workload_success:
  assumes "report_workload k c tr = (EXIT_SUCCESS, tr')"
  shows "c_workload_finished c \<and> ws_leader_status_available (c_status c) \<and>
    WIFEXITED (ws_leader_status (c_status c)) \<and> WEXITSTATUS (ws_leader_status (c_status c)) = 0 \<and>
    c_reason c = SANDBOX_TERMINATION_NONE"
  using assms
  by (auto simp: report_workload_def report_child_status_def EXIT_SUCCESS_def EXIT_FAILURE_def Let_def
      split: if_splits)

lemma remove_cgroup_winds:
  assumes "winds_down k d es tr" and "cg_active cg"
  shows "\<exists>r. winds_down k d (es @ [File (Rmdir (cg_path cg) r)]) (snd (snd (sandbox_cgroup_destroy k cg tr)))"
proof -
  let ?e = "File (Rmdir (cg_path cg) (o_rmdir k tr (cg_path cg)))"
  have "snd (snd (sandbox_cgroup_destroy k cg tr)) = complaint k ?e (tr @ [?e])"
    using assms(2) by (simp add: sandbox_cgroup_destroy_def os_rmdir_def os_call_def split: option.split)
  with winds_step [OF assms(1), of ?e] show ?thesis by auto
qed

lemma state_destroy_winds:
  assumes "winds_down k d es tr" and "sandbox_state_destroy k tr = (rc, tr')"
  shows "\<exists>r. winds_down k d (es @ [Sync (MutexDestroy r)]) tr'"
proof -
  let ?e = "Sync (MutexDestroy (o_mutex_destroy k tr))"
  have "tr' = complaint k ?e (tr @ [?e])"
    using assms(2) by (auto simp: sandbox_state_destroy_def os_mutex_destroy_def os_call_def split: option.splits)
  with winds_step [OF assms(1), of ?e] show ?thesis by auto
qed

text \<open>
  A controller has cleaned up: the trace is a part before, and then the calls that take back what
  stands at its end, in order, each once.
\<close>

definition joins :: "monitor_thread list \<Rightarrow> sandbox_event list \<Rightarrow> bool" where
  "joins threads es \<longleftrightarrow> list_all2 (\<lambda>t e. \<exists>r. e = Sync (ThreadJoin t r)) threads es"

definition cleaned_up :: "kernel \<Rightarrow> trace \<Rightarrow> bool" where
  "cleaned_up k tr \<longleftrightarrow>
     (\<exists>before js rs r. winds_down k before (js @ rs @ [Sync (MutexDestroy r)]) tr \<and>
        Sync (MutexInit None) \<in> set before \<and> list_all (\<lambda>e. \<not> teardown e) before \<and> open_ends before = {} \<and>
        joins (created before) js \<and>
        (case standing before of
           Some path \<Rightarrow> (\<exists>r. rs = [File (Rmdir path r)]) \<or> rs = [] \<and> abandoned k before
         | None \<Rightarrow> rs = []))"

lemma joins_calm: "joins ts es \<Longrightarrow> list_all calm es"
  unfolding joins_def by (induction rule: list_all2_induct) auto

lemma finish_workload_result:
  assumes "finish_workload k c tr = Some (c', tr')" and "rely monitor_step k"
  shows "extends free tr tr'"
    and "c_timeout_started c' = c_timeout_started c \<and> c_memory_started c' = c_memory_started c \<and>
      c_cpu_started c' = c_cpu_started c \<and> c_cgroup c' = c_cgroup c"
    and "c_reason c' = SANDBOX_TERMINATION_NONE \<Longrightarrow> c_workload_finished c' \<Longrightarrow> c' = c \<and> tr' = tr"
proof -
  have "extends free tr tr' \<and>
    (c_timeout_started c' = c_timeout_started c \<and> c_memory_started c' = c_memory_started c \<and>
      c_cpu_started c' = c_cpu_started c \<and> c_cgroup c' = c_cgroup c) \<and>
    (c_reason c' = SANDBOX_TERMINATION_NONE \<longrightarrow> c_workload_finished c' \<longrightarrow> c' = c \<and> tr' = tr)"
  proof (cases "c_child_started c \<and> \<not> c_workload_finished c")
    case False
    with assms(1) show ?thesis by (auto simp: finish_workload_def)
  next
    case True
    define c1 where "c1 = (if c_reason c = SANDBOX_TERMINATION_NONE
      then c\<lparr>c_reason := SANDBOX_TERMINATION_SUPERVISOR_ERROR\<rparr> else c)"
    define t1 where "t1 = logger_warn k ''performing cleanup for an active workload tree'' tr"
    have E: "end_workload k c1 t1 = Some (c', tr')"
      using assms(1) True by (simp add: finish_workload_def c1_def t1_def Let_def)
    note e = end_workload_result [OF E assms(2)]
    obtain st ws b where c': "c' = c1\<lparr>c_state := st, c_status := ws, c_workload_finished := b\<rparr>"
      using e(2) by blast
    have "extends free tr t1" unfolding t1_def by (rule quiet_free [OF quiet_log(2) [OF extends_refl]])
    from extends_trans [OF this] free_supervision [OF e(1)] have "extends free tr tr'" by simp
    then show ?thesis by (simp add: c' c1_def)
  qed
  then show "extends free tr tr'"
    and "c_timeout_started c' = c_timeout_started c \<and> c_memory_started c' = c_memory_started c \<and>
      c_cpu_started c' = c_cpu_started c \<and> c_cgroup c' = c_cgroup c"
    and "c_reason c' = SANDBOX_TERMINATION_NONE \<Longrightarrow> c_workload_finished c' \<Longrightarrow> c' = c \<and> tr' = tr"
    by blast+
qed

lemma joined_threads:
  assumes "winds_down k d [] tr"
  shows "\<exists>js. joins (started_threads c) js \<and>
    winds_down k d js (join_thread k Cpu_Monitor (c_cpu_started c)
      (join_thread k Memory_Monitor (c_memory_started c)
        (join_thread k Timeout_Monitor (c_timeout_started c) tr)))"
proof -
  obtain r1 where 1: "winds_down k d ([] @ (if c_timeout_started c then [Sync (ThreadJoin Timeout_Monitor r1)] else []))
      (join_thread k Timeout_Monitor (c_timeout_started c) tr)" (is "winds_down k d ?j1 ?t1")
    using join_thread_winds [OF assms] by blast
  obtain r2 where 2: "winds_down k d (?j1 @ (if c_memory_started c then [Sync (ThreadJoin Memory_Monitor r2)] else []))
      (join_thread k Memory_Monitor (c_memory_started c) ?t1)" (is "winds_down k d ?j2 ?t2")
    using join_thread_winds [OF 1] by blast
  obtain r3 where 3: "winds_down k d (?j2 @ (if c_cpu_started c then [Sync (ThreadJoin Cpu_Monitor r3)] else []))
      (join_thread k Cpu_Monitor (c_cpu_started c) ?t2)" (is "winds_down k d ?j3 ?t3")
    using join_thread_winds [OF 2] by blast
  have "joins (started_threads c) ?j3"
    by (auto simp: joins_def started_threads_def)
  with 3 show ?thesis by blast
qed

lemma cleanup_result:
  assumes "cleanup k c tr = Some (code, tr')" and "rely monitor_step k" and "holds k c tr"
  shows "cleaned_up k tr'"
    and "code = EXIT_SUCCESS \<Longrightarrow> extends calm tr tr' \<and> c_workload_finished c \<and>
      ws_leader_status_available (c_status c) \<and> WIFEXITED (ws_leader_status (c_status c)) \<and>
      WEXITSTATUS (ws_leader_status (c_status c)) = 0 \<and> c_reason c = SANDBOX_TERMINATION_NONE"
proof -
  define t1 where "t1 = close_launch k (c_launch_write c) (close_launch k (c_launch_read c) tr)"
  have q1: "extends quiet tr t1"
    unfolding t1_def using extends_trans [OF close_launch_quiet close_launch_quiet] .
  obtain c2 t2 where F: "finish_workload k c t1 = Some (c2, t2)"
    using assms(1) by (auto simp: cleanup_def t1_def Let_def Option.bind_eq_Some_conv)
  note f = finish_workload_result [OF F assms(2)]
  obtain rc st t3 where M: "(if c_child_started c2 \<and> c_workload_finished c2
      then sandbox_state_mark_workload_exited k (c_state c2) t2 else (0, c_state c2, t2)) = (rc, st, t3)"
    by (metis prod_cases3)
  have q3: "extends quiet t2 t3"
    using M mark_workload.quiet_section [of k "c_state c2" t2 rc st t3] by (auto split: if_splits)
  define t6 where "t6 = join_thread k Cpu_Monitor (c_cpu_started c2)
    (join_thread k Memory_Monitor (c_memory_started c2) (join_thread k Timeout_Monitor (c_timeout_started c2) t3))"
  obtain r t7 where R: "report_workload k c2 t6 = (r, t7)" by fastforce
  define t8 where "t8 = (if cg_active (c_cgroup c2) then snd (snd (sandbox_cgroup_destroy k (c_cgroup c2) t7)) else t7)"
  obtain d t9 where D: "sandbox_state_destroy k t8 = (d, t9)" by fastforce
  have eq: "code = r" "tr' = t9"
    using assms(1) F M R D
    by (auto simp: cleanup_def t1_def t6_def t8_def Let_def split: if_splits)
  have free13: "extends free t1 t3"
    using extends_trans [OF f(1) quiet_free [OF q3]] .
  have h: "holds k c t1" by (rule holds_quiet [OF assms(3) q1])
  have "open_ends t1 = {}"
    using assms(3) by (auto simp: t1_def close_launch_ends holds_def)
  then have ends: "open_ends t3 = {}" using free_keeps(3) [OF free13] by simp
  note h3 = holds_free [OF h free13, unfolded holds_def]
  have same: "started_threads c2 = started_threads c" "c_cgroup c2 = c_cgroup c"
    using f(2) by (simp_all add: started_threads_def)
  obtain js where js: "joins (started_threads c) js" "winds_down k t3 js t6"
    using joined_threads [OF winds_none, of c2 k t3] unfolding same(1) t6_def by blast
  have 7: "winds_down k t3 js t7" by (rule winds_log [OF js(2) report_workload_logs [OF R]])
  define rs where "rs = (if cg_active (c_cgroup c)
    then [File (Rmdir (cg_path (c_cgroup c)) (o_rmdir k t7 (cg_path (c_cgroup c))))] else [])"
  have 8: "winds_down k t3 (js @ rs) t8"
  proof (cases "cg_active (c_cgroup c)")
    case True
    let ?e = "File (Rmdir (cg_path (c_cgroup c)) (o_rmdir k t7 (cg_path (c_cgroup c))))"
    have "t8 = complaint k ?e (t7 @ [?e])"
      using True same(2)
      by (simp add: t8_def sandbox_cgroup_destroy_def os_rmdir_def os_call_def split: option.split)
    with winds_step [OF 7, of ?e] True show ?thesis by (simp add: rs_def)
  next
    case False
    with 7 show ?thesis by (simp add: t8_def rs_def same(2))
  qed
  from state_destroy_winds [OF this D] obtain x where
    9: "winds_down k t3 ((js @ rs) @ [Sync (MutexDestroy x)]) tr'" unfolding eq(2) by blast
  have "case standing t3 of
      Some path \<Rightarrow> (\<exists>r. rs = [File (Rmdir path r)]) \<or> rs = [] \<and> abandoned k t3 | None \<Rightarrow> rs = []"
    using h3 by (auto simp: rs_def uses_cgroup_def split: option.split if_splits)
  with h3 ends js(1) have "winds_down k t3 (js @ rs @ [Sync (MutexDestroy x)]) tr' \<and>
      Sync (MutexInit None) \<in> set t3 \<and> list_all (\<lambda>e. \<not> teardown e) t3 \<and> open_ends t3 = {} \<and>
      joins (created t3) js \<and>
      (case standing t3 of
         Some path \<Rightarrow> (\<exists>r. rs = [File (Rmdir path r)]) \<or> rs = [] \<and> abandoned k t3 | None \<Rightarrow> rs = [])"
    using 9 by simp
  then show "cleaned_up k tr'"
    unfolding cleaned_up_def by blast
  show "extends calm tr tr' \<and> c_workload_finished c \<and>
      ws_leader_status_available (c_status c) \<and> WIFEXITED (ws_leader_status (c_status c)) \<and>
      WEXITSTATUS (ws_leader_status (c_status c)) = 0 \<and> c_reason c = SANDBOX_TERMINATION_NONE"
    if "code = EXIT_SUCCESS"
  proof -
    note s = report_workload_success [OF R [unfolded eq(1) [symmetric] that]]
    with f(3) have same: "c2 = c" "t2 = t1" by auto
    have "list_all calm ((js @ rs) @ [Sync (MutexDestroy x)])"
      using joins_calm [OF js(1)] by (simp add: rs_def)
    from winds_calm [OF 9 this] have "extends calm t3 tr'" .
    then have "extends calm tr tr'"
      using quiet_calm [OF q1] quiet_calm [OF q3] same(2) by (blast intro: extends_trans)
    then show ?thesis using s same(1) by blast
  qed
qed

end
