(* ===== verification/Main_Run.thy ===== *)
theory Main_Run
  imports Main_Stages
begin

text \<open>
  Whole runs of \<^verbatim>\<open>main\<close> of the sandbox: it takes back what it has set up, it reports success only
  for a clean run, and it returns.
\<close>

subsection \<open>From the start to the end\<close>

text \<open>
  What a run that ends with exit code 0 has done: the child was made and got the byte that permits its
  launch, and a look behind the fork found nothing of the workload: in the cgroup that the run has
  made and that stands, or without one among the children of the supervisor and all that descends from
  them.
\<close>

definition workload_ran :: "kernel \<Rightarrow> pid \<Rightarrow> pid \<Rightarrow> trace \<Rightarrow> bool" where
  "workload_ran k supervisor child_pid tr \<longleftrightarrow>
     0 < child_pid \<and>
     (\<exists>rd wr. Proc (Pipe (Inr (rd, wr))) \<in> set tr \<and> permission_written wr tr) \<and>
     (\<exists>cgroup st t. Proc (Fork (Inr child_pid)) \<in> set t \<and> uses_cgroup k cgroup t \<and>
        ss_supervisor_pid st = supervisor \<and> ss_child_pid st = child_pid \<and> empty_between k cgroup st t tr)"

lemma permission_written_append: "permission_written wr tr \<Longrightarrow> permission_written wr (tr @ ev)"
  by (simp add: permission_written_def)

lemma workload_ran_append:
  assumes "workload_ran k s p tr"
  shows "workload_ran k s p (tr @ ev)"
proof -
  obtain rd wr cgroup st t where w: "0 < p" "Proc (Pipe (Inr (rd, wr))) \<in> set tr" "permission_written wr tr"
    "Proc (Fork (Inr p)) \<in> set t" "uses_cgroup k cgroup t" "ss_supervisor_pid st = s" "ss_child_pid st = p"
    "empty_between k cgroup st t tr"
    using assms unfolding workload_ran_def by blast
  obtain e1 u e2 where "found_empty k cgroup st (t @ e1) u" "tr = u @ e2"
    using w(8) unfolding empty_between_def by blast
  then have "empty_between k cgroup st t (tr @ ev)" unfolding empty_between_def by fastforce
  moreover have "Proc (Pipe (Inr (rd, wr))) \<in> set (tr @ ev)" using w(2) by simp
  ultimately show ?thesis
    using w permission_written_append [OF w(3), of ev] unfolding workload_ran_def by blast
qed

lemma extends_appends: "extends P tr tr' \<Longrightarrow> \<exists>ev. tr' = tr @ ev"
  by (auto elim: extendsE)

lemma run_parent_result:
  assumes "run_parent k p c tr = Some (c', tr')" and R: "rely monitor_step k" and "holds k c tr"
    and "c_status c = no_status" "\<not> c_workload_finished c"
    and "\<not> c_timeout_started c" "\<not> c_memory_started c" "\<not> c_cpu_started c"
    and "Proc (Pipe (Inr (rd, c_launch_write c))) \<in> set tr" "Proc (Fork (Inr p)) \<in> set tr"
  shows "holds k c' tr'"
    and "c_workload_finished c' \<Longrightarrow> c_reason c' = SANDBOX_TERMINATION_NONE \<Longrightarrow>
      workload_ran k (ss_supervisor_pid (c_state c)) p tr' \<and> kills tr' = kills tr \<and>
      booked p tr tr' no_status (c_status c')"
    and "\<exists>ev. tr' = tr @ ev"
proof -
  obtain go c1 t1 where S: "start_child k p c tr = Some (go, c1, t1)"
    using assms(1) by (auto simp: run_parent_def Option.bind_eq_Some_conv)
  note s = start_child_result [OF S assms(3) R]
  let ?ran = "c_workload_finished c' \<longrightarrow> c_reason c' = SANDBOX_TERMINATION_NONE \<longrightarrow>
      workload_ran k (ss_supervisor_pid (c_state c)) p tr' \<and> kills tr' = kills tr \<and>
      booked p tr tr' no_status (c_status c')"
  have "holds k c' tr' \<and> ?ran \<and> (\<exists>ev. tr' = tr @ ev)"
  proof (cases go)
    case False
    with assms(1) S have "c' = c1" "tr' = t1" by (auto simp: run_parent_def)
    with s False assms(5) show ?thesis by simp
  next
    case True
    note l = s(2) [OF True, unfolded launched_def]
    have threads: "\<not> c_timeout_started c1" "\<not> c_memory_started c1" "\<not> c_cpu_started c1"
      using l assms(6-8) by simp_all
    obtain c2 t2 where M: "start_monitors k c1 t1 = (c2, t2)" by fastforce
    note m = start_monitors_result [OF M R s(1) threads]
    note m1 = m(1) [unfolded thread_stage_def]
    have W: "watch_workload k c2 t2 = Some (c', tr')"
      using assms(1) S True M by (simp add: run_parent_def)
    note w = watch_workload_result [OF W R]
    obtain st ws r b where c': "c' = c2\<lparr>c_state := st, c_status := ws, c_reason := r, c_workload_finished := b\<rparr>"
      using w(2) by blast
    have "extends free t2 tr'" using free_supervision [OF w(1)] by simp
    from holds_free [OF m(2) this] have h: "holds k c' tr'"
      using holds_cong [of c' c2] by (simp add: c')
    obtain e1 where e1: "t1 = tr @ e1" using extends_appends [of quiet tr t1] l by blast
    obtain e2 where e2: "t2 = t1 @ e2" using extends_appends [of calm t1 t2] m1 by blast
    obtain e3 where e3: "tr' = t2 @ e3" using supervision_settled(2) [OF w(1)] by (rule exE)
    have "workload_ran k (ss_supervisor_pid (c_state c)) p tr' \<and> kills tr' = kills tr \<and>
        booked p tr tr' no_status (c_status c')"
      if fin: "c_workload_finished c'" and none: "c_reason c' = SANDBOX_TERMINATION_NONE"
    proof -
      have "\<not> c_workload_finished c2" "state_ok (c_state c2)" using l m1 assms(5) by simp_all
      note n = w(3) [OF none fin this]
      have child: "ss_child_pid (c_state c2) = p" "ss_supervisor_pid (c_state c2) = ss_supervisor_pid (c_state c)"
        using l m1 by (simp_all add: settled_def)
      have st2: "c_status c2 = no_status" using l m1 assms(4) by simp
      have r1: "c_reason c1 = SANDBOX_TERMINATION_NONE" using n m1 by simp
      have q: "extends calm tr t2" using extends_trans [OF quiet_calm [of tr t1]] l m1 by blast
      have pw: "permission_written (c_launch_write c) t1" using l r1 by blast
      have "permission_written (c_launch_write c) tr'"
        unfolding e3 e2 by (intro permission_written_append pw)
      moreover have "Proc (Pipe (Inr (rd, c_launch_write c))) \<in> set tr'" "Proc (Fork (Inr p)) \<in> set t2"
        using assms(9,10) by (simp_all add: e3 e2 e1)
      moreover have "uses_cgroup k (c_cgroup c2) t2" using m(2) by (simp add: holds_def)
      ultimately have "workload_ran k (ss_supervisor_pid (c_state c)) p tr'"
        using l n child unfolding workload_ran_def by blast
      moreover have "kills tr' = kills tr" using n calm_kills [OF q] by simp
      moreover have "booked p tr tr' no_status (c_status c')"
        using supervision_booked [OF w(1)] calm_children [OF q] by (simp add: child st2 booked_def)
      ultimately show ?thesis by blast
    qed
    moreover have "\<exists>ev. tr' = tr @ ev" by (simp add: e1 e2 e3)
    ultimately show ?thesis using h by blast
  qed
  then show "holds k c' tr'" and "c_workload_finished c' \<Longrightarrow> c_reason c' = SANDBOX_TERMINATION_NONE \<Longrightarrow>
      workload_ran k (ss_supervisor_pid (c_state c)) p tr' \<and> kills tr' = kills tr \<and>
      booked p tr tr' no_status (c_status c')"
    and "\<exists>ev. tr' = tr @ ev" by blast+
qed

lemma sandbox_run_result:
  assumes "sandbox_run k h parent (initial_controller options st) tr = Some (Some c', tr')"
    and R: "rely monitor_step k" and "holds k (initial_controller options st) tr" and "standing tr = None"
  shows "holds k c' tr'"
    and "c_workload_finished c' \<Longrightarrow> c_reason c' = SANDBOX_TERMINATION_NONE \<Longrightarrow>
      \<exists>p t. workload_ran k (ss_supervisor_pid st) p tr' \<and> kills tr' = kills tr \<and>
        reaped_children t = reaped_children tr \<and> booked p t tr' no_status (c_status c')"
    and "\<exists>ev. tr' = tr @ ev"
proof -
  let ?c = "initial_controller options st"
  obtain go c1 t1 where P: "prepare_launch k ?c tr = Some (go, c1, t1)"
    using assms(1) by (auto simp: sandbox_run_def Option.bind_eq_Some_conv)
  have c: "c_launch_read ?c = -1" "c_launch_write ?c = -1" "c_cgroup ?c = no_cgroup"
    by (simp_all add: initial_controller_def)
  note p = prepare_launch_result [OF P assms(3,4) c]
  obtain cg rd wr where c1: "c1 = ?c\<lparr>c_cgroup := cg, c_launch_read := rd, c_launch_write := wr\<rparr>"
    using p(2) by blast
  have i: "c_status c1 = no_status" "\<not> c_workload_finished c1" "\<not> c_timeout_started c1"
      "\<not> c_memory_started c1" "\<not> c_cpu_started c1"
    by (simp_all add: c1 initial_controller_def no_status_def)
  have sup: "ss_supervisor_pid (c_state c1) = ss_supervisor_pid st"
    by (simp add: c1 initial_controller_def)
  obtain ev1 where ev1: "t1 = tr @ ev1" using p(6) by (rule exE)
  let ?t2 = "t1 @ [Proc (Fork (map_sum id int (o_fork k t1)))]"
  have q2: "extends quiet t1 ?t2" by simp
  have "holds k c' tr' \<and> (c_workload_finished c' \<longrightarrow> c_reason c' = SANDBOX_TERMINATION_NONE \<longrightarrow>
      (\<exists>p t. workload_ran k (ss_supervisor_pid st) p tr' \<and> kills tr' = kills tr \<and>
        reaped_children t = reaped_children tr \<and> booked p t tr' no_status (c_status c'))) \<and>
      (\<exists>ev. tr' = tr @ ev)"
  proof (cases go)
    case False
    with assms(1) P have "c' = c1" "tr' = t1" by (auto simp: sandbox_run_def)
    with p(1,6) i(2) show ?thesis by simp
  next
    case True
    show ?thesis
    proof (cases "o_fork k t1")
      case (Inl e)
      let ?msg = "''fork() failed: '' @ os_strerror k e"
      have eq: "c' = c1" "tr' = logger_error k ?msg ?t2"
        using assms(1) P True Inl by (auto simp: sandbox_run_def os_fork_def os_call_def)
      have q: "extends quiet t1 tr'" unfolding eq by (rule quiet_log(3) [OF q2])
      then obtain ev where "tr' = t1 @ ev" by (rule extendsE)
      with holds_quiet [OF p(1) q] i(2) ev1 show ?thesis by (simp add: eq(1))
    next
      case (Inr n)
      with assms(1) P True have n: "int n \<noteq> 0"
        by (auto simp: sandbox_run_def os_fork_def os_call_def Option.bind_eq_Some_conv split: if_splits)
      then have A: "run_parent k (int n) c1 ?t2 = Some (c', tr')"
        using assms(1) P True Inr
        by (auto simp: sandbox_run_def os_fork_def os_call_def Option.bind_eq_Some_conv split: if_splits)
      have "Proc (Pipe (Inr (c_launch_read c1, c_launch_write c1))) \<in> set ?t2"
          "Proc (Fork (Inr (int n))) \<in> set ?t2"
        using p(5) [OF True] Inr by simp_all
      note a = run_parent_result [OF A R holds_quiet [OF p(1) q2] i this, unfolded sup]
      obtain ev where ev: "tr' = ?t2 @ ev" using a(3) by (rule exE)
      have "kills ?t2 = kills tr" "reaped_children ?t2 = reaped_children tr" using p(3,4) by simp_all
      with a(2) have "c_workload_finished c' \<Longrightarrow> c_reason c' = SANDBOX_TERMINATION_NONE \<Longrightarrow>
          \<exists>p t. workload_ran k (ss_supervisor_pid st) p tr' \<and> kills tr' = kills tr \<and>
            reaped_children t = reaped_children tr \<and> booked p t tr' no_status (c_status c')" by metis
      moreover have "\<exists>ev. tr' = tr @ ev" by (simp add: ev ev1)
      ultimately show ?thesis using a(1) by blast
    qed
  qed
  then show "holds k c' tr'" and "c_workload_finished c' \<Longrightarrow> c_reason c' = SANDBOX_TERMINATION_NONE \<Longrightarrow>
      \<exists>p t. workload_ran k (ss_supervisor_pid st) p tr' \<and> kills tr' = kills tr \<and>
        reaped_children t = reaped_children tr \<and> booked p t tr' no_status (c_status c')"
    and "\<exists>ev. tr' = tr @ ev" by blast+
qed

text \<open>The runs of \<^verbatim>\<open>main\<close> that end as the controller: early, or in \<^verbatim>\<open>cleanup\<close>.\<close>

lemma parse_arguments_quiet:
  "parse_arguments arguments timeout memory tr = (r, tr') \<Longrightarrow> extends quiet tr tr'"
  by (induction arguments timeout memory tr rule: parse_arguments.induct)
    (auto simp: eprint_def split: if_splits list.splits option.splits)

lemma parse_arguments_trace:
  "fst (parse_arguments arguments timeout memory tr) = fst (parse_arguments arguments timeout memory tr2)"
  by (induction arguments timeout memory tr rule: parse_arguments.induct)
    (auto split: list.splits option.splits)

lemma parse_options_trace: "fst (parse_options argv tr) = fst (parse_options argv tr2)"
  unfolding parse_options_def by (rule parse_arguments_trace)

lemma parse_arguments_silent:
  "parse_arguments arguments timeout memory tr = (Some options, tr') \<Longrightarrow> tr' = tr"
  by (induction arguments timeout memory tr rule: parse_arguments.induct)
    (auto split: if_splits list.splits option.splits)

lemma sandbox_state_init_result:
  assumes "sandbox_state_init k tr = (rc, st, tr')"
  shows "rc = 0 \<Longrightarrow> ss_supervisor_pid st = o_getpid k tr \<and>
      tr' = tr @ [Proc (GetPid (o_getpid k tr)), Sync (MutexInit None)]"
    and "rc \<noteq> 0 \<Longrightarrow> extends quiet tr tr'"
proof -
  let ?t1 = "tr @ [Proc (GetPid (o_getpid k tr))]"
  have "rc = 0 \<and> ss_supervisor_pid st = o_getpid k tr \<and> tr' = ?t1 @ [Sync (MutexInit None)] \<or>
    rc = -1 \<and> extends quiet tr tr'"
  proof (cases "o_mutex_init k ?t1")
    case None
    with assms(1) show ?thesis
      by (auto simp: sandbox_state_init_def os_getpid_def os_mutex_init_def os_call_def Let_def)
  next
    case (Some e)
    have "extends quiet tr (?t1 @ [Sync (MutexInit (Some e))])" by simp
    from quiet_log(3) [OF this] show ?thesis
      using assms(1) Some
      by (auto simp: sandbox_state_init_def os_getpid_def os_mutex_init_def os_call_def Let_def)
  qed
  then show "rc = 0 \<Longrightarrow> ss_supervisor_pid st = o_getpid k tr \<and>
      tr' = tr @ [Proc (GetPid (o_getpid k tr)), Sync (MutexInit None)]"
    and "rc \<noteq> 0 \<Longrightarrow> extends quiet tr tr'" by auto
qed

lemma sandbox_main_result:
  assumes "sandbox_main k h argv [] = Some (Controller_Exit code, tr)" and R: "rely monitor_step k"
  shows "cleaned_up k tr \<or> code = EXIT_FAILURE \<and> list_all free tr"
    and "code = EXIT_SUCCESS \<Longrightarrow> \<exists>a s p t options status ws.
      fst (parse_options argv []) = Some options \<and> take 2 tr = [Proc (GetPid a), Proc (GetPid s)] \<and>
      workload_ran k s p tr \<and> kills tr = [] \<and>
      reaped_children t = [] \<and> booked p t tr no_status ws \<and>
      ws_leader_status_available ws \<and> ws_leader_status ws = status \<and> WIFEXITED status \<and> WEXITSTATUS status = 0"
proof -
  let ?t1 = "[Proc (GetPid (o_getpid k []))]"
  obtain r t2 where P: "parse_options argv ?t1 = (r, t2)" by fastforce
  have "extends quiet [] ?t1" by (simp add: extends_def)
  from extends_trans [OF this parse_arguments_quiet [OF P [unfolded parse_options_def]]]
  have q2: "extends quiet [] t2" .
  have fr: "fst (parse_options argv []) = r"
    using parse_options_trace [of argv "[]" ?t1] P by simp
  let ?ok = "(cleaned_up k tr \<or> code = EXIT_FAILURE \<and> list_all free tr) \<and>
    (code = EXIT_SUCCESS \<longrightarrow> (\<exists>a s p t options status ws.
      fst (parse_options argv []) = Some options \<and> take 2 tr = [Proc (GetPid a), Proc (GetPid s)] \<and>
      workload_ran k s p tr \<and> kills tr = [] \<and>
      reaped_children t = [] \<and> booked p t tr no_status ws \<and>
      ws_leader_status_available ws \<and> ws_leader_status ws = status \<and> WIFEXITED status \<and>
      WEXITSTATUS status = 0))"
  have fail: "EXIT_FAILURE \<noteq> EXIT_SUCCESS" by (simp add: EXIT_FAILURE_def EXIT_SUCCESS_def)
  have early: ?ok if "code = EXIT_FAILURE" "extends quiet [] tr"
    using that fail quiet_free [OF that(2)] by (auto elim: extendsE)
  have ?ok
  proof (cases r)
    case None
    then obtain name where "code = EXIT_FAILURE" "tr = print_usage name t2"
      using assms(1) P by (auto simp: sandbox_main_def os_getpid_def os_call_def split: list.splits)
    moreover have "extends quiet [] (print_usage name t2)"
      unfolding print_usage_def eprint_def using q2 by (intro extends_snoc) simp_all
    ultimately show ?thesis using early by simp
  next
    case (Some options)
    have t2: "t2 = ?t1" using parse_arguments_silent P Some by (simp add: parse_options_def)
    obtain rc st t3 where I: "sandbox_state_init k t2 = (rc, st, t3)" by (metis prod_cases3)
    note i = sandbox_state_init_result [OF I]
    show ?thesis
    proof (cases "rc = 0")
      case False
      with assms(1) P Some I have "code = EXIT_FAILURE" "tr = t3"
        by (auto simp: sandbox_main_def os_getpid_def os_call_def)
      with early extends_trans [OF q2 i(2) [OF False]] show ?thesis by simp
    next
      case True
      let ?c = "initial_controller options st"
      let ?s = "ss_supervisor_pid st"
      have t3: "t3 = [Proc (GetPid (o_getpid k [])), Proc (GetPid ?s), Sync (MutexInit None)]"
        using i(1) [OF True] by (simp add: t2)
      have s3: "standing t3 = None" "open_ends t3 = {}"
        unfolding t3 by (simp_all add: standing_def open_ends_def)
      have h3: "holds k ?c t3"
        unfolding holds_def s3(2)
        by (simp add: uses_cgroup_def s3(1) initial_controller_def no_cgroup_def started_threads_def) (simp add: t3)
      have k3: "kills t3 = []" "reaped_children t3 = []" by (simp_all add: t3)
      obtain c t4 where S: "sandbox_run k h (o_getpid k []) ?c t3 = Some (Some c, t4)"
          and C: "cleanup k c t4 = Some (code, tr)"
        using assms(1) P Some I True
        by (auto simp: sandbox_main_def os_getpid_def os_call_def Option.bind_eq_Some_conv split: option.splits)
      note s = sandbox_run_result [OF S R h3 s3(1)]
      note c = cleanup_result [OF C R s(1)]
      have "\<exists>a s p t options status ws.
        fst (parse_options argv []) = Some options \<and> take 2 tr = [Proc (GetPid a), Proc (GetPid s)] \<and>
        workload_ran k s p tr \<and> kills tr = [] \<and>
        reaped_children t = [] \<and> booked p t tr no_status ws \<and>
        ws_leader_status_available ws \<and> ws_leader_status ws = status \<and> WIFEXITED status \<and>
        WEXITSTATUS status = 0" if "code = EXIT_SUCCESS"
      proof -
        note z = c(2) [OF that]
        then obtain p t where w: "workload_ran k ?s p t4" "kills t4 = kills t3" "reaped_children t = reaped_children t3"
            "booked p t t4 no_status (c_status c)" using s(2) by blast
        obtain ev where ev: "tr = t4 @ ev" using extends_appends [of calm t4 tr] z by blast
        obtain ev3 where ev3: "t4 = t3 @ ev3" using s(3) by (rule exE)
        have "take 2 tr = [Proc (GetPid (o_getpid k [])), Proc (GetPid ?s)]"
          unfolding ev ev3 t3 by simp
        moreover have "workload_ran k ?s p tr" unfolding ev by (rule workload_ran_append [OF w(1)])
        moreover have "kills tr = []" using w(2) k3 calm_kills [of t4 tr] z by simp
        moreover have "reaped_children t = []" using w(3) k3(2) by simp
        moreover have "booked p t tr no_status (c_status c)"
          using w(4) calm_children [of t4 tr] z by (simp add: booked_def)
        ultimately show ?thesis using fr Some z by blast
      qed
      with c(1) show ?thesis by blast
    qed
  qed
  then show "cleaned_up k tr \<or> code = EXIT_FAILURE \<and> list_all free tr"
    and "code = EXIT_SUCCESS \<Longrightarrow> \<exists>a s p t options status ws.
      fst (parse_options argv []) = Some options \<and> take 2 tr = [Proc (GetPid a), Proc (GetPid s)] \<and>
      workload_ran k s p tr \<and> kills tr = [] \<and>
      reaped_children t = [] \<and> booked p t tr no_status ws \<and>
      ws_leader_status_available ws \<and> ws_leader_status ws = status \<and> WIFEXITED status \<and> WEXITSTATUS status = 0"
    by blast+
qed

lemma start_child_total: "finite_retries b k \<Longrightarrow> total (start_child k p c tr)"
  unfolding start_child_def attach_child_def let_child_go_def Let_def
  by (intro total_rules sandbox_cgroup_attach_total release_child_total)

lemma end_workload_total: "finite_retries b k \<Longrightarrow> total (end_workload k c tr)"
  unfolding end_workload_def by (intro total_rules terminate_workload_total)

lemma run_parent_total: "finite_retries b k \<Longrightarrow> ended_after n k \<Longrightarrow> total (run_parent k p c tr)"
  unfolding run_parent_def watch_workload_def
  by (intro total_rules start_child_total end_workload_total supervise_workload_total)

lemma sandbox_run_total:
  "finite_retries b k \<Longrightarrow> ended_after n k \<Longrightarrow> total (sandbox_run k h parent c tr)"
  unfolding sandbox_run_def prepare_launch_def
  by (intro total_rules sandbox_cgroup_prepare_total run_sandbox_child_total run_parent_total)

lemma cleanup_total: "finite_retries b k \<Longrightarrow> total (cleanup k c tr)"
  unfolding cleanup_def finish_workload_def by (intro total_rules end_workload_total)

subsection \<open>Properties of main\<close>

text \<open>
  A machine on which the child exits at once with code 0, and a run of \<^verbatim>\<open>main\<close> on it.
\<close>

definition demo_clean :: kernel where
  "demo_clean =
     demo_os\<lparr>o_waitpid := (\<lambda>tr. if reaped_children tr = [] then Inr (Reaped 200 0) else Inl ECHILD)\<rparr>"

lemma demo_clean_run:
  obtains tr where "sandbox_main demo_clean x86_64 [''sandbox'', ''/bin/true''] [] =
    Some (Controller_Exit EXIT_SUCCESS, tr)"
proof -
  have "map_option fst (sandbox_main demo_clean x86_64 [''sandbox'', ''/bin/true''] []) =
      Some (Controller_Exit EXIT_SUCCESS)"
    by code_simp
  with that show thesis by auto
qed

lemma demo_clean_rely: "rely monitor_step demo_clean"
  by (simp add: rely_def demo_clean_def demo_os_def)

text \<open>
  C2: exit code 0 means a clean run. If \<^verbatim>\<open>main\<close> ends with exit code 0, the command line was in order,
  the child was forked, got the permission byte on the pipe, and nobody was sent a signal; a look at
  the workload behind the fork found nothing left of it, in the directory of the cgroup that this run
  has made and not removed, or without one in a scan of \<^verbatim>\<open>/proc\<close> for the PID of this supervisor, which
  \<^verbatim>\<open>getpid\<close> gave at the start, and the PID of this child; and the first status that \<^verbatim>\<open>waitpid\<close> gave
  for the child says that it exited with code 0.
\<close>

theorem sandbox_main_success:
  assumes "sandbox_main k h argv [] = Some (Controller_Exit EXIT_SUCCESS, tr)" and "rely monitor_step k"
  shows "\<exists>parent supervisor child_pid options status.
    fst (parse_options argv []) = Some options \<and>
    take 2 tr = [Proc (GetPid parent), Proc (GetPid supervisor)] \<and>
    workload_ran k supervisor child_pid tr \<and> kills tr = [] \<and>
    map_of (reaped_children tr) child_pid = Some status \<and> WIFEXITED status \<and> WEXITSTATUS status = 0"
proof -
  obtain a s p t options status ws where r: "fst (parse_options argv []) = Some options"
    "take 2 tr = [Proc (GetPid a), Proc (GetPid s)]" "workload_ran k s p tr"
    "kills tr = []" "reaped_children t = []" "booked p t tr no_status ws" "ws_leader_status_available ws"
    "ws_leader_status ws = status" "WIFEXITED status" "WEXITSTATUS status = 0"
    using sandbox_main_result(2) [OF assms refl] by auto
  from r(5-8) have "map_of (reaped_children tr) p = Some status"
    by (auto simp: booked_def no_status_def)
  with r show ?thesis by blast
qed

lemma sandbox_main_success_witness:
  "\<exists>tr supervisor child_pid. sandbox_main demo_clean x86_64 [''sandbox'', ''/bin/true''] [] =
      Some (Controller_Exit EXIT_SUCCESS, tr) \<and> workload_ran demo_clean supervisor child_pid tr"
  by (rule demo_clean_run) (use sandbox_main_success [OF _ demo_clean_rely] in blast)

text \<open>
  C3: the controller takes everything back. However \<^verbatim>\<open>main\<close> ends as the controller, either nothing was
  set up (exit code 1, and no thread, mutex, directory or pipe in the trace), or the trace ends with
  the cleanup. Before it, and behind every signal and every \<^verbatim>\<open>waitpid\<close>, both ends of the launch pipe
  have been closed and nothing has been torn down. Then every monitor thread that was created is
  joined once, in the order of creation; the directory that stands is removed, unless it is one in
  which \<^verbatim>\<open>sandbox_cgroup_prepare\<close> was refused the limit and which it could not remove itself; and the
  mutex is destroyed. Nothing else happens in the cleanup but lines on the log, and whichever of these
  calls the kernel refuses, the line that says so follows at once.
\<close>

theorem sandbox_main_cleans_up:
  assumes "sandbox_main k h argv [] = Some (Controller_Exit code, tr)" and "rely monitor_step k"
  shows "cleaned_up k tr \<or> code = EXIT_FAILURE \<and> list_all free tr"
  using sandbox_main_result(1) [OF assms] .

lemma sandbox_main_cleans_up_witness:
  "\<exists>tr. sandbox_main demo_clean x86_64 [''sandbox'', ''/bin/true''] [] =
      Some (Controller_Exit EXIT_SUCCESS, tr) \<and> cleaned_up demo_clean tr"
proof (rule demo_clean_run)
  fix tr
  assume M: "sandbox_main demo_clean x86_64 [''sandbox'', ''/bin/true''] [] =
      Some (Controller_Exit EXIT_SUCCESS, tr)"
  have "EXIT_SUCCESS \<noteq> EXIT_FAILURE" by (simp add: EXIT_FAILURE_def EXIT_SUCCESS_def)
  with sandbox_main_cleans_up [OF M demo_clean_rely] M show ?thesis by blast
qed

text \<open>
  C21: \<^verbatim>\<open>main\<close> returns. If only finitely many calls are interrupted and finitely many children die, and
  if from some critical section on an operator's signal is pending or another thread has requested the
  end (as the timeout monitor does), \<^verbatim>\<open>main\<close> comes to its end, in the controller as in the child.
\<close>

theorem sandbox_main_returns:
  assumes "finite_retries b k" and "ended_after n k"
  shows "\<exists>e tr'. sandbox_main k h argv tr = Some (e, tr')"
proof -
  have "total (sandbox_main k h argv tr)"
    unfolding sandbox_main_def
    by (intro total_rules sandbox_run_total [OF assms] cleanup_total [OF assms(1)])
  then show ?thesis by (auto elim!: totalE)
qed

lemma sandbox_main_returns_witness:
  "\<exists>e tr'. sandbox_main demo_signalled x86_64 [''sandbox'', ''/bin/true''] [] = Some (e, tr')"
  using sandbox_main_returns [OF demo_signalled_ok(1,2)] .

end
