(* ===== verification/Spec2Isabelle.thy ===== *)
theory Spec2Isabelle
  imports Auth_System Main_Run
begin

text \<open>
  A verification library for the repository ST5039CMD: two C programs for an authentication over a
  local socket (\<^verbatim>\<open>src/Authentication\<close>) and a C program that runs a target in a sandbox
  (\<^verbatim>\<open>src/Sandbox\<close>).

  \<^bold>\<open>How the code is modelled.\<close> A C function that makes system calls is a HOL function from the kernel,
  its arguments and the \<^emph>\<open>trace\<close> of the process (everything it has done so far, with the results) to
  its result and the longer trace. The kernel is a parameter, a record of functions that give the
  result of the next call from the trace; the other processes, the delivery of signals and the other
  threads are part of it. Theorems quantify over all kernels, so that they cover every behaviour of the
  outside world; what a theorem needs of it (\<open>finite_interrupts\<close>, \<open>finite_retries\<close>, \<open>linux_credentials\<close>,
  \<open>rely monitor_step\<close>, \<open>ended_after\<close>) is a named hypothesis with a concrete instance. Loops that may
  run for ever are \<^theory_text>\<open>partial_function (option)\<close>, where \<open>None\<close> means that the program does not return; no
  fuel is used, and that the programs return is proved as such (\<open>total\<close>). Integers have the width that
  they have in C (\<open>u32\<close>, \<open>u64\<close>), buffers are byte lists of fixed length, \<^verbatim>\<open>errno\<close> results are
  \<open>errno option\<close> or a sum. \<^verbatim>\<open>struct\<close>s are records, \<^verbatim>\<open>enum\<close>s datatypes, a \<^verbatim>\<open>goto cleanup\<close> is an
  early result that is passed on to the function \<open>..._cleanup\<close> or \<open>cleanup\<close>.

  \<^bold>\<open>The shared part.\<close>
  \<^item> \<open>C_Prelude\<close>: types, buffers, \<open>extends\<close> (one trace continues another by events of a class), \<open>total\<close> and
    its rules, the retry loops.
  \<^item> \<open>C_Strings\<close>, \<open>C_Numbers\<close>: the functions of the C library that the programs call.

  \<^bold>\<open>The authentication programs.\<close> The backend is a set-user-id program that reads the one account from a
  file, drops its privileges, serves one client over a UNIX socket and exits; the frontend prompts for
  a name and a password, sends them, and reports the answer.
  \<^item> \<open>Secure_Memory\<close> (\<^verbatim>\<open>secure_memory.c\<close>): clearing of secrets, in both builds; locale \<open>zeroing\<close>.
  \<^item> \<open>Auth_Protocol\<close> (\<^verbatim>\<open>auth_protocol.h\<close>): messages and their layout in memory.
  \<^item> \<open>Auth_OS\<close>: system calls and trace; \<open>Auth_Transfer\<close>: the four \<^verbatim>\<open>read_all\<close>/\<^verbatim>\<open>write_all\<close> loops, with the
    locales \<open>full_read\<close> and \<open>full_write\<close> as the contracts that both programs rely on.
  \<^item> \<open>Backend_Credential\<close>, \<open>Backend_Request\<close>, \<open>Backend_Privilege\<close>, \<open>Backend_Socket\<close>, \<open>Backend_Main\<close>
    (\<^verbatim>\<open>Backend.c\<close>): the credential file and its refinement to a specification on lines; the decision on a
    request and its independence of secrets; the privilege drop and the machine of Linux credentials;
    the sockets; the whole process with its cleanup.
  \<^item> \<open>Frontend\<close> (\<^verbatim>\<open>Frontend.c\<close>, POSIX build): prompts, terminal echo, the exchange, the whole process.
  \<^item> \<open>Auth_System\<close>: a run of each, as the two ends of one connection.

  \<^bold>\<open>The sandbox.\<close> The controller parses its command line, becomes a subreaper, prepares a cgroup, forks;
  the child waits for a byte on a pipe, hardens itself and executes the target; the controller starts
  three monitor threads and supervises the workload (the target and all its descendants) until nothing
  of it is left, ending it with SIGTERM and then SIGKILL when the operator, a monitor or an error asks
  for it; then it takes everything back and reports.
  \<^item> \<open>Sandbox_OS\<close>: system calls and trace; \<open>Logger\<close> (\<^verbatim>\<open>logger.c\<close>): locale \<open>logging\<close>.
  \<^item> \<open>Process_Tree\<close> (\<^verbatim>\<open>process_tree.c\<close>): parsing of \<^verbatim>\<open>/proc\<close> and the sample of the workload.
  \<^item> \<open>Shared_State\<close>, \<open>Monitor_Threads\<close> (\<^verbatim>\<open>monitor.c\<close>): the state under its mutex, whose operations refine
    atomic steps (locale \<open>state_operation\<close>) while other threads interfere (\<open>rely\<close>), and the threads,
    which keep to the steps that the others rely on (\<open>disciplined monitor_step\<close>).
  \<^item> \<open>Cgroup\<close>, \<open>Child_Hardening\<close> (\<^verbatim>\<open>security.c\<close>): the cgroup files; limits, Landlock rules, and the seccomp
    program with a machine that runs it.
  \<^item> \<open>Sandbox_Options\<close>, \<open>Sandbox_Launch\<close>, \<open>Supervisor\<close>, \<open>Supervision\<close>, \<open>Sandbox_Main\<close>, \<open>Main_Stages\<close>, \<open>Main_Run\<close>
    (\<^verbatim>\<open>Sandbox.c\<close>): the command line; the launch pipe and the child; collecting children, looking for the
    workload and signalling it, as an inductive step relation \<open>supervision\<close> with guards that the
    supervisor refines; escalation, reasons, termination; \<^verbatim>\<open>main\<close>, its obligations (\<open>due\<close>), its exit code
    and its end.

  \<^bold>\<open>What the properties show\<close> (C1 to C40, in the theories): invariants (cleanup on every path, network
  only behind the privilege drop, the first reason for termination stays), refinements (credential
  file, shared state, supervisor), functional exactness (decision, peers, prompts, sample, signals, BPF
  program), all-or-nothing errors (socket, cgroup), round trips (command line, \<^verbatim>\<open>stat\<close> lines, cgroup files),
  safety (secrets cleared and hidden, hardening before \<^verbatim>\<open>exec\<close>, no early timeout, SIGKILL not before the
  grace period, exit code 0 only for a clean run) and that the programs return.

  \<^bold>\<open>Bounds.\<close> A waiting loop of the supervisor ends by its own counter (1000 and 5000 ms in steps of 50);
  other loops end by the hypotheses: \<open>finite_interrupts b\<close> and \<open>finite_retries b\<close> allow any number \<open>b\<close> of
  interrupted calls (and of dying children), \<open>stops_after n\<close> and \<open>ended_after n\<close> any number \<open>n\<close> of critical
  sections before the workload stops or its end is requested.

  \<^bold>\<open>Not modelled.\<close> The Windows branches of the preprocessor in \<^verbatim>\<open>Frontend.c\<close>; the conversion of \<^verbatim>\<open>printf\<close>
  formats (messages arrive as finished text) and the floating-point percentage that the CPU monitor
  prints; the test targets under \<^verbatim>\<open>Sandbox/test\<close>, which exercise the sandbox from inside; the shell
  scripts and the Makefile. Truncation of the log lines and scheduling within a critical section play no
  role in the model, because only the owner of a mutex acts under it.
\<close>

end
